(* ===== verification/Prelude.thy ===== *)
theory Prelude
  imports Main "HOL-Library.Word" "HOL-Library.AList" "HOL-Library.Sublist" "HOL-Library.Code_Target_Nat"
    "HOL-Library.Char_ord" "HOL-Library.List_Lexorder" "HOL-Library.Product_Lexorder"
begin

text \<open>
  Shared vocabulary of the development: results and early return, Rust strings as lists of
  UTF-8 bytes with the \<open>str\<close> methods the code calls, decimal and hexadecimal printing and
  parsing, little-endian integers, and 64-bit unsigned arithmetic on \<open>nat\<close>.

  The code is the workspace of three crates under \<^verbatim>\<open>src/crates\<close>.  This theory models only the
  standard library operations that code uses, so it maps to no source lines of its own.
\<close>

section \<open>Collections of facts\<close>

named_theorems str_simps \<open>string operations on literals and appended strings\<close>
named_theorems fs_simps \<open>what a file system primitive does to lookups\<close>
named_theorems fs_frame \<open>what a file system primitive leaves alone\<close>
named_theorems path_simps \<open>joins of fixed path segments\<close>

section \<open>Results\<close>

text \<open>Rust's \<open>Result<T, E>\<close> is \<open>'e + 'a\<close>, \<open>Err\<close> on the left.\<close>

abbreviation Err :: "'e \<Rightarrow> 'e + 'a" where "Err \<equiv> Inl"
abbreviation Ok :: "'a \<Rightarrow> 'e + 'a" where "Ok \<equiv> Inr"

definition is_ok :: "'e + 'a \<Rightarrow> bool" where
  "is_ok r = (case r of Inl _ \<Rightarrow> False | Inr _ \<Rightarrow> True)"

definition map_err :: "('e \<Rightarrow> 'f) \<Rightarrow> 'e + 'a \<Rightarrow> 'f + 'a" where
  "map_err g r = (case r of Inl e \<Rightarrow> Inl (g e) | Inr a \<Rightarrow> Inr a)"

definition unwrap_or :: "'a \<Rightarrow> 'e + 'a \<Rightarrow> 'a" where
  "unwrap_or d r = (case r of Inl _ \<Rightarrow> d | Inr a \<Rightarrow> a)"

definition ok_option :: "'e + 'a \<Rightarrow> 'a option" where
  "ok_option r = (case r of Inl _ \<Rightarrow> None | Inr a \<Rightarrow> Some a)"

lemma result_simps [simp]:
  "is_ok (Inr a) = True" "is_ok (Inl e) = False"
  "map_err g (Inr a) = Inr a" "map_err g (Inl e) = Inl (g e)"
  "unwrap_or d (Inr a) = a" "unwrap_or d (Inl e) = d"
  "ok_option (Inr a) = Some a" "ok_option (Inl e) = None"
  by (simp_all add: is_ok_def map_err_def unwrap_or_def ok_option_def)

lemma is_ok_iff: "is_ok r \<longleftrightarrow> (\<exists>a. r = Inr a)"
  by (cases r) auto

lemma map_err_Inr_iff [simp]: "map_err g r = Inr a \<longleftrightarrow> r = Inr a"
  by (cases r) auto

lemma map_err_Inl_iff: "map_err g r = Inl e' \<longleftrightarrow> (\<exists>e. r = Inl e \<and> e' = g e)"
  by (cases r) auto

section \<open>Strings and bytes\<close>

text \<open>
  HOL's \<open>char\<close> is an 8-bit value, so a \<open>string\<close> is a list of bytes.  A Rust \<open>str\<close> is the list
  of its UTF-8 bytes (Rust's \<open>len\<close> counts them too), and the contents of a file are the same type.
\<close>

type_synonym bytes = string

definition byte_val :: "char \<Rightarrow> nat" where
  "byte_val c = of_char c"

definition in_range :: "nat \<Rightarrow> nat \<Rightarrow> char \<Rightarrow> bool" where
  "in_range lo hi c = (lo \<le> byte_val c \<and> byte_val c \<le> hi)"

definition is_ascii_digit :: "char \<Rightarrow> bool" where
  "is_ascii_digit = in_range 48 57"

definition is_ascii_upper :: "char \<Rightarrow> bool" where
  "is_ascii_upper = in_range 65 90"

definition is_ascii_lower :: "char \<Rightarrow> bool" where
  "is_ascii_lower = in_range 97 122"

definition is_ascii_alphanumeric :: "char \<Rightarrow> bool" where
  "is_ascii_alphanumeric c = (is_ascii_digit c \<or> is_ascii_upper c \<or> is_ascii_lower c)"

definition is_ascii_hexdigit :: "char \<Rightarrow> bool" where
  "is_ascii_hexdigit c = (is_ascii_digit c \<or> in_range 65 70 c \<or> in_range 97 102 c)"

definition is_lower_hex :: "char \<Rightarrow> bool" where
  "is_lower_hex c = (is_ascii_digit c \<or> in_range 97 102 c)"

lemmas char_class_defs = is_ascii_digit_def is_ascii_upper_def is_ascii_lower_def
  is_ascii_alphanumeric_def is_ascii_hexdigit_def is_lower_hex_def in_range_def

lemma byte_val_less [simp]: "byte_val c < 256"
  unfolding byte_val_def by simp

lemma byte_val_inject [simp]: "byte_val c = byte_val d \<longleftrightarrow> c = d"
  by (simp add: byte_val_def of_char_eq_iff)

lemma char_of_byte_val [simp]: "char_of (byte_val c) = c"
  by (simp add: byte_val_def)

lemma byte_val_char_of: "n < 256 \<Longrightarrow> byte_val (char_of n) = n"
  by (simp add: byte_val_def of_char_of)

definition ascii_lower_char :: "char \<Rightarrow> char" where
  "ascii_lower_char c = (if is_ascii_upper c then char_of (byte_val c + 32) else c)"

definition ascii_upper_char :: "char \<Rightarrow> char" where
  "ascii_upper_char c = (if is_ascii_lower c then char_of (byte_val c - 32) else c)"

definition to_ascii_lowercase :: "string \<Rightarrow> string" where
  "to_ascii_lowercase = map ascii_lower_char"

definition to_ascii_uppercase :: "string \<Rightarrow> string" where
  "to_ascii_uppercase = map ascii_upper_char"

definition eq_ignore_ascii_case :: "string \<Rightarrow> string \<Rightarrow> bool" where
  "eq_ignore_ascii_case a b = (to_ascii_lowercase a = to_ascii_lowercase b)"

lemma ascii_lower_char_id: "\<not> is_ascii_upper c \<Longrightarrow> ascii_lower_char c = c"
  by (simp add: ascii_lower_char_def)

lemma ascii_lower_char_not_upper [simp]: "\<not> is_ascii_upper (ascii_lower_char c)"
proof (cases "is_ascii_upper c")
  case True
  then have "byte_val (ascii_lower_char c) = byte_val c + 32"
    by (auto simp: ascii_lower_char_def is_ascii_upper_def in_range_def intro!: byte_val_char_of)
  with True show ?thesis by (simp add: is_ascii_upper_def in_range_def)
next
  case False
  then show ?thesis by (simp add: ascii_lower_char_def)
qed

lemma to_ascii_lowercase_idem [simp]:
  "to_ascii_lowercase (to_ascii_lowercase s) = to_ascii_lowercase s"
  by (simp add: to_ascii_lowercase_def ascii_lower_char_id)

lemma length_to_ascii_lowercase [simp]: "length (to_ascii_lowercase s) = length s"
  by (simp add: to_ascii_lowercase_def)

lemma to_ascii_lowercase_id: "\<forall>c \<in> set s. \<not> is_ascii_upper c \<Longrightarrow> to_ascii_lowercase s = s"
  by (induction s) (auto simp: to_ascii_lowercase_def ascii_lower_char_id)

lemma eq_ignore_ascii_case_refl [simp]: "eq_ignore_ascii_case s s"
  by (simp add: eq_ignore_ascii_case_def)

lemma is_lower_hex_not_upper: "is_lower_hex c \<Longrightarrow> \<not> is_ascii_upper c"
  by (auto simp: char_class_defs)

subsection \<open>Prefixes, suffixes, substrings\<close>

fun strip_prefix :: "'a list \<Rightarrow> 'a list \<Rightarrow> 'a list option" where
  "strip_prefix [] s = Some s"
| "strip_prefix (p # ps) [] = None"
| "strip_prefix (p # ps) (c # s) = (if p = c then strip_prefix ps s else None)"

definition strip_suffix :: "'a list \<Rightarrow> 'a list \<Rightarrow> 'a list option" where
  "strip_suffix p s = map_option rev (strip_prefix (rev p) (rev s))"

definition starts_with :: "'a list \<Rightarrow> 'a list \<Rightarrow> bool" where
  "starts_with s p = (strip_prefix p s \<noteq> None)"

definition ends_with :: "'a list \<Rightarrow> 'a list \<Rightarrow> bool" where
  "ends_with s p = (strip_suffix p s \<noteq> None)"

fun contains_str :: "'a list \<Rightarrow> 'a list \<Rightarrow> bool" where
  "contains_str [] p = (p = [])"
| "contains_str (c # s) p = (starts_with (c # s) p \<or> contains_str s p)"

lemma strip_prefix_Some_iff: "strip_prefix p s = Some r \<longleftrightarrow> s = p @ r"
  by (induction p s rule: strip_prefix.induct) auto

lemma strip_prefix_append [simp]: "strip_prefix p (p @ s) = Some s"
  by (simp add: strip_prefix_Some_iff)

lemma strip_suffix_Some_iff: "strip_suffix p s = Some r \<longleftrightarrow> s = r @ p"
proof -
  have "strip_suffix p s = Some r \<longleftrightarrow> strip_prefix (rev p) (rev s) = Some (rev r)"
    by (auto simp: strip_suffix_def)
  also have "\<dots> \<longleftrightarrow> rev s = rev p @ rev r" by (rule strip_prefix_Some_iff)
  also have "\<dots> \<longleftrightarrow> s = r @ p" by (metis rev_append rev_rev_ident)
  finally show ?thesis .
qed

lemma strip_suffix_append [simp]: "strip_suffix p (s @ p) = Some s"
  by (simp add: strip_suffix_Some_iff)

lemma starts_with_iff: "starts_with s p \<longleftrightarrow> (\<exists>r. s = p @ r)"
  by (auto simp: starts_with_def strip_prefix_Some_iff)

lemma ends_with_iff: "ends_with s p \<longleftrightarrow> (\<exists>r. s = r @ p)"
  by (auto simp: ends_with_def strip_suffix_Some_iff)

lemma contains_str_iff: "contains_str s p \<longleftrightarrow> (\<exists>u v. s = u @ p @ v)"
proof (induction s)
  case Nil
  show ?case by auto
next
  case (Cons c s)
  show ?case
  proof
    assume "contains_str (c # s) p"
    then consider r where "c # s = p @ r" | "contains_str s p"
      by (auto simp: starts_with_iff)
    then show "\<exists>u v. c # s = u @ p @ v"
    proof cases
      case 1
      then show ?thesis by (intro exI [of _ "[]"] exI [of _ r]) simp
    next
      case 2
      then obtain u v where "s = u @ p @ v" using Cons.IH by blast
      then show ?thesis by (intro exI [of _ "c # u"] exI [of _ v]) simp
    qed
  next
    assume "\<exists>u v. c # s = u @ p @ v"
    then obtain u v where eq: "c # s = u @ p @ v" by blast
    show "contains_str (c # s) p"
    proof (cases u)
      case Nil
      with eq have "starts_with (c # s) p" by (auto simp: starts_with_iff)
      then show ?thesis by simp
    next
      case (Cons d u')
      with eq have "s = u' @ p @ v" by simp
      then show ?thesis using Cons.IH by auto
    qed
  qed
qed

subsection \<open>Splitting at a separator\<close>

fun split_once :: "char \<Rightarrow> string \<Rightarrow> (string \<times> string) option" where
  "split_once d [] = None"
| "split_once d (c # s) =
     (if c = d then Some ([], s)
      else map_option (\<lambda>(a, b). (c # a, b)) (split_once d s))"

fun split_on :: "char \<Rightarrow> string \<Rightarrow> string list" where
  "split_on d [] = [[]]"
| "split_on d (c # s) =
     (if c = d then [] # split_on d s
      else (case split_on d s of [] \<Rightarrow> [[c]] | x # xs \<Rightarrow> (c # x) # xs))"

lemma split_once_Some_iff:
  "split_once d s = Some (a, b) \<longleftrightarrow> s = a @ d # b \<and> d \<notin> set a"
proof (induction s arbitrary: a)
  case Nil
  show ?case by simp
next
  case (Cons c s)
  show ?case by (cases a) (auto simp: Cons.IH)
qed

lemma split_once_None_iff: "split_once d s = None \<longleftrightarrow> d \<notin> set s"
  by (induction s) auto

lemma split_once_append [simp]: "d \<notin> set a \<Longrightarrow> split_once d (a @ d # b) = Some (a, b)"
  by (simp add: split_once_Some_iff)

lemma split_on_no_sep: "d \<notin> set s \<Longrightarrow> split_on d s = [s]"
  by (induction s) auto

lemma split_on_not_Nil [simp]: "split_on c s \<noteq> []"
  by (induction s) (auto split: list.splits)

subsection \<open>Trimming\<close>

text \<open>
  \<open>str::trim\<close> drops the code points with the Unicode property \<open>White_Space\<close> from both ends.
  \<open>ws_tokens\<close> lists their UTF-8 encodings; on valid UTF-8 a token found at an end of the byte
  list is a whole code point.
\<close>

definition ws_tokens :: "string list" where
  "ws_tokens = [[CHR 0x09], [CHR 0x0A], [CHR 0x0B], [CHR 0x0C], [CHR 0x0D], [CHR 0x20],
     [CHR 0xC2, CHR 0x85], [CHR 0xC2, CHR 0xA0], [CHR 0xE1, CHR 0x9A, CHR 0x80],
     [CHR 0xE2, CHR 0x80, CHR 0x80], [CHR 0xE2, CHR 0x80, CHR 0x81],
     [CHR 0xE2, CHR 0x80, CHR 0x82], [CHR 0xE2, CHR 0x80, CHR 0x83],
     [CHR 0xE2, CHR 0x80, CHR 0x84], [CHR 0xE2, CHR 0x80, CHR 0x85],
     [CHR 0xE2, CHR 0x80, CHR 0x86], [CHR 0xE2, CHR 0x80, CHR 0x87],
     [CHR 0xE2, CHR 0x80, CHR 0x88], [CHR 0xE2, CHR 0x80, CHR 0x89],
     [CHR 0xE2, CHR 0x80, CHR 0x8A], [CHR 0xE2, CHR 0x80, CHR 0xA8],
     [CHR 0xE2, CHR 0x80, CHR 0xA9], [CHR 0xE2, CHR 0x80, CHR 0xAF],
     [CHR 0xE2, CHR 0x81, CHR 0x9F], [CHR 0xE3, CHR 0x80, CHR 0x80]]"

fun ws_len :: "string list \<Rightarrow> string \<Rightarrow> nat" where
  "ws_len [] s = 0"
| "ws_len (t # ts) s = (if starts_with s t then length t else ws_len ts s)"

lemma ws_len_Nil [simp]: "ws_len ts [] = 0"
  by (induction ts) (auto simp: starts_with_iff)

function trim_tokens :: "string list \<Rightarrow> string \<Rightarrow> string" where
  "trim_tokens ts s = (if ws_len ts s = 0 then s else trim_tokens ts (drop (ws_len ts s) s))"
  by pat_completeness auto
termination
proof (relation "measure (\<lambda>(ts, s). length s)")
  fix ts and s :: string
  assume "ws_len ts s \<noteq> 0"
  then have "s \<noteq> []" by (metis ws_len_Nil)
  with \<open>ws_len ts s \<noteq> 0\<close>
  show "((ts, drop (ws_len ts s) s), ts, s) \<in> measure (\<lambda>(ts, s). length s)"
    by simp
qed simp

declare trim_tokens.simps [simp del]

definition trim_start :: "string \<Rightarrow> string" where
  "trim_start s = trim_tokens ws_tokens s"

definition trim_end :: "string \<Rightarrow> string" where
  "trim_end s = rev (trim_tokens (map rev ws_tokens) (rev s))"

definition trim :: "string \<Rightarrow> string" where
  "trim s = trim_end (trim_start s)"

definition graphic :: "char \<Rightarrow> bool" where
  "graphic = in_range 33 126"

lemma ws_len_graphic:
  assumes "\<forall>t \<in> set ts. t \<noteq> [] \<and> \<not> graphic (hd t)" and "s = [] \<or> graphic (hd s)"
  shows "ws_len ts s = 0"
  using assms(1)
proof (induction ts)
  case Nil
  show ?case by simp
next
  case (Cons t ts)
  then obtain c t' where t: "t = c # t'" and "\<not> graphic c"
    by (cases t) auto
  with assms(2) have "\<not> starts_with s t" by (cases s) (auto simp: starts_with_iff)
  with Cons show ?case by simp
qed

lemma ws_tokens_not_graphic: "\<forall>t \<in> set ws_tokens. t \<noteq> [] \<and> \<not> graphic (hd t)"
  by (simp add: ws_tokens_def graphic_def in_range_def byte_val_def)

lemma ws_tokens_rev_not_graphic: "\<forall>t \<in> set (map rev ws_tokens). t \<noteq> [] \<and> \<not> graphic (hd t)"
  by (simp add: ws_tokens_def graphic_def in_range_def byte_val_def)

lemma trim_graphic:
  assumes "s = [] \<or> graphic (hd s) \<and> graphic (last s)"
  shows "trim s = s"
proof -
  have "trim_start s = s"
    unfolding trim_start_def using assms ws_tokens_not_graphic
    by (subst trim_tokens.simps) (auto simp: ws_len_graphic)
  moreover have "trim_tokens (map rev ws_tokens) (rev s) = rev s"
    using assms ws_tokens_rev_not_graphic
    by (subst trim_tokens.simps) (auto simp: ws_len_graphic hd_rev)
  ultimately show ?thesis by (simp add: trim_def trim_end_def)
qed

lemma trim_all_graphic: "\<forall>c \<in> set s. graphic c \<Longrightarrow> trim s = s"
  by (rule trim_graphic) auto

lemma trim_Nil [simp]: "trim [] = []"
  by (simp add: trim_graphic)

lemma is_lower_hex_graphic: "is_lower_hex c \<Longrightarrow> graphic c"
  by (auto simp: char_class_defs graphic_def)

subsection \<open>UTF-8\<close>

text \<open>
  \<open>utf8_step bs\<close> reads one code point at the head of a non-empty byte list: whether it is well
  formed, and how many bytes belong to it (for an ill-formed one, the maximal prefix of a
  well-formed one, at least one byte, which is what Rust replaces by one \<open>U+FFFD\<close>).
  \<open>utf8_lead\<close> gives, for a leading byte, the range of the second byte and the number of bytes.
\<close>

definition utf8_lead :: "nat \<Rightarrow> (nat \<times> nat \<times> nat) option" where
  "utf8_lead b =
     (if 0xC2 \<le> b \<and> b \<le> 0xDF then Some (0x80, 0xBF, 2)
      else if b = 0xE0 then Some (0xA0, 0xBF, 3)
      else if b = 0xED then Some (0x80, 0x9F, 3)
      else if 0xE1 \<le> b \<and> b \<le> 0xEF then Some (0x80, 0xBF, 3)
      else if b = 0xF0 then Some (0x90, 0xBF, 4)
      else if 0xF1 \<le> b \<and> b \<le> 0xF3 then Some (0x80, 0xBF, 4)
      else if b = 0xF4 then Some (0x80, 0x8F, 4)
      else None)"

definition utf8_step :: "bytes \<Rightarrow> bool \<times> nat" where
  "utf8_step bs = (case bs of [] \<Rightarrow> (False, 1) | b # r \<Rightarrow>
     if byte_val b < 0x80 then (True, 1)
     else (case utf8_lead (byte_val b) of None \<Rightarrow> (False, 1) | Some (lo, hi, n) \<Rightarrow>
       if r = [] \<or> \<not> in_range lo hi (hd r) then (False, 1)
       else let k = length (takeWhile (in_range 0x80 0xBF) (take (n - 2) (tl r))) in
         (k = n - 2, k + 2)))"

lemma utf8_step_pos: "0 < snd (utf8_step bs)"
  by (auto simp: utf8_step_def Let_def split: list.split option.split)

function utf8_valid :: "bytes \<Rightarrow> bool" where
  "utf8_valid bs =
     (if bs = [] then True
      else if fst (utf8_step bs) then utf8_valid (drop (snd (utf8_step bs)) bs) else False)"
  by pat_completeness auto
termination by (relation "measure length") (auto simp: utf8_step_pos intro!: diff_less)

declare utf8_valid.simps [simp del]

definition replacement_char :: string where
  "replacement_char = [CHR 0xEF, CHR 0xBF, CHR 0xBD]"

text \<open>\<open>String::from_utf8_lossy\<close> and \<open>OsStr::to_string_lossy\<close>.\<close>

function from_utf8_lossy :: "bytes \<Rightarrow> string" where
  "from_utf8_lossy bs =
     (if bs = [] then []
      else (if fst (utf8_step bs) then take (snd (utf8_step bs)) bs else replacement_char)
        @ from_utf8_lossy (drop (snd (utf8_step bs)) bs))"
  by pat_completeness auto
termination by (relation "measure length") (auto simp: utf8_step_pos intro!: diff_less)

declare from_utf8_lossy.simps [simp del]

lemma from_utf8_lossy_valid: "utf8_valid bs \<Longrightarrow> from_utf8_lossy bs = bs"
proof (induction bs rule: utf8_valid.induct)
  case (1 bs)
  show ?case
  proof (cases "bs = []")
    case False
    with "1.prems" have step: "fst (utf8_step bs)" "utf8_valid (drop (snd (utf8_step bs)) bs)"
      by (simp_all add: utf8_valid.simps [of bs] split: if_splits)
    with "1.IH" False show ?thesis by (simp add: from_utf8_lossy.simps [of bs])
  qed (simp add: from_utf8_lossy.simps)
qed

definition is_ascii :: "string \<Rightarrow> bool" where
  "is_ascii s = list_all (\<lambda>c. byte_val c < 0x80) s"

lemma ascii_utf8_valid: "is_ascii s \<Longrightarrow> utf8_valid s"
proof (induction s)
  case (Cons c s)
  then have "utf8_step (c # s) = (True, 1)" by (simp add: is_ascii_def utf8_step_def)
  with Cons show ?case by (simp add: utf8_valid.simps [of "c # s"] is_ascii_def)
qed (simp add: utf8_valid.simps)

lemma from_utf8_lossy_ascii: "is_ascii s \<Longrightarrow> from_utf8_lossy s = s"
  by (simp add: from_utf8_lossy_valid ascii_utf8_valid)

section \<open>Printing and parsing numbers\<close>

definition digit_char :: "nat \<Rightarrow> char" where
  "digit_char d = char_of (48 + d)"

definition hex_char :: "nat \<Rightarrow> char" where
  "hex_char d = char_of (if d < 10 then 48 + d else 87 + d)"

fun show_nat :: "nat \<Rightarrow> string" where
  "show_nat n = (if n < 10 then [digit_char n] else show_nat (n div 10) @ [digit_char (n mod 10)])"

declare show_nat.simps [simp del]

definition show_int :: "int \<Rightarrow> string" where
  "show_int i = (if i < 0 then CHR ''-'' # show_nat (nat (- i)) else show_nat (nat i))"

fun show_hex :: "nat \<Rightarrow> string" where
  "show_hex n = (if n < 16 then [hex_char n] else show_hex (n div 16) @ [hex_char (n mod 16)])"

declare show_hex.simps [simp del]

definition show_bool :: "bool \<Rightarrow> string" where
  "show_bool b = (if b then ''true'' else ''false'')"

definition hex_bytes :: "bytes \<Rightarrow> string" where
  "hex_bytes bs = concat (map (\<lambda>c. [hex_char (byte_val c div 16), hex_char (byte_val c mod 16)]) bs)"

definition digits_value :: "string \<Rightarrow> nat" where
  "digits_value ds = foldl (\<lambda>n c. 10 * n + (byte_val c - 48)) 0 ds"

text \<open>
  \<open>str::parse\<close> for an unsigned integer of \<open>b\<close> bits: one optional leading \<open>+\<close>, then at least one
  digit and nothing else, and the value must fit.
\<close>

definition parse_uint :: "nat \<Rightarrow> string \<Rightarrow> nat option" where
  "parse_uint b s =
     (let ds = (case s of [] \<Rightarrow> [] | c # r \<Rightarrow> if c = CHR ''+'' then r else s)
      in if ds = [] \<or> \<not> list_all is_ascii_digit ds then None
         else if digits_value ds < 2 ^ b then Some (digits_value ds) else None)"

lemma byte_val_digit_char: "d < 10 \<Longrightarrow> byte_val (digit_char d) = 48 + d"
  by (simp add: digit_char_def byte_val_char_of)

lemma is_ascii_digit_digit_char: "d < 10 \<Longrightarrow> is_ascii_digit (digit_char d)"
  by (simp add: is_ascii_digit_def in_range_def byte_val_digit_char)

lemma is_lower_hex_hex_char: "d < 16 \<Longrightarrow> is_lower_hex (hex_char d)"
  by (simp add: char_class_defs hex_char_def byte_val_char_of)

lemma length_hex_bytes [simp]: "length (hex_bytes bs) = 2 * length bs"
  by (induction bs) (simp_all add: hex_bytes_def)

lemma byte_val_div_16: "byte_val c div 16 < 16"
  by (rule less_mult_imp_div_less) simp

lemma hex_bytes_lower_hex: "c \<in> set (hex_bytes bs) \<Longrightarrow> is_lower_hex c"
  by (auto simp: hex_bytes_def intro!: is_lower_hex_hex_char byte_val_div_16)

lemma show_nat_not_Nil [simp]: "show_nat n \<noteq> []"
  by (subst show_nat.simps) simp

lemma show_nat_digits: "c \<in> set (show_nat n) \<Longrightarrow> is_ascii_digit c"
proof (induction n rule: show_nat.induct)
  case (1 n)
  from "1.prems" show ?case
    by (subst (asm) show_nat.simps)
       (auto split: if_splits intro: is_ascii_digit_digit_char "1.IH")
qed

lemma digits_value_snoc: "digits_value (ds @ [c]) = 10 * digits_value ds + (byte_val c - 48)"
  by (simp add: digits_value_def)

lemma digits_value_show_nat: "digits_value (show_nat n) = n"
proof (induction n rule: show_nat.induct)
  case (1 n)
  show ?case
  proof (cases "n < 10")
    case True
    then show ?thesis by (subst show_nat.simps) (simp add: digits_value_def byte_val_digit_char)
  next
    case False
    with "1.IH" show ?thesis
      by (subst show_nat.simps) (simp add: digits_value_snoc byte_val_digit_char)
  qed
qed

lemma parse_show_nat:
  assumes "n < 2 ^ b"
  shows "parse_uint b (show_nat n) = Some n"
proof -
  have "\<not> is_ascii_digit (CHR ''+'')"
    by (simp add: is_ascii_digit_def in_range_def byte_val_def)
  then have "(case show_nat n of [] \<Rightarrow> [] | c # r \<Rightarrow> if c = CHR ''+'' then r else show_nat n) = show_nat n"
    using show_nat_digits [of _ n] by (cases "show_nat n") auto
  then show ?thesis
    using assms show_nat_digits [of _ n]
    by (simp add: parse_uint_def digits_value_show_nat list_all_iff)
qed

lemma parse_uint_bound: "parse_uint b s = Some n \<Longrightarrow> n < 2 ^ b"
  by (auto simp: parse_uint_def Let_def split: if_splits)

section \<open>Machine integers\<close>

text \<open>\<open>from_le_bytes\<close>, and the 64-bit operations on values kept as \<open>nat\<close> below \<open>2 ^ 64\<close>.\<close>

fun le_nat :: "bytes \<Rightarrow> nat" where
  "le_nat [] = 0"
| "le_nat (b # bs) = byte_val b + 256 * le_nat bs"

lemma le_nat_bound: "le_nat bs < 256 ^ length bs"
proof (induction bs)
  case Nil
  show ?case by simp
next
  case (Cons b bs)
  then have "le_nat bs + 1 \<le> 256 ^ length bs" by simp
  then have "256 * le_nat bs + 256 \<le> 256 * 256 ^ length bs" by linarith
  then show ?case using byte_val_less [of b]
    by (simp only: le_nat.simps length_Cons power_Suc)
qed

fun le_bytes :: "nat \<Rightarrow> nat \<Rightarrow> bytes" where
  "le_bytes 0 n = []"
| "le_bytes (Suc k) n = char_of (n mod 256) # le_bytes k (n div 256)"

lemma length_le_bytes [simp]: "length (le_bytes k n) = k"
  by (induction k arbitrary: n) auto

lemma le_nat_le_bytes: "le_nat (le_bytes k n) = n mod 256 ^ k"
proof (induction k arbitrary: n)
  case 0
  show ?case by simp
next
  case (Suc k)
  have "n mod 256 ^ Suc k = n mod 256 + 256 * (n div 256 mod 256 ^ k)"
    by (simp add: mod_mult2_eq)
  then show ?case by (simp add: Suc.IH byte_val_def)
qed

definition u64_max :: nat where "u64_max = 2 ^ 64 - 1"

definition u64_add :: "nat \<Rightarrow> nat \<Rightarrow> nat" where
  "u64_add a b = (a + b) mod 2 ^ 64"

definition sat_add :: "nat \<Rightarrow> nat \<Rightarrow> nat" where
  "sat_add a b = min u64_max (a + b)"

definition sat_mul :: "nat \<Rightarrow> nat \<Rightarrow> nat" where
  "sat_mul a b = min u64_max (a * b)"

definition checked_add :: "nat \<Rightarrow> nat \<Rightarrow> nat option" where
  "checked_add a b = (if a + b < 2 ^ 64 then Some (a + b) else None)"

definition checked_mul :: "nat \<Rightarrow> nat \<Rightarrow> nat option" where
  "checked_mul a b = (if a * b < 2 ^ 64 then Some (a * b) else None)"

lemma u64_add_exact [simp]: "a + b < 2 ^ 64 \<Longrightarrow> u64_add a b = a + b"
  by (simp add: u64_add_def)

end
