(* ===== verification/Host_FS.thy ===== *)
theory Host_FS
  imports Prelude
begin

text \<open>
  The operating system as the code sees it through \<^verbatim>\<open>std::fs\<close>: paths, directory entries, inodes,
  and the calls the code makes.  Everything here is standard library and kernel behaviour, so
  nothing of this theory maps to source lines.

  A path is the list of its components from the root; \<open>join\<close> is \<^verbatim>\<open>PathBuf::join\<close> followed by the
  walk of \<open>.\<close> and \<open>..\<close>, so a hostile segment can leave the directory it is joined to.  An entry
  is a directory, a link to an inode (several entries may share one: hard links) or a symbolic
  link; symbolic links are followed on the last component, up to the kernel's limit of 40.
  The table of entries is a list, and \<open>read_dir\<close> yields entries in its order, about which no
  theorem assumes anything.  \<open>fault\<close> says which calls the kernel refuses for a reason outside this
  state (permissions, a full disk, an I/O error); it is fixed during one operation of the code
  and arbitrary between two.
\<close>

section \<open>Errors, entries, the host\<close>

datatype io_kind = K_NotFound | K_PermissionDenied | K_AlreadyExists | K_NotADirectory
  | K_IsADirectory | K_InvalidInput | K_UnexpectedEof | K_InvalidData | K_FilesystemLoop | K_Other

datatype io_error = Io_Error (io_kind: io_kind) (io_text: string)

definition e_not_found :: io_error where
  "e_not_found = Io_Error K_NotFound ''No such file or directory (os error 2)''"
definition e_exists :: io_error where
  "e_exists = Io_Error K_AlreadyExists ''File exists (os error 17)''"
definition e_not_dir :: io_error where
  "e_not_dir = Io_Error K_NotADirectory ''Not a directory (os error 20)''"
definition e_is_dir :: io_error where
  "e_is_dir = Io_Error K_IsADirectory ''Is a directory (os error 21)''"
definition e_loop :: io_error where
  "e_loop = Io_Error K_FilesystemLoop ''Too many levels of symbolic links (os error 40)''"
definition e_nul :: io_error where
  "e_nul = Io_Error K_InvalidInput ''file name contained an unexpected NUL byte''"

type_synonym path = "string list"

datatype sysop = Op_mkdir | Op_create | Op_open | Op_read | Op_write | Op_unlink | Op_rename
  | Op_readdir | Op_stat | Op_link | Op_symlink | Op_realpath

record fdata =
  content :: bytes
  mtime :: nat

datatype node = Dir | File nat | Symlink path

text \<open>
  \<open>stage_counter\<close> and \<open>pid\<close> are the process-wide static and the process id that name staging
  files; \<open>dir_size\<close> is the length the file system reports for a directory.
\<close>

record host =
  ents :: "(path \<times> node) list"
  inodes :: "(nat \<times> fdata) list"
  next_ino :: nat
  now :: nat
  stage_counter :: nat
  pid :: nat
  dir_size :: nat
  fault :: "sysop \<Rightarrow> path \<Rightarrow> io_error option"

section \<open>Paths\<close>

definition path_comps :: "string \<Rightarrow> string list" where
  "path_comps s = filter (\<lambda>c. c \<noteq> [] \<and> c \<noteq> ''.'') (split_on (CHR ''/'') s)"

fun walk :: "path \<Rightarrow> string list \<Rightarrow> path" where
  "walk p [] = p"
| "walk p (c # cs) = walk (if c = ''..'' then butlast p else p @ [c]) cs"

definition join :: "path \<Rightarrow> string \<Rightarrow> path" where
  "join p s = walk (if starts_with s ''/'' then [] else p) (path_comps s)"

text \<open>A string that is one path segment: what \<open>join\<close> appends as it stands.\<close>

definition is_segment :: "string \<Rightarrow> bool" where
  "is_segment s = (s \<noteq> [] \<and> s \<noteq> ''.'' \<and> s \<noteq> ''..'' \<and> CHR ''/'' \<notin> set s)"

lemma starts_with_slash: "starts_with s ''/'' \<longleftrightarrow> s \<noteq> [] \<and> hd s = CHR ''/''"
  by (cases s) (auto simp: starts_with_iff)

lemma join_segment [path_simps]: "is_segment s \<Longrightarrow> join p s = p @ [s]"
  by (cases s) (auto simp: join_def is_segment_def path_comps_def split_on_no_sep starts_with_slash)

lemma join_no_slash:
  assumes "CHR ''/'' \<notin> set s"
  shows "join p s = (if s = [] \<or> s = ''.'' then p else if s = ''..'' then butlast p else p @ [s])"
  using assms
  by (cases s) (auto simp: join_def path_comps_def split_on_no_sep starts_with_slash)

section \<open>Entries and links\<close>

definition lookup :: "host \<Rightarrow> path \<Rightarrow> node option" where
  "lookup h p = (if p = [] then Some Dir else map_of (ents h) p)"

fun follow :: "nat \<Rightarrow> host \<Rightarrow> path \<Rightarrow> path option" where
  "follow 0 h p = None"
| "follow (Suc n) h p = (case lookup h p of Some (Symlink t) \<Rightarrow> follow n h t | _ \<Rightarrow> Some p)"

definition resolve_path :: "host \<Rightarrow> path \<Rightarrow> path option" where
  "resolve_path h p = follow 40 h p"

definition stat :: "host \<Rightarrow> path \<Rightarrow> node option" where
  "stat h p = Option.bind (resolve_path h p) (lookup h)"

definition inode :: "host \<Rightarrow> nat \<Rightarrow> fdata" where
  "inode h i = (case map_of (inodes h) i of Some f \<Rightarrow> f | None \<Rightarrow> \<lparr>content = [], mtime = 0\<rparr>)"

text \<open>A NUL in a path is refused by the standard library before the kernel is asked.\<close>

definition refuse :: "host \<Rightarrow> sysop \<Rightarrow> path \<Rightarrow> io_error option" where
  "refuse h op p = (if \<exists>c \<in> set p. CHR 0x00 \<in> set c then Some e_nul else fault h op p)"

definition is_file :: "host \<Rightarrow> path \<Rightarrow> bool" where
  "is_file h p = (refuse h Op_stat p = None \<and> (case stat h p of Some (File _) \<Rightarrow> True | _ \<Rightarrow> False))"

definition is_dir :: "host \<Rightarrow> path \<Rightarrow> bool" where
  "is_dir h p = (refuse h Op_stat p = None \<and> stat h p = Some Dir)"

definition path_exists :: "host \<Rightarrow> path \<Rightarrow> bool" where
  "path_exists h p = (refuse h Op_stat p = None \<and> stat h p \<noteq> None)"

definition put_ent :: "path \<Rightarrow> node \<Rightarrow> host \<Rightarrow> host" where
  "put_ent p nd h = h\<lparr>ents := AList.update p nd (ents h)\<rparr>"

definition del_ent :: "path \<Rightarrow> host \<Rightarrow> host" where
  "del_ent p h = h\<lparr>ents := AList.delete p (ents h)\<rparr>"

definition put_inode :: "nat \<Rightarrow> fdata \<Rightarrow> host \<Rightarrow> host" where
  "put_inode i f h = h\<lparr>inodes := AList.update i f (inodes h)\<rparr>"

definition file_size :: "host \<Rightarrow> nat \<Rightarrow> nat" where
  "file_size h i = length (content (inode h i)) mod 2 ^ 64"

section \<open>Calls\<close>

type_synonym 'a io = "host \<Rightarrow> (io_error + 'a) \<times> host"

text \<open>
  A call that makes an entry needs a directory to put it in; a directory is reached by its own
  path, never through a symbolic link to it.
\<close>

definition parent_problem :: "host \<Rightarrow> path \<Rightarrow> io_error option" where
  "parent_problem h p = (case lookup h (butlast p) of
     Some Dir \<Rightarrow> None | Some _ \<Rightarrow> Some e_not_dir | None \<Rightarrow> Some e_not_found)"

definition mkdir :: "path \<Rightarrow> unit io" where
  "mkdir p h = (case refuse h Op_mkdir p of Some e \<Rightarrow> (Err e, h) | None \<Rightarrow>
     if lookup h p \<noteq> None then (Err e_exists, h)
     else (case parent_problem h p of Some e \<Rightarrow> (Err e, h) | None \<Rightarrow> (Ok (), put_ent p Dir h)))"

function create_dir_all :: "path \<Rightarrow> unit io" where
  "create_dir_all p h =
     (if p = [] then (Ok (), h) else
      (case mkdir p h of
         (Inr u, h1) \<Rightarrow> (Ok (), h1)
       | (Inl e, h1) \<Rightarrow>
           if io_kind e = K_NotFound then
             (case create_dir_all (butlast p) h1 of
                (Inl e2, h2) \<Rightarrow> (Err e2, h2)
              | (Inr u, h2) \<Rightarrow>
                  (case mkdir p h2 of
                     (Inr u, h3) \<Rightarrow> (Ok (), h3)
                   | (Inl e3, h3) \<Rightarrow> if is_dir h3 p then (Ok (), h3) else (Err e3, h3)))
           else if is_dir h1 p then (Ok (), h1) else (Err e, h1)))"
  by pat_completeness auto
termination
  by (relation "measure (\<lambda>(p, h). length p)") auto

declare create_dir_all.simps [simp del]

text \<open>\<open>File::create\<close>: makes or truncates a file and yields its inode.\<close>

definition create_file :: "path \<Rightarrow> nat io" where
  "create_file p h = (case refuse h Op_create p of Some e \<Rightarrow> (Err e, h) | None \<Rightarrow>
     (case resolve_path h p of None \<Rightarrow> (Err e_loop, h) | Some q \<Rightarrow>
       (case lookup h q of
          Some (File i) \<Rightarrow> (Ok i, put_inode i \<lparr>content = [], mtime = now h\<rparr> h)
        | Some _ \<Rightarrow> (Err e_is_dir, h)
        | None \<Rightarrow> (case parent_problem h q of Some e \<Rightarrow> (Err e, h) | None \<Rightarrow>
            (Ok (next_ino h),
             put_inode (next_ino h) \<lparr>content = [], mtime = now h\<rparr>
               (put_ent q (File (next_ino h)) (h\<lparr>next_ino := Suc (next_ino h)\<rparr>)))))))"

text \<open>
  \<open>write_all\<close> on the open file with inode \<open>i\<close>, opened at \<open>p\<close>, whose position is the end of what it
  wrote so far.  A refused write leaves the file as it was.
\<close>

definition write_all :: "path \<Rightarrow> nat \<Rightarrow> bytes \<Rightarrow> unit io" where
  "write_all p i bs h = (case refuse h Op_write p of Some e \<Rightarrow> (Err e, h) | None \<Rightarrow>
     (Ok (), put_inode i \<lparr>content = content (inode h i) @ bs, mtime = now h\<rparr> h))"

text \<open>\<open>File::open\<close> for reading; opening a directory succeeds, reading it does not.\<close>

definition open_file :: "host \<Rightarrow> path \<Rightarrow> io_error + node" where
  "open_file h p = (case refuse h Op_open p of Some e \<Rightarrow> Err e | None \<Rightarrow>
     (case stat h p of None \<Rightarrow> Err e_not_found | Some nd \<Rightarrow> Ok nd))"

definition read_node :: "host \<Rightarrow> path \<Rightarrow> node \<Rightarrow> io_error + bytes" where
  "read_node h p nd = (case refuse h Op_read p of Some e \<Rightarrow> Err e | None \<Rightarrow>
     (case nd of File i \<Rightarrow> Ok (content (inode h i)) | _ \<Rightarrow> Err e_is_dir))"

definition read_file :: "host \<Rightarrow> path \<Rightarrow> io_error + bytes" where
  "read_file h p = (case open_file h p of Inl e \<Rightarrow> Err e | Inr nd \<Rightarrow> read_node h p nd)"

text \<open>\<open>read_to_string\<close> refuses bytes that are not UTF-8.\<close>

definition e_not_utf8 :: io_error where
  "e_not_utf8 = Io_Error K_InvalidData ''stream did not contain valid UTF-8''"

definition read_to_string :: "host \<Rightarrow> path \<Rightarrow> io_error + string" where
  "read_to_string h p = (case read_file h p of
     Inl e \<Rightarrow> Err e | Inr bs \<Rightarrow> if utf8_valid bs then Ok bs else Err e_not_utf8)"

definition remove_file :: "path \<Rightarrow> unit io" where
  "remove_file p h = (case refuse h Op_unlink p of Some e \<Rightarrow> (Err e, h) | None \<Rightarrow>
     (case lookup h p of None \<Rightarrow> (Err e_not_found, h) | Some Dir \<Rightarrow> (Err e_is_dir, h)
      | Some _ \<Rightarrow> (Ok (), del_ent p h)))"

text \<open>
  \<open>rename\<close> of a file or symbolic link (the code renames staged regular files only).  When both
  names are links to one inode, the call succeeds and does nothing.
\<close>

definition rename :: "path \<Rightarrow> path \<Rightarrow> unit io" where
  "rename a b h = (case refuse h Op_rename b of Some e \<Rightarrow> (Err e, h) | None \<Rightarrow>
     (case lookup h a of None \<Rightarrow> (Err e_not_found, h) | Some Dir \<Rightarrow> (Err e_is_dir, h)
      | Some nd \<Rightarrow>
        (case parent_problem h b of Some e \<Rightarrow> (Err e, h) | None \<Rightarrow>
          if lookup h b = Some Dir then (Err e_is_dir, h)
          else if lookup h b = Some nd \<and> (case nd of File i \<Rightarrow> True | _ \<Rightarrow> False) then (Ok (), h)
          else (Ok (), put_ent b nd (del_ent a h)))))"

definition hard_link :: "path \<Rightarrow> path \<Rightarrow> unit io" where
  "hard_link a b h = (case refuse h Op_link b of Some e \<Rightarrow> (Err e, h) | None \<Rightarrow>
     (case lookup h a of None \<Rightarrow> (Err e_not_found, h)
      | Some Dir \<Rightarrow> (Err (Io_Error K_PermissionDenied ''Operation not permitted (os error 1)''), h)
      | Some nd \<Rightarrow>
        if lookup h b \<noteq> None then (Err e_exists, h)
        else (case parent_problem h b of Some e \<Rightarrow> (Err e, h) | None \<Rightarrow> (Ok (), put_ent b nd h))))"

definition e_not_regular :: io_error where
  "e_not_regular = Io_Error K_InvalidInput ''the source path is neither a regular file nor a symlink to a regular file''"

text \<open>
  \<open>fs::copy\<close> opens the source, makes or truncates the destination, and only then reads: a source that
  is the same file is empty by then.
\<close>

definition copy_file :: "path \<Rightarrow> path \<Rightarrow> nat io" where
  "copy_file a b h = (case open_file h a of
       Inl e \<Rightarrow> (Err e, h)
     | Inr (File j) \<Rightarrow>
         (case create_file b h of (Inl e, h1) \<Rightarrow> (Err e, h1) | (Inr i, h1) \<Rightarrow>
           (case read_node h1 a (File j) of Inl e \<Rightarrow> (Err e, h1) | Inr bs \<Rightarrow>
             (case write_all b i bs h1 of (Inl e, h2) \<Rightarrow> (Err e, h2) | (Inr u, h2) \<Rightarrow> (Ok (length bs), h2))))
     | Inr _ \<Rightarrow> (Err e_not_regular, h))"

definition make_symlink :: "path \<Rightarrow> path \<Rightarrow> unit io" where
  "make_symlink t p h = (case refuse h Op_symlink p of Some e \<Rightarrow> (Err e, h) | None \<Rightarrow>
     if lookup h p \<noteq> None then (Err e_exists, h)
     else (case parent_problem h p of Some e \<Rightarrow> (Err e, h) | None \<Rightarrow> (Ok (), put_ent p (Symlink t) h)))"

definition canonicalize :: "host \<Rightarrow> path \<Rightarrow> io_error + path" where
  "canonicalize h p = (case refuse h Op_realpath p of Some e \<Rightarrow> Err e | None \<Rightarrow>
     (case resolve_path h p of None \<Rightarrow> Err e_loop | Some q \<Rightarrow>
       if lookup h q = None then Err e_not_found else Ok q))"

text \<open>\<open>fs::metadata\<close> follows symbolic links, \<open>DirEntry::metadata\<close> does not.\<close>

record metadata =
  m_node :: node
  m_len :: nat
  m_modified :: nat

definition node_metadata :: "host \<Rightarrow> node \<Rightarrow> metadata" where
  "node_metadata h nd = (case nd of
     File i \<Rightarrow> \<lparr>m_node = nd, m_len = file_size h i, m_modified = mtime (inode h i)\<rparr>
   | _ \<Rightarrow> \<lparr>m_node = nd, m_len = dir_size h, m_modified = 0\<rparr>)"

definition fs_metadata :: "host \<Rightarrow> path \<Rightarrow> io_error + metadata" where
  "fs_metadata h p = (case refuse h Op_stat p of Some e \<Rightarrow> Err e | None \<Rightarrow>
     (case stat h p of None \<Rightarrow> Err e_not_found | Some nd \<Rightarrow> Ok (node_metadata h nd)))"

definition entry_metadata :: "host \<Rightarrow> path \<Rightarrow> io_error + metadata" where
  "entry_metadata h p = (case refuse h Op_stat p of Some e \<Rightarrow> Err e | None \<Rightarrow>
     (case lookup h p of None \<Rightarrow> Err e_not_found | Some nd \<Rightarrow> Ok (node_metadata h nd)))"

definition children :: "host \<Rightarrow> path \<Rightarrow> (string \<times> node) list" where
  "children h d = map (\<lambda>(q, nd). (last q, nd)) (filter (\<lambda>(q, nd). q \<noteq> [] \<and> butlast q = d) (ents h))"

definition read_dir :: "host \<Rightarrow> path \<Rightarrow> io_error + (string \<times> node) list" where
  "read_dir h p = (case refuse h Op_readdir p of Some e \<Rightarrow> Err e | None \<Rightarrow>
     (case stat h p of None \<Rightarrow> Err e_not_found
      | Some Dir \<Rightarrow> Ok (children h (the (resolve_path h p)))
      | Some _ \<Rightarrow> Err e_not_dir))"

section \<open>Facts about the primitives\<close>

subsection \<open>Lookups after an update\<close>

lemma lookup_root [simp]: "lookup h [] = Some Dir"
  by (simp add: lookup_def)

lemma lookup_put_ent [fs_simps]:
  "lookup (put_ent p nd h) q = (if q = p \<and> p \<noteq> [] then Some nd else lookup h q)"
  by (simp add: lookup_def put_ent_def update_conv')

lemma lookup_del_ent [fs_simps]:
  "lookup (del_ent p h) q = (if q = p \<and> p \<noteq> [] then None else lookup h q)"
  by (simp add: lookup_def del_ent_def delete_conv')

lemma lookup_put_inode [fs_simps]: "lookup (put_inode i f h) q = lookup h q"
  by (simp add: lookup_def put_inode_def)

lemma lookup_host_update [fs_simps]:
  "lookup (h\<lparr>next_ino := n\<rparr>) q = lookup h q"
  "lookup (h\<lparr>stage_counter := n\<rparr>) q = lookup h q"
  "lookup (h\<lparr>now := n\<rparr>) q = lookup h q"
  "lookup (h\<lparr>fault := f\<rparr>) q = lookup h q"
  by (simp_all add: lookup_def)

lemma inode_put_inode [fs_simps]: "inode (put_inode i f h) j = (if j = i then f else inode h j)"
  by (simp add: inode_def put_inode_def update_conv')

lemma inode_put_ent [fs_simps]: "inode (put_ent p nd h) j = inode h j"
  by (simp add: inode_def put_ent_def)

lemma inode_del_ent [fs_simps]: "inode (del_ent p h) j = inode h j"
  by (simp add: inode_def del_ent_def)

lemma inode_host_update [fs_simps]:
  "inode (h\<lparr>next_ino := n\<rparr>) j = inode h j"
  "inode (h\<lparr>stage_counter := n\<rparr>) j = inode h j"
  "inode (h\<lparr>now := n\<rparr>) j = inode h j"
  "inode (h\<lparr>fault := f\<rparr>) j = inode h j"
  by (simp_all add: inode_def)

lemma fault_frame [fs_simps]:
  "fault (put_ent p nd h) = fault h" "fault (del_ent p h) = fault h"
  "fault (put_inode i f h) = fault h"
  by (simp_all add: put_ent_def del_ent_def put_inode_def)

lemma next_ino_frame [fs_simps]:
  "next_ino (put_ent p nd h) = next_ino h" "next_ino (del_ent p h) = next_ino h"
  "next_ino (put_inode i f h) = next_ino h"
  by (simp_all add: put_ent_def del_ent_def put_inode_def)

lemma process_frame [fs_simps]:
  "now (put_ent p nd h) = now h" "now (del_ent p h) = now h" "now (put_inode i f h) = now h"
  "stage_counter (put_ent p nd h) = stage_counter h" "stage_counter (del_ent p h) = stage_counter h"
  "stage_counter (put_inode i f h) = stage_counter h"
  "pid (put_ent p nd h) = pid h" "pid (del_ent p h) = pid h" "pid (put_inode i f h) = pid h"
  by (simp_all add: put_ent_def del_ent_def put_inode_def)

lemma refuse_cong: "fault h' = fault h \<Longrightarrow> refuse h' op p = refuse h op p"
  by (simp add: refuse_def)

subsection \<open>Following links\<close>

text \<open>A path that is not a symbolic link resolves to itself.\<close>

definition plain :: "host \<Rightarrow> path \<Rightarrow> bool" where
  "plain h p = (\<forall>t. lookup h p \<noteq> Some (Symlink t))"

lemma follow_plain: "plain h p \<Longrightarrow> follow (Suc n) h p = Some p"
  by (auto simp: plain_def split: option.splits node.splits)

lemma resolve_plain: "plain h p \<Longrightarrow> resolve_path h p = Some p"
  unfolding resolve_path_def using follow_plain [of h p 39] by (simp add: numeral_eq_Suc)

lemma stat_plain: "plain h p \<Longrightarrow> stat h p = lookup h p"
  by (simp add: stat_def resolve_plain)

lemma plainI:
  "lookup h p = Some (File i) \<Longrightarrow> plain h p" "lookup h p = Some Dir \<Longrightarrow> plain h p"
  "lookup h p = None \<Longrightarrow> plain h p"
  by (simp_all add: plain_def)

lemma stat_lookup [fs_simps]:
  "lookup h p = Some (File i) \<Longrightarrow> stat h p = Some (File i)"
  "lookup h p = Some Dir \<Longrightarrow> stat h p = Some Dir"
  "lookup h p = None \<Longrightarrow> stat h p = None"
  by (simp_all add: stat_plain plainI)

lemma stat_root [simp]: "stat h [] = Some Dir"
  by (simp add: fs_simps)

lemma follow_not_symlink: "follow n h p = Some q \<Longrightarrow> plain h q"
  by (induction n arbitrary: p) (auto simp: plain_def split: option.splits node.splits)

lemma resolve_not_symlink: "resolve_path h p = Some q \<Longrightarrow> plain h q"
  by (simp add: resolve_path_def follow_not_symlink)

lemma follow_cong:
  "follow n h p = Some q \<Longrightarrow> (\<And>x t. lookup h x = Some (Symlink t) \<Longrightarrow> lookup h' x = Some (Symlink t)) \<Longrightarrow>
   plain h' q \<Longrightarrow> n > 0 \<Longrightarrow> follow n h' p = Some q"
proof (induction n arbitrary: p)
  case 0
  then show ?case by simp
next
  case (Suc n)
  show ?case
  proof (cases "\<exists>t. lookup h p = Some (Symlink t)")
    case True
    then obtain t where t: "lookup h p = Some (Symlink t)" by blast
    with Suc.prems(1) have "follow n h t = Some q" by simp
    then have "n > 0" by (cases n) auto
    with t Suc show ?thesis by simp
  next
    case False
    with Suc.prems(1) have "q = p" by (auto split: option.splits node.splits)
    with Suc.prems(3) show ?thesis by (simp add: follow_plain del: follow.simps)
  qed
qed

subsection \<open>What is at a path\<close>

text \<open>The contents a read of the path finds, through hard and symbolic links.\<close>

definition contents :: "host \<Rightarrow> path \<Rightarrow> bytes option" where
  "contents h p = (case stat h p of Some (File i) \<Rightarrow> Some (content (inode h i)) | _ \<Rightarrow> None)"

lemma contents_File [fs_simps]:
  "lookup h p = Some (File i) \<Longrightarrow> contents h p = Some (content (inode h i))"
  by (simp add: contents_def fs_simps)

lemma contents_None [fs_simps]: "lookup h p = None \<Longrightarrow> contents h p = None"
  by (simp add: contents_def fs_simps)

lemma is_file_contents: "is_file h p \<longleftrightarrow> refuse h Op_stat p = None \<and> contents h p \<noteq> None"
  by (auto simp: is_file_def contents_def split: option.splits node.splits)

text \<open>A read that is not refused finds the contents.\<close>

lemma read_file_Ok: "read_file h p = Inr bs \<Longrightarrow> contents h p = Some bs"
  by (auto simp: read_file_def open_file_def read_node_def contents_def
      split: option.splits node.splits sum.splits)

text \<open>A kernel that refuses nothing, for the properties that say an operation succeeds.\<close>

definition fault_free :: "host \<Rightarrow> bool" where
  "fault_free h = (\<forall>op p. fault h op p = None)"

definition nul_free :: "path \<Rightarrow> bool" where
  "nul_free p = (\<forall>c \<in> set p. CHR 0x00 \<notin> set c)"

lemma refuse_fault_free: "fault_free h \<Longrightarrow> nul_free p \<Longrightarrow> refuse h op p = None"
  by (auto simp: refuse_def fault_free_def nul_free_def)

lemma fault_free_frame [fs_simps]:
  "fault_free (put_ent p nd h) = fault_free h" "fault_free (del_ent p h) = fault_free h"
  "fault_free (put_inode i f h) = fault_free h" "fault_free (h\<lparr>next_ino := n\<rparr>) = fault_free h"
  "fault_free (h\<lparr>stage_counter := n\<rparr>) = fault_free h"
  by (simp_all add: fault_free_def fs_simps)

lemma read_file_fault_free:
  assumes "fault_free h" and "nul_free p"
  shows "contents h p = Some bs \<Longrightarrow> read_file h p = Inr bs"
  using assms
  by (auto simp: read_file_def open_file_def read_node_def contents_def refuse_fault_free
      split: option.splits node.splits)

section \<open>Well-formed file systems\<close>

definition path_ok :: "path \<Rightarrow> bool" where
  "path_ok p = list_all is_segment p"

definition node_ok :: "host \<Rightarrow> node \<Rightarrow> bool" where
  "node_ok h nd = (case nd of Dir \<Rightarrow> True | File i \<Rightarrow> i < next_ino h | Symlink t \<Rightarrow> path_ok t \<and> nul_free t)"

text \<open>
  Entries have distinct paths made of segments, lie in directories, and name inodes that have
  been handed out.
\<close>

definition fs_ok :: "host \<Rightarrow> bool" where
  "fs_ok h = (distinct (map fst (ents h)) \<and>
     (\<forall>(p, nd) \<in> set (ents h). p \<noteq> [] \<and> path_ok p \<and> nul_free p \<and>
        lookup h (butlast p) = Some Dir \<and> node_ok h nd))"

lemma lookup_in_ents: "p \<noteq> [] \<Longrightarrow> lookup h p = Some nd \<Longrightarrow> (p, nd) \<in> set (ents h)"
  by (simp add: lookup_def map_of_SomeD)

lemma in_ents_lookup: "fs_ok h \<Longrightarrow> (p, nd) \<in> set (ents h) \<Longrightarrow> lookup h p = Some nd \<and> p \<noteq> []"
  by (auto simp: fs_ok_def lookup_def)

lemma fs_ok_lookupD:
  assumes "fs_ok h" and "lookup h p = Some nd" and "p \<noteq> []"
  shows "path_ok p" and "nul_free p" and "lookup h (butlast p) = Some Dir" and "node_ok h nd"
  using assms lookup_in_ents [OF assms(3,2)] by (auto simp: fs_ok_def)

lemma fs_okI:
  assumes "distinct (map fst (ents h))" and "[] \<notin> fst ` set (ents h)"
    and "\<And>p nd. p \<noteq> [] \<Longrightarrow> lookup h p = Some nd \<Longrightarrow>
      path_ok p \<and> nul_free p \<and> lookup h (butlast p) = Some Dir \<and> node_ok h nd"
  shows "fs_ok h"
  unfolding fs_ok_def
proof (intro conjI ballI)
  fix e assume e: "e \<in> set (ents h)"
  obtain p nd where pn: "e = (p, nd)" by (cases e)
  with e assms(2) have "p \<noteq> []" by force
  moreover from e pn assms(1) have "lookup h p = Some nd"
    using \<open>p \<noteq> []\<close> by (simp add: lookup_def)
  ultimately show "case e of (p, nd) \<Rightarrow> p \<noteq> [] \<and> path_ok p \<and> nul_free p \<and>
      lookup h (butlast p) = Some Dir \<and> node_ok h nd"
    using assms(3) pn by blast
qed (rule assms(1))

lemma fs_ok_distinct: "fs_ok h \<Longrightarrow> distinct (map fst (ents h))"
  by (simp add: fs_ok_def)

lemma fs_ok_no_root: "fs_ok h \<Longrightarrow> [] \<notin> fst ` set (ents h)"
  by (auto simp: fs_ok_def)

lemma butlast_neq: "p \<noteq> [] \<Longrightarrow> butlast p \<noteq> p"
  by (metis append_butlast_last_id append_self_conv not_Cons_self2)

lemma node_ok_frame [fs_simps]:
  "node_ok (put_ent p nd h) x = node_ok h x" "node_ok (del_ent p h) x = node_ok h x"
  "node_ok (put_inode i f h) x = node_ok h x"
  by (simp_all add: node_ok_def fs_simps split: node.split)

lemma fs_ok_put_ent:
  assumes ok: "fs_ok h" and p: "p \<noteq> []" "path_ok p" "nul_free p"
    and parent: "lookup h (butlast p) = Some Dir"
    and nd: "node_ok h nd" and keep: "lookup h p = Some Dir \<Longrightarrow> nd = Dir"
  shows "fs_ok (put_ent p nd h)"
proof (rule fs_okI)
  show "distinct (map fst (ents (put_ent p nd h)))"
    using fs_ok_distinct [OF ok] by (simp add: put_ent_def distinct_update)
  show "[] \<notin> fst ` set (ents (put_ent p nd h))"
    using fs_ok_no_root [OF ok] p(1) by (simp add: put_ent_def dom_update)
next
  fix q nd' assume q: "q \<noteq> []" "lookup (put_ent p nd h) q = Some nd'"
  show "path_ok q \<and> nul_free q \<and> lookup (put_ent p nd h) (butlast q) = Some Dir
      \<and> node_ok (put_ent p nd h) nd'"
  proof (cases "q = p")
    case True
    with q p parent nd butlast_neq [OF p(1)] show ?thesis by (auto simp: fs_simps)
  next
    case False
    with q(2) have "lookup h q = Some nd'" by (simp add: fs_simps)
    note fs_ok_lookupD [OF ok this q(1)]
    then show ?thesis using keep by (auto simp: fs_simps)
  qed
qed

lemma fs_ok_del_ent:
  assumes ok: "fs_ok h" and not_dir: "lookup h p \<noteq> Some Dir"
  shows "fs_ok (del_ent p h)"
proof (rule fs_okI)
  show "distinct (map fst (ents (del_ent p h)))"
    using fs_ok_distinct [OF ok] by (simp add: del_ent_def distinct_delete)
  show "[] \<notin> fst ` set (ents (del_ent p h))"
    using fs_ok_no_root [OF ok] by (auto simp: del_ent_def AList.delete_eq)
next
  fix q nd assume q: "q \<noteq> []" "lookup (del_ent p h) q = Some nd"
  then have "lookup h q = Some nd" by (simp add: fs_simps split: if_splits)
  note D = fs_ok_lookupD [OF ok this q(1)]
  from D(3) not_dir have "butlast q \<noteq> p" by auto
  with D show "path_ok q \<and> nul_free q \<and> lookup (del_ent p h) (butlast q) = Some Dir
      \<and> node_ok (del_ent p h) nd"
    by (auto simp: fs_simps node_ok_def split: node.split)
qed

lemma fs_ok_mono:
  assumes "fs_ok h" and "ents h' = ents h" and "next_ino h \<le> next_ino h'"
  shows "fs_ok h'"
proof -
  have "lookup h' q = lookup h q" for q using assms(2) by (simp add: lookup_def)
  then show ?thesis
    using assms by (auto simp: fs_ok_def node_ok_def split: node.splits)
qed

lemma fs_ok_put_inode [simp]: "fs_ok (put_inode i f h) = fs_ok h"
proof -
  have "ents (put_inode i f h) = ents h" "next_ino (put_inode i f h) = next_ino h"
    by (simp_all add: put_inode_def)
  then show ?thesis using fs_ok_mono [of h "put_inode i f h"] fs_ok_mono [of "put_inode i f h" h]
    by auto
qed

subsection \<open>Joined paths are well formed\<close>

lemma path_ok_append [simp]: "path_ok (p @ q) \<longleftrightarrow> path_ok p \<and> path_ok q"
  by (simp add: path_ok_def)

lemma path_ok_Nil [simp]: "path_ok []"
  by (simp add: path_ok_def)

lemma path_ok_single [simp]: "path_ok [s] \<longleftrightarrow> is_segment s"
  by (simp add: path_ok_def)

lemma path_ok_butlast: "path_ok p \<Longrightarrow> path_ok (butlast p)"
  by (auto simp: path_ok_def list_all_iff in_set_butlastD)

lemma split_on_not_in: "x \<in> set (split_on d s) \<Longrightarrow> d \<notin> set x"
  by (induction s arbitrary: x) (auto split: if_splits list.splits)

lemma walk_path_ok:
  "path_ok p \<Longrightarrow> \<forall>c \<in> set cs. c \<noteq> [] \<and> c \<noteq> ''.'' \<and> CHR ''/'' \<notin> set c \<Longrightarrow> path_ok (walk p cs)"
  by (induction p cs rule: walk.induct) (auto simp: path_ok_butlast is_segment_def)

lemma path_ok_join: "path_ok p \<Longrightarrow> path_ok (join p s)"
  unfolding join_def by (rule walk_path_ok) (auto simp: path_comps_def dest: split_on_not_in)

lemma nul_free_append [simp]: "nul_free (p @ q) \<longleftrightarrow> nul_free p \<and> nul_free q"
  by (auto simp: nul_free_def)

lemma nul_free_simps [simp]: "nul_free []" "nul_free (c # p) \<longleftrightarrow> CHR 0x00 \<notin> set c \<and> nul_free p"
  by (auto simp: nul_free_def)

lemma refuse_nul: "refuse h op p = None \<Longrightarrow> nul_free p"
  by (auto simp: refuse_def nul_free_def split: if_splits)

section \<open>Facts about the calls\<close>

text \<open>
  \<open>same_files h h'\<close>: the inodes and the process state are untouched; \<open>adds_dirs p\<close>: moreover
  the only new entries are directories on the way to \<open>p\<close>.
\<close>

definition same_files :: "host \<Rightarrow> host \<Rightarrow> bool" where
  "same_files h h' = (inodes h' = inodes h \<and> next_ino h' = next_ino h \<and> fault h' = fault h
     \<and> now h' = now h \<and> stage_counter h' = stage_counter h \<and> pid h' = pid h)"

definition adds_dirs :: "path \<Rightarrow> host \<Rightarrow> host \<Rightarrow> bool" where
  "adds_dirs p h h' = (same_files h h' \<and>
     (\<forall>q. lookup h' q = lookup h q \<or>
          lookup h q = None \<and> lookup h' q = Some Dir \<and> prefix q p))"

lemma same_files_refl [simp]: "same_files h h"
  by (simp add: same_files_def)

lemma same_files_inode: "same_files h h' \<Longrightarrow> inode h' i = inode h i"
  by (simp add: same_files_def inode_def)

lemma same_files_refuse: "same_files h h' \<Longrightarrow> refuse h' op p = refuse h op p"
  by (simp add: same_files_def refuse_def)

lemma same_files_put_ent [simp]: "same_files h (put_ent p nd h)"
  by (simp add: same_files_def put_ent_def)

lemma same_files_del_ent [simp]: "same_files h (del_ent p h)"
  by (simp add: same_files_def del_ent_def)

lemma same_files_trans: "same_files a b \<Longrightarrow> same_files b c \<Longrightarrow> same_files a c"
  by (simp add: same_files_def)

lemma same_files_fault_free: "same_files h h' \<Longrightarrow> fault_free h' = fault_free h"
  by (simp add: same_files_def fault_free_def)

lemma adds_dirs_refl [simp]: "adds_dirs p h h"
  by (simp add: adds_dirs_def)

lemma adds_dirs_trans:
  "adds_dirs p h h1 \<Longrightarrow> adds_dirs p h1 h2 \<Longrightarrow> adds_dirs p h h2"
  unfolding adds_dirs_def same_files_def by (metis option.discI)

lemma adds_dirs_mono: "adds_dirs q h h' \<Longrightarrow> prefix q p \<Longrightarrow> adds_dirs p h h'"
  unfolding adds_dirs_def by (meson prefix_order.trans)

lemma adds_dirs_lookup:
  "adds_dirs p h h' \<Longrightarrow> lookup h q = Some nd \<Longrightarrow> lookup h' q = Some nd"
  unfolding adds_dirs_def by (metis option.discI)

lemma adds_dirs_not_prefix:
  "adds_dirs p h h' \<Longrightarrow> \<not> prefix q p \<Longrightarrow> lookup h' q = lookup h q"
  unfolding adds_dirs_def by metis

lemma adds_dirs_plain: "adds_dirs p h h' \<Longrightarrow> plain h' q = plain h q"
  unfolding adds_dirs_def plain_def by (metis node.distinct(3) option.discI option.inject)

subsection \<open>Directories\<close>

lemma mkdir_Ok:
  "mkdir p h = (Inr u, h') \<Longrightarrow> h' = put_ent p Dir h \<and> lookup h p = None \<and> p \<noteq> [] \<and>
     lookup h (butlast p) = Some Dir \<and> nul_free p"
  by (auto simp: mkdir_def parent_problem_def dest: refuse_nul
      split: option.splits if_splits node.splits)

lemma mkdir_Err: "mkdir p h = (Inl e, h') \<Longrightarrow> h' = h"
  by (auto simp: mkdir_def split: option.splits if_splits)

lemma mkdir_adds_dirs: "mkdir p h = (r, h') \<Longrightarrow> adds_dirs p h h'"
  by (cases r) (auto dest!: mkdir_Ok mkdir_Err simp: adds_dirs_def fs_simps split: if_splits)

lemma mkdir_fs_ok: "mkdir p h = (r, h') \<Longrightarrow> fs_ok h \<Longrightarrow> path_ok p \<Longrightarrow> fs_ok h'"
  by (cases r) (auto dest!: mkdir_Ok mkdir_Err intro!: fs_ok_put_ent simp: node_ok_def)

lemma is_dir_stat: "is_dir h p \<Longrightarrow> stat h p = Some Dir"
  by (simp add: is_dir_def)

lemma create_dir_all_adds_dirs:
  "create_dir_all p h = (r, h') \<Longrightarrow> adds_dirs p h h'"
proof (induction p h arbitrary: r h' rule: create_dir_all.induct)
  case (1 p h)
  show ?case
  proof (cases "p = []")
    case True
    with "1.prems" show ?thesis by (subst (asm) create_dir_all.simps) auto
  next
    case False
    obtain r1 h1 where m: "mkdir p h = (r1, h1)" by fastforce
    note m_dirs = mkdir_adds_dirs [OF m]
    show ?thesis
    proof (cases "\<exists>e. r1 = Inl e \<and> io_kind e = K_NotFound")
      case nf: True
      then obtain e where e: "r1 = Inl e" "io_kind e = K_NotFound" by blast
      obtain r2 h2 where c: "create_dir_all (butlast p) h1 = (r2, h2)" by fastforce
      have "adds_dirs (butlast p) h1 h2"
        using "1.IH" [OF False m [symmetric] e(1) e(2) c] e by simp
      then have "adds_dirs p h h2"
        using m_dirs adds_dirs_mono adds_dirs_trans prefixeq_butlast by blast
      moreover obtain r3 h3 where m3: "mkdir p h2 = (r3, h3)" by fastforce
      moreover have "h' = h2 \<or> h' = h3"
        using "1.prems" m c m3 e False
        by (subst (asm) create_dir_all.simps) (auto split: sum.splits if_splits)
      ultimately show ?thesis
        using mkdir_adds_dirs [OF m3] adds_dirs_trans by blast
    next
      case False
      with "1.prems" m m_dirs \<open>p \<noteq> []\<close> show ?thesis
        by (subst (asm) create_dir_all.simps) (auto split: sum.splits if_splits)
    qed
  qed
qed

lemma create_dir_all_Ok:
  assumes "create_dir_all p h = (Inr u, h')"
  shows "stat h' p = Some Dir"
proof (cases "p = []")
  case True
  then show ?thesis by simp
next
  case False
  with assms show ?thesis
    by (subst (asm) create_dir_all.simps)
       (auto split: sum.splits if_splits prod.splits dest!: mkdir_Ok is_dir_stat simp: fs_simps)
qed

lemma create_dir_all_fs_ok:
  "create_dir_all p h = (r, h') \<Longrightarrow> fs_ok h \<Longrightarrow> path_ok p \<Longrightarrow> fs_ok h'"
proof (induction p h arbitrary: r h' rule: create_dir_all.induct)
  case (1 p h)
  show ?case
  proof (cases "p = []")
    case True
    with "1.prems" show ?thesis by (subst (asm) create_dir_all.simps) auto
  next
    case False
    obtain r1 h1 where m: "mkdir p h = (r1, h1)" by fastforce
    then have ok1: "fs_ok h1" using "1.prems" mkdir_fs_ok by blast
    show ?thesis
    proof (cases "\<exists>e. r1 = Inl e \<and> io_kind e = K_NotFound")
      case True
      then obtain e where e: "r1 = Inl e" "io_kind e = K_NotFound" by blast
      obtain r2 h2 where c: "create_dir_all (butlast p) h1 = (r2, h2)" by fastforce
      have "fs_ok h2"
        using "1.IH" [OF False m [symmetric] e(1) e(2) c ok1] "1.prems"(3) path_ok_butlast by blast
      moreover obtain r3 h3 where m3: "mkdir p h2 = (r3, h3)" by fastforce
      moreover have "h' = h2 \<or> h' = h3"
        using "1.prems"(1) m c m3 e \<open>p \<noteq> []\<close>
        by (subst (asm) create_dir_all.simps) (auto split: sum.splits if_splits)
      ultimately show ?thesis using mkdir_fs_ok "1.prems"(3) by blast
    next
      case False
      with "1.prems"(1) m ok1 \<open>p \<noteq> []\<close> show ?thesis
        by (subst (asm) create_dir_all.simps) (auto split: sum.splits if_splits)
    qed
  qed
qed

subsection \<open>Files\<close>

text \<open>Making a file at a path that is no symbolic link.\<close>

lemma create_file_Ok:
  assumes "create_file p h = (Inr i, h')" and "plain h p"
  shows "p \<noteq> [] \<and> nul_free p \<and>
    (lookup h p = Some (File i) \<and> h' = put_inode i \<lparr>content = [], mtime = now h\<rparr> h \<or>
     lookup h p = None \<and> i = next_ino h \<and> lookup h (butlast p) = Some Dir \<and>
     h' = put_inode i \<lparr>content = [], mtime = now h\<rparr>
       (put_ent p (File i) (h\<lparr>next_ino := Suc (next_ino h)\<rparr>)))"
  using assms
  by (auto simp: create_file_def resolve_plain parent_problem_def dest: refuse_nul
      split: option.splits node.splits)

lemma create_file_Err: "create_file p h = (Inl e, h') \<Longrightarrow> h' = h"
  by (auto simp: create_file_def split: option.splits node.splits)

lemma create_file_lookup:
  assumes "create_file p h = (Inr i, h')" and "plain h p"
  shows "lookup h' p = Some (File i)" and "q \<noteq> p \<Longrightarrow> lookup h' q = lookup h q"
    and "content (inode h' i) = []" and "j \<noteq> i \<Longrightarrow> inode h' j = inode h j"
    and "fault h' = fault h" and "now h' = now h"
  using create_file_Ok [OF assms] by (auto simp: fs_simps)

lemma create_file_plain: "create_file p h = (r, h') \<Longrightarrow> plain h p \<Longrightarrow> plain h' q = plain h q"
proof (cases r)
  case (Inl e)
  assume "create_file p h = (r, h')" "plain h p"
  with Inl show ?thesis by (auto dest!: create_file_Err)
next
  case (Inr i)
  assume "create_file p h = (r, h')" "plain h p"
  with Inr show ?thesis using create_file_lookup(1,2) [of p h i h']
    by (cases "q = p") (auto simp: plain_def)
qed

lemma fs_ok_next_ino: "fs_ok h \<Longrightarrow> fs_ok (h\<lparr>next_ino := Suc (next_ino h)\<rparr>)"
  by (rule fs_ok_mono) auto

lemma follow_path_ok:
  "fs_ok h \<Longrightarrow> path_ok p \<Longrightarrow> nul_free p \<Longrightarrow> follow n h p = Some q \<Longrightarrow> path_ok q \<and> nul_free q"
proof (induction n arbitrary: p)
  case 0
  then show ?case by simp
next
  case (Suc n)
  show ?case
  proof (cases "\<exists>t. lookup h p = Some (Symlink t)")
    case True
    then obtain t where t: "lookup h p = Some (Symlink t)" by blast
    then have "p \<noteq> []" by auto
    from fs_ok_lookupD(4) [OF Suc.prems(1) t this] have "path_ok t" "nul_free t"
      by (simp_all add: node_ok_def)
    with Suc t show ?thesis by simp
  next
    case False
    with Suc.prems show ?thesis by (auto split: option.splits node.splits)
  qed
qed

lemma create_file_fs_ok:
  assumes c: "create_file p h = (r, h')" and ok: "fs_ok h" and p: "path_ok p"
  shows "fs_ok h'"
proof (cases "refuse h Op_create p")
  case (Some e)
  with c ok show ?thesis by (simp add: create_file_def)
next
  case None
  then have nul: "nul_free p" by (rule refuse_nul)
  show ?thesis
  proof (cases "resolve_path h p")
    case None
    with c ok \<open>refuse h Op_create p = None\<close> show ?thesis by (simp add: create_file_def)
  next
    case (Some q)
    from follow_path_ok [OF ok p nul] Some have q: "path_ok q" "nul_free q"
      by (simp_all add: resolve_path_def)
    let ?h1 = "h\<lparr>next_ino := Suc (next_ino h)\<rparr>"
    have "fs_ok (put_ent q (File (next_ino h)) ?h1)"
      if "lookup h q = None" "lookup h (butlast q) = Some Dir"
      using that q fs_ok_next_ino [OF ok]
      by (intro fs_ok_put_ent) (auto simp: fs_simps node_ok_def)
    with c ok Some None show ?thesis
      by (auto simp: create_file_def parent_problem_def split: option.splits node.splits)
  qed
qed

lemma write_all_Ok:
  "write_all p i bs h = (Inr u, h') \<Longrightarrow>
   h' = put_inode i \<lparr>content = content (inode h i) @ bs, mtime = now h\<rparr> h"
  by (auto simp: write_all_def split: option.splits)

lemma write_all_Err: "write_all p i bs h = (Inl e, h') \<Longrightarrow> h' = h"
  by (auto simp: write_all_def split: option.splits)

lemma write_all_fs_ok: "write_all p i bs h = (r, h') \<Longrightarrow> fs_ok h \<Longrightarrow> fs_ok h'"
  by (cases r) (auto dest!: write_all_Ok write_all_Err)

lemma remove_file_Ok:
  "remove_file p h = (Inr u, h') \<Longrightarrow>
   h' = del_ent p h \<and> p \<noteq> [] \<and> lookup h p \<noteq> None \<and> lookup h p \<noteq> Some Dir"
  by (auto simp: remove_file_def split: option.splits node.splits)

lemma remove_file_Err: "remove_file p h = (Inl e, h') \<Longrightarrow> h' = h"
  by (auto simp: remove_file_def split: option.splits node.splits)

lemma remove_file_same_files: "remove_file p h = (r, h') \<Longrightarrow> same_files h h'"
  by (cases r) (auto dest!: remove_file_Ok remove_file_Err)

lemma remove_file_lookup:
  "remove_file p h = (r, h') \<Longrightarrow> lookup h' q = (if q = p \<and> is_ok r then None else lookup h q)"
  by (cases r) (auto dest!: remove_file_Ok remove_file_Err simp: fs_simps)

lemma remove_file_fs_ok: "remove_file p h = (r, h') \<Longrightarrow> fs_ok h \<Longrightarrow> fs_ok h'"
  by (cases r) (auto dest!: remove_file_Ok remove_file_Err intro!: fs_ok_del_ent)

lemma rename_Ok:
  "rename a b h = (Inr u, h') \<Longrightarrow> \<exists>nd. lookup h a = Some nd \<and> nd \<noteq> Dir \<and> a \<noteq> [] \<and> b \<noteq> [] \<and> nul_free b \<and>
     lookup h (butlast b) = Some Dir \<and> lookup h b \<noteq> Some Dir \<and>
     (h' = put_ent b nd (del_ent a h) \<or> (\<exists>i. nd = File i \<and> lookup h b = Some nd \<and> h' = h))"
  by (auto simp: rename_def parent_problem_def dest: refuse_nul
      split: option.splits node.splits if_splits)

lemma rename_Err: "rename a b h = (Inl e, h') \<Longrightarrow> h' = h"
  by (auto simp: rename_def split: option.splits node.splits if_splits)

lemma rename_same_files: "rename a b h = (r, h') \<Longrightarrow> same_files h h'"
  by (cases r) (auto dest!: rename_Ok rename_Err intro: same_files_trans [of _ "del_ent a h"])

lemma rename_fs_ok:
  assumes r: "rename a b h = (r, h')" and ok: "fs_ok h" and b: "path_ok b"
  shows "fs_ok h'"
proof (cases r)
  case (Inl e)
  with r ok show ?thesis by (auto dest!: rename_Err)
next
  case (Inr u)
  with r obtain nd where nd: "lookup h a = Some nd" "nd \<noteq> Dir" "a \<noteq> []" "b \<noteq> []" "nul_free b"
      "lookup h (butlast b) = Some Dir" "lookup h b \<noteq> Some Dir"
      "h' = put_ent b nd (del_ent a h) \<or> h' = h"
    by (auto dest!: rename_Ok)
  have "fs_ok (del_ent a h)" using nd ok by (intro fs_ok_del_ent) auto
  moreover have "node_ok h nd" using fs_ok_lookupD(4) [OF ok nd(1,3)] .
  moreover have "butlast b \<noteq> a" using nd by auto
  ultimately have "fs_ok (put_ent b nd (del_ent a h))"
    using nd b by (intro fs_ok_put_ent) (auto simp: fs_simps split: if_splits)
  with nd(8) ok show ?thesis by auto
qed

lemma hard_link_Ok:
  "hard_link a b h = (Inr u, h') \<Longrightarrow> \<exists>nd. lookup h a = Some nd \<and> nd \<noteq> Dir \<and> lookup h b = None \<and>
     b \<noteq> [] \<and> nul_free b \<and> lookup h (butlast b) = Some Dir \<and> h' = put_ent b nd h"
  by (auto simp: hard_link_def parent_problem_def dest: refuse_nul
      split: option.splits node.splits if_splits)

lemma hard_link_Err: "hard_link a b h = (Inl e, h') \<Longrightarrow> h' = h"
  by (auto simp: hard_link_def split: option.splits node.splits if_splits)

lemma hard_link_fs_ok:
  assumes "hard_link a b h = (r, h')" and ok: "fs_ok h" and "path_ok b"
  shows "fs_ok h'"
proof (cases r)
  case (Inl e)
  with assms show ?thesis by (auto dest!: hard_link_Err)
next
  case (Inr u)
  with assms(1) obtain nd where nd: "lookup h a = Some nd" "nd \<noteq> Dir" "lookup h b = None"
      "b \<noteq> []" "nul_free b" "lookup h (butlast b) = Some Dir" "h' = put_ent b nd h"
    by (auto dest!: hard_link_Ok)
  then have "a \<noteq> []" by auto
  from fs_ok_lookupD(4) [OF ok nd(1) this] nd assms(3) ok show ?thesis
    by (auto intro!: fs_ok_put_ent)
qed

lemma make_symlink_Ok:
  "make_symlink t p h = (Inr u, h') \<Longrightarrow> lookup h p = None \<and> p \<noteq> [] \<and> nul_free p \<and>
     lookup h (butlast p) = Some Dir \<and> h' = put_ent p (Symlink t) h"
  by (auto simp: make_symlink_def parent_problem_def dest: refuse_nul
      split: option.splits node.splits if_splits)

lemma make_symlink_Err: "make_symlink t p h = (Inl e, h') \<Longrightarrow> h' = h"
  by (auto simp: make_symlink_def split: option.splits if_splits)

lemma make_symlink_fs_ok:
  "make_symlink t p h = (r, h') \<Longrightarrow> fs_ok h \<Longrightarrow> path_ok p \<Longrightarrow> path_ok t \<Longrightarrow> nul_free t \<Longrightarrow> fs_ok h'"
  by (cases r) (auto dest!: make_symlink_Ok make_symlink_Err intro!: fs_ok_put_ent simp: node_ok_def)

subsection \<open>Directory listings\<close>

lemma children_iff:
  assumes "fs_ok h"
  shows "(n, nd) \<in> set (children h d) \<longleftrightarrow> lookup h (d @ [n]) = Some nd"
proof
  assume "(n, nd) \<in> set (children h d)"
  then obtain q where q: "(q, nd) \<in> set (ents h)" "q \<noteq> []" "butlast q = d" "last q = n"
    by (auto simp: children_def)
  then have "q = d @ [n]" by (metis append_butlast_last_id)
  with q in_ents_lookup [OF assms q(1)] show "lookup h (d @ [n]) = Some nd" by simp
next
  assume "lookup h (d @ [n]) = Some nd"
  then have "(d @ [n], nd) \<in> set (ents h)" by (simp add: lookup_in_ents)
  then show "(n, nd) \<in> set (children h d)" by (force simp: children_def)
qed

lemma children_distinct:
  assumes "fs_ok h"
  shows "distinct (map fst (children h d))"
proof -
  let ?xs = "filter (\<lambda>(q, nd). q \<noteq> [] \<and> butlast q = d) (ents h)"
  have eq: "map fst (children h d) = map last (map fst ?xs)"
    by (simp add: children_def comp_def case_prod_beta)
  have "distinct (map fst ?xs)"
    using fs_ok_distinct [OF assms] by (simp add: distinct_map_filter)
  moreover have "inj_on last (set (map fst ?xs))"
    by (rule inj_onI) (force simp: intro: append_butlast_last_id [symmetric] dest: append_butlast_last_id)
  ultimately show ?thesis unfolding eq by (simp only: distinct_map)
qed

lemma read_dir_Ok:
  assumes "read_dir h p = Inr xs"
  shows "stat h p = Some Dir" and "plain h p \<Longrightarrow> xs = children h p"
  using assms by (auto simp: read_dir_def resolve_plain split: option.splits node.splits)

lemma children_segment:
  assumes "fs_ok h" and "(n, nd) \<in> set (children h d)"
  shows "is_segment n \<and> CHR 0x00 \<notin> set n"
proof -
  from assms have "lookup h (d @ [n]) = Some nd" by (simp add: children_iff)
  from fs_ok_lookupD(1,2) [OF assms(1) this] show ?thesis by simp
qed

section \<open>A host for the witnesses\<close>

text \<open>A host with the given entries and inodes whose kernel refuses nothing.\<close>

definition plain_host :: "(path \<times> node) list \<Rightarrow> (nat \<times> fdata) list \<Rightarrow> host" where
  "plain_host es fs = \<lparr>ents = es, inodes = fs, next_ino = fold (\<lambda>(i, f) n. max (Suc i) n) fs 0,
     now = 0, stage_counter = 0, pid = 7, dir_size = 4096, fault = (\<lambda>op p. None)\<rparr>"

lemma fault_free_plain_host [simp]: "fault_free (plain_host es fs)"
  by (simp add: fault_free_def plain_host_def)

end
