(* ===== verification/Core_Errors.thy ===== *)
theory Core_Errors
  imports Host_FS
begin

text \<open>
  The error type of \<^verbatim>\<open>modeld-core\<close> (\<^verbatim>\<open>error.rs\<close>): one constructor per variant, with its payload, and
  the text its \<open>Display\<close> derive prints.
\<close>

datatype modeld_error =
    Io io_error
  | DigestMismatch string string \<comment> \<open>expected, computed\<close>
  | InvalidFormat string
  | SecurityRejection string
  | NotFound string
  | QuotaExceeded nat nat
  | Syscall string
  | Config string

type_synonym 'a res = "modeld_error + 'a"
type_synonym 'a act = "host \<Rightarrow> (modeld_error + 'a) \<times> host"

fun show_error :: "modeld_error \<Rightarrow> string" where
  "show_error (Io e) = ''Filesystem I/O failure: '' @ io_text e"
| "show_error (DigestMismatch x c) =
     ''Cryptographic digest mismatch: expected '' @ x @ '', computed '' @ c"
| "show_error (InvalidFormat m) = ''Invalid model format header: '' @ m"
| "show_error (SecurityRejection m) = ''Insecure model format rejected by policy: '' @ m"
| "show_error (NotFound m) = ''Model not found: '' @ m"
| "show_error (QuotaExceeded r f) =
     ''Storage quota exceeded: required '' @ show_nat r @ '' bytes, free '' @ show_nat f @ '' bytes''"
| "show_error (Syscall m) = ''Kernel syscall error: '' @ m"
| "show_error (Config m) = ''Configuration error: '' @ m"

text \<open>
  The \<open>{:?}\<close> form of a string, which one message quotes: exact on ASCII; code points beyond ASCII
  are printed as they are, also the unprintable ones that Rust would escape.
\<close>

definition debug_char :: "char \<Rightarrow> string" where
  "debug_char c =
     (let n = byte_val c in
      if n = 34 \<or> n = 92 then [CHR 0x5C, c]
      else if n = 10 then [CHR 0x5C, CHR ''n'']
      else if n = 13 then [CHR 0x5C, CHR ''r'']
      else if n = 9 then [CHR 0x5C, CHR ''t'']
      else if n = 0 then [CHR 0x5C, CHR ''0'']
      else if n < 32 \<or> n = 127 then CHR 0x5C # ''u{'' @ show_hex n @ ''}''
      else [c])"

definition debug_str :: "string \<Rightarrow> string" where
  "debug_str s = CHR 0x22 # concat (map debug_char s) @ [CHR 0x22]"

text \<open>The \<open>?\<close> operator on an I/O call inside a function that returns \<open>ModeldError\<close>.\<close>

definition io_res :: "io_error + 'a \<Rightarrow> 'a res" where
  "io_res = map_err Io"

lemma io_res_simps [simp]: "io_res (Inr a) = Inr a" "io_res (Inl e) = Inl (Io e)"
  by (simp_all add: io_res_def)

end
