(* ===== verification/Digest.thy ===== *)
theory Digest
  imports Core_Errors
begin

text \<open>
  SHA-256 streaming and the digest format (\<^verbatim>\<open>cas/digest.rs\<close>, \<^verbatim>\<open>cas/digest_format.rs\<close>).  The hash
  itself is the \<^verbatim>\<open>sha2\<close> crate: the record \<open>hasher\<close> is a parameter of every definition that hashes,
  and \<open>sha256_contract\<close> is what the crate documents and the code relies on: hashing a stream in
  pieces gives the hash of the whole, and the hash has 32 bytes.
\<close>

section \<open>The digest format\<close>

definition DIGEST_LEN :: nat where "DIGEST_LEN = 64"

definition is_digest_format :: "string \<Rightarrow> bool" where
  "is_digest_format digest = (length digest = DIGEST_LEN \<and> list_all is_lower_hex digest)"

definition validate_digest_format :: "string \<Rightarrow> unit res" where
  "validate_digest_format digest =
     (if is_digest_format digest then Ok ()
      else Err (InvalidFormat (''digest must be exactly '' @ show_nat DIGEST_LEN
             @ '' lowercase hex characters, got '' @ debug_str digest)))"

lemma validate_digest_format_Ok [simp]:
  "validate_digest_format d = Inr u \<longleftrightarrow> is_digest_format d"
  by (simp add: validate_digest_format_def)

lemma digest_format_chars: "is_digest_format d \<Longrightarrow> c \<in> set d \<Longrightarrow> is_lower_hex c"
  by (simp add: is_digest_format_def list_all_iff)

lemma digest_format_not_Nil: "is_digest_format d \<Longrightarrow> d \<noteq> []"
  by (auto simp: is_digest_format_def DIGEST_LEN_def)

lemma digest_format_trim: "is_digest_format d \<Longrightarrow> trim d = d"
  by (rule trim_all_graphic) (auto intro: is_lower_hex_graphic digest_format_chars)

lemma lower_hex_not_special:
  "is_lower_hex c \<Longrightarrow> c \<noteq> CHR ''/'' \<and> c \<noteq> CHR ''.'' \<and> c \<noteq> CHR 0x00 \<and> c \<noteq> CHR '':''"
  by (auto simp: char_class_defs byte_val_def)

lemma digest_format_segment: "is_digest_format d \<Longrightarrow> is_segment d"
  using digest_format_not_Nil [of d] digest_format_chars [of d] lower_hex_not_special
  by (cases d) (auto simp: is_segment_def)

lemma digest_format_no_nul: "is_digest_format d \<Longrightarrow> CHR 0x00 \<notin> set d"
  using digest_format_chars lower_hex_not_special by blast

lemma digest_format_lower: "is_digest_format d \<Longrightarrow> to_ascii_lowercase d = d"
  using digest_format_chars is_lower_hex_not_upper by (blast intro: to_ascii_lowercase_id)

section \<open>Streams\<close>

text \<open>
  A reader is the list of what its \<open>read\<close> calls return: a chunk, or an error.  The end of the
  list, and an empty chunk, is \<open>Ok(0)\<close>, which ends the stream.
\<close>

datatype read_event = Chunk bytes | Read_Error io_error

fun stream_bytes :: "read_event list \<Rightarrow> bytes" where
  "stream_bytes [] = []"
| "stream_bytes (Read_Error e # rs) = []"
| "stream_bytes (Chunk b # rs) = (if b = [] then [] else b @ stream_bytes rs)"

fun stream_error :: "read_event list \<Rightarrow> io_error option" where
  "stream_error [] = None"
| "stream_error (Read_Error e # rs) = Some e"
| "stream_error (Chunk b # rs) = (if b = [] then None else stream_error rs)"

section \<open>Hashing\<close>

record 'h hasher =
  sha_new :: 'h
  sha_update :: "'h \<Rightarrow> bytes \<Rightarrow> 'h"
  sha_finalize :: "'h \<Rightarrow> bytes"

definition sha256 :: "'h hasher \<Rightarrow> bytes \<Rightarrow> bytes" where
  "sha256 H bs = sha_finalize H (sha_update H (sha_new H) bs)"

definition sha256_contract :: "'h hasher \<Rightarrow> bool" where
  "sha256_contract H =
     ((\<forall>chunks. sha_finalize H (foldl (sha_update H) (sha_new H) chunks) = sha256 H (concat chunks)) \<and>
      (\<forall>bs. length (sha256 H bs) = 32))"

definition hex_digest :: "'h hasher \<Rightarrow> bytes \<Rightarrow> string" where
  "hex_digest H bs = hex_bytes (sha256 H bs)"

lemma hex_digest_format: "sha256_contract H \<Longrightarrow> is_digest_format (hex_digest H bs)"
  by (auto simp: is_digest_format_def hex_digest_def sha256_contract_def DIGEST_LEN_def
      list_all_iff hex_bytes_lower_hex)

text \<open>The read loop of \<open>compute_stream_digest\<close>.\<close>

fun hash_stream :: "'h hasher \<Rightarrow> 'h \<Rightarrow> read_event list \<Rightarrow> 'h res" where
  "hash_stream H s [] = Ok s"
| "hash_stream H s (Read_Error e # rs) = Err (Io e)"
| "hash_stream H s (Chunk b # rs) = (if b = [] then Ok s else hash_stream H (sha_update H s b) rs)"

definition compute_stream_digest :: "'h hasher \<Rightarrow> read_event list \<Rightarrow> string res" where
  "compute_stream_digest H reader =
     (case hash_stream H (sha_new H) reader of
        Inl e \<Rightarrow> Err e
      | Inr s \<Rightarrow> Ok (hex_bytes (sha_finalize H s)))"

text \<open>\<open>chunks_of\<close> says how the kernel cuts the file into reads.\<close>

definition compute_file_digest :: "'h hasher \<Rightarrow> (bytes \<Rightarrow> bytes list) \<Rightarrow> host \<Rightarrow> path \<Rightarrow> string res" where
  "compute_file_digest H chunks_of h p =
     (case open_file h p of
        Inl e \<Rightarrow> Err (Io e)
      | Inr nd \<Rightarrow> (case read_node h p nd of
            Inl e \<Rightarrow> compute_stream_digest H [Read_Error e]
          | Inr bs \<Rightarrow> compute_stream_digest H (map Chunk (chunks_of bs))))"

definition verify_stream_digest :: "'h hasher \<Rightarrow> read_event list \<Rightarrow> string \<Rightarrow> bool res" where
  "verify_stream_digest H reader expected =
     (case compute_stream_digest H reader of
        Inl e \<Rightarrow> Err e
      | Inr computed \<Rightarrow>
          if eq_ignore_ascii_case computed (trim expected) then Ok True
          else Err (DigestMismatch (trim expected) computed))"

text \<open>The chunks a stream delivers before it ends.\<close>

fun stream_chunks :: "read_event list \<Rightarrow> bytes list" where
  "stream_chunks [] = []"
| "stream_chunks (Read_Error e # rs) = []"
| "stream_chunks (Chunk b # rs) = (if b = [] then [] else b # stream_chunks rs)"

lemma concat_stream_chunks [simp]: "concat (stream_chunks rs) = stream_bytes rs"
  by (induction rs rule: stream_chunks.induct) auto

lemma hash_stream_eq:
  "hash_stream H s rs = (case stream_error rs of
     Some e \<Rightarrow> Err (Io e) | None \<Rightarrow> Ok (foldl (sha_update H) s (stream_chunks rs)))"
  by (induction H s rs rule: hash_stream.induct) (auto split: option.split)

lemma finalize_stream:
  "sha256_contract H \<Longrightarrow>
   hex_bytes (sha_finalize H (foldl (sha_update H) (sha_new H) (stream_chunks rs))) =
   hex_digest H (stream_bytes rs)"
  by (simp add: sha256_contract_def hex_digest_def)

lemma compute_stream_digest_eq:
  assumes "sha256_contract H"
  shows "compute_stream_digest H rs = (case stream_error rs of
     Some e \<Rightarrow> Err (Io e) | None \<Rightarrow> Ok (hex_digest H (stream_bytes rs)))"
  using finalize_stream [OF assms, of rs]
  by (simp add: compute_stream_digest_def hash_stream_eq split: option.split)

text \<open>A hasher that satisfies the contract, for the witnesses: the first 32 bytes, padded.\<close>

definition demo_hasher :: "bytes hasher" where
  "demo_hasher = \<lparr>sha_new = [], sha_update = (@),
     sha_finalize = (\<lambda>bs. take 32 (bs @ replicate 32 (CHR 0x00)))\<rparr>"

lemma foldl_append_concat: "foldl (@) s bss = s @ concat bss"
  by (induction bss arbitrary: s) auto

lemma demo_hasher_contract: "sha256_contract demo_hasher"
  by (auto simp: sha256_contract_def demo_hasher_def sha256_def foldl_append_concat min_def)

end
