(* ===== verification/Cas_Store.thy ===== *)
theory Cas_Store
  imports Digest
begin

text \<open>
  Content-addressable storage (\<^verbatim>\<open>cas/store.rs\<close>) and reflink copies (\<^verbatim>\<open>cas/reflink.rs\<close>): where blobs
  live, how they are found, and the atomic commit of a staged stream.  The definitions follow the
  methods of \<open>CasStore\<close>; the lemmas give the effect of every outcome of \<open>store_blob\<close> and the
  integrity invariant of the store: what lies under a digest hashes to that digest.
\<close>

section \<open>Layout\<close>

record cas_store =
  root_dir :: path

definition cas_dir :: "cas_store \<Rightarrow> path" where
  "cas_dir S = join (root_dir S) ''cas''"

definition blobs_dir :: "cas_store \<Rightarrow> path" where
  "blobs_dir S = join (join (join (root_dir S) ''cas'') ''blobs'') ''sha256''"

definition incoming_dir :: "cas_store \<Rightarrow> path" where
  "incoming_dir S = join (join (root_dir S) ''cas'') ''incoming''"

definition CasStore_new :: "path \<Rightarrow> cas_store act" where
  "CasStore_new root h =
     (let S = \<lparr>root_dir = root\<rparr> in
      case create_dir_all (blobs_dir S) h of
        (Inl e, h1) \<Rightarrow> (Err (Io e), h1)
      | (Inr u, h1) \<Rightarrow>
          (case create_dir_all (incoming_dir S) h1 of
             (Inl e, h2) \<Rightarrow> (Err (Io e), h2)
           | (Inr u, h2) \<Rightarrow> (Ok S, h2)))"

definition standard_path :: "cas_store \<Rightarrow> string \<Rightarrow> path" where
  "standard_path S digest = join (blobs_dir S) digest"

definition flat_path :: "cas_store \<Rightarrow> string \<Rightarrow> string \<Rightarrow> path" where
  "flat_path S ext digest = join (cas_dir S) (''sha256-'' @ digest @ ''.'' @ ext)"

definition blob_path :: "cas_store \<Rightarrow> host \<Rightarrow> string \<Rightarrow> path" where
  "blob_path S h digest =
     (let standard = standard_path S digest;
          flat_gguf = flat_path S ''gguf'' digest;
          flat_st = flat_path S ''safetensors'' digest
      in if is_file h standard then standard
         else if is_file h flat_gguf then flat_gguf
         else if is_file h flat_st then flat_st
         else standard)"

definition has_blob :: "cas_store \<Rightarrow> host \<Rightarrow> string \<Rightarrow> bool" where
  "has_blob S h digest = is_file h (blob_path S h digest)"

text \<open>An open file is its path and the node that was opened.\<close>

definition open_blob :: "cas_store \<Rightarrow> host \<Rightarrow> string \<Rightarrow> (path \<times> node) res" where
  "open_blob S h digest =
     (let p = blob_path S h digest in
      if \<not> is_file h p then Err (NotFound digest)
      else (case open_file h p of Inl e \<Rightarrow> Err (Io e) | Inr nd \<Rightarrow> Ok (p, nd)))"

definition blob_size :: "cas_store \<Rightarrow> host \<Rightarrow> string \<Rightarrow> nat res" where
  "blob_size S h digest =
     (case fs_metadata h (blob_path S h digest) of
        Inl e \<Rightarrow> Err (NotFound digest)
      | Inr m \<Rightarrow> Ok (m_len m))"

section \<open>Storing a blob\<close>

definition stage_nonce :: "host \<Rightarrow> string \<times> host" where
  "stage_nonce h =
     (show_hex (pid h) @ ''-'' @ show_hex (stage_counter h),
      h\<lparr>stage_counter := (stage_counter h + 1) mod 2 ^ 64\<rparr>)"

definition stage_path :: "cas_store \<Rightarrow> host \<Rightarrow> path" where
  "stage_path S h = join (incoming_dir S) (''stage-'' @ fst (stage_nonce h))"

text \<open>
  The read loop: hash and write each chunk and count its bytes in a \<open>u64\<close>.  The result is the
  hash state and the count.
\<close>

fun stage_loop :: "'h hasher \<Rightarrow> path \<Rightarrow> nat \<Rightarrow> read_event list \<Rightarrow> 'h \<Rightarrow> nat \<Rightarrow> ('h \<times> nat) act" where
  "stage_loop H p i [] s tot h = (Ok (s, tot), h)"
| "stage_loop H p i (Read_Error e # rs) s tot h = (Err (Io e), h)"
| "stage_loop H p i (Chunk b # rs) s tot h =
     (if b = [] then (Ok (s, tot), h)
      else (case write_all p i b h of
              (Inl e, h1) \<Rightarrow> (Err (Io e), h1)
            | (Inr u, h1) \<Rightarrow>
                stage_loop H p i rs (sha_update H s b) (u64_add tot (length b)) h1))"

definition commit_stage :: "cas_store \<Rightarrow> path \<Rightarrow> string \<Rightarrow> nat \<Rightarrow> (string \<times> nat) act" where
  "commit_stage S temp computed tot h =
     (case rename temp (blob_path S h computed) h of
        (Inl e, h1) \<Rightarrow> (Err (Io e), h1)
      | (Inr u, h1) \<Rightarrow> (Ok (computed, tot), h1))"

definition store_blob ::
    "'h hasher \<Rightarrow> cas_store \<Rightarrow> read_event list \<Rightarrow> string option \<Rightarrow> (string \<times> nat) act" where
  "store_blob H S reader expected h =
     (let temp = stage_path S h; h0 = snd (stage_nonce h) in
      case create_file temp h0 of
        (Inl e, h1) \<Rightarrow> (Err (Io e), h1)
      | (Inr i, h1) \<Rightarrow>
          (case stage_loop H temp i reader (sha_new H) 0 h1 of
             (Inl e, h2) \<Rightarrow> (Err e, h2)
           | (Inr (s, tot), h2) \<Rightarrow>
               (let computed = hex_bytes (sha_finalize H s) in
                case expected of
                  Some x \<Rightarrow>
                    if \<not> eq_ignore_ascii_case computed (trim x)
                    then (Err (DigestMismatch (trim x) computed), snd (remove_file temp h2))
                    else commit_stage S temp computed tot h2
                | None \<Rightarrow> commit_stage S temp computed tot h2)))"

section \<open>Reflink copies\<close>

text \<open>
  \<open>ficlone\<close> is the kernel's answer to the \<open>FICLONE\<close> ioctl: whether the file system of the two
  files can share extents.  A successful clone gives the destination the contents of the source.
\<close>

definition reflink_or_copy :: "(path \<Rightarrow> path \<Rightarrow> bool) \<Rightarrow> path \<Rightarrow> path \<Rightarrow> bool act" where
  "reflink_or_copy ficlone src dest h =
     (case open_file h src of
        Inl e \<Rightarrow> (Err (Io e), h)
      | Inr nd \<Rightarrow>
          (case create_file dest h of
             (Inl e, h1) \<Rightarrow> (Err (Io e), h1)
           | (Inr i, h1) \<Rightarrow>
               (case (ficlone src dest, nd) of
                  (True, File j) \<Rightarrow>
                    (Ok True, put_inode i \<lparr>content = content (inode h1 j), mtime = now h1\<rparr> h1)
                | _ \<Rightarrow>
                    (case copy_file src dest h1 of
                       (Inl e, h2) \<Rightarrow> (Err (Io e), h2)
                     | (Inr n, h2) \<Rightarrow> (Ok False, h2)))))"

section \<open>Paths of the store\<close>

text \<open>The fixed directories, and the paths of well-formed digests, as component lists.\<close>

lemma cas_dir_eq [path_simps]: "cas_dir S = root_dir S @ [''cas'']"
  by (simp add: cas_dir_def join_segment is_segment_def)

lemma blobs_dir_eq [path_simps]: "blobs_dir S = root_dir S @ [''cas'', ''blobs'', ''sha256'']"
  by (simp add: blobs_dir_def join_segment is_segment_def)

lemma incoming_dir_eq [path_simps]: "incoming_dir S = root_dir S @ [''cas'', ''incoming'']"
  by (simp add: incoming_dir_def join_segment is_segment_def)

lemma standard_path_eq:
  "is_digest_format d \<Longrightarrow> standard_path S d = root_dir S @ [''cas'', ''blobs'', ''sha256'', d]"
  by (simp add: standard_path_def path_simps digest_format_segment)

lemma flat_path_eq:
  assumes "is_digest_format d" and "CHR ''/'' \<notin> set ext"
  shows "flat_path S ext d = root_dir S @ [''cas'', ''sha256-'' @ d @ ''.'' @ ext]"
proof -
  have "CHR ''/'' \<notin> set d" using assms(1) digest_format_segment by (simp add: is_segment_def)
  then have "is_segment (''sha256-'' @ d @ ''.'' @ ext)"
    using assms(2) by (simp add: is_segment_def)
  then show ?thesis by (simp add: flat_path_def path_simps)
qed

definition hyphen_hex :: "char \<Rightarrow> bool" where
  "hyphen_hex c = (c = CHR ''-'' \<or> is_lower_hex c)"

lemma show_hex_chars: "c \<in> set (show_hex n) \<Longrightarrow> is_lower_hex c"
proof (induction n rule: show_hex.induct)
  case (1 n)
  from "1.prems" show ?case
    by (subst (asm) show_hex.simps)
       (auto split: if_splits intro: is_lower_hex_hex_char "1.IH")
qed

lemma nonce_chars: "c \<in> set (fst (stage_nonce h)) \<Longrightarrow> hyphen_hex c"
  by (auto simp: stage_nonce_def hyphen_hex_def dest: show_hex_chars)

lemma stage_path_eq:
  "stage_path S h = root_dir S @ [''cas'', ''incoming'', ''stage-'' @ fst (stage_nonce h)]"
proof -
  have "CHR ''/'' \<notin> set (fst (stage_nonce h))"
    using nonce_chars lower_hex_not_special by (fastforce simp: hyphen_hex_def)
  then have "is_segment (''stage-'' @ fst (stage_nonce h))" by (simp add: is_segment_def)
  then show ?thesis by (simp add: stage_path_def path_simps)
qed

lemma blob_path_cases:
  "blob_path S h d \<in> {standard_path S d, flat_path S ''gguf'' d, flat_path S ''safetensors'' d}"
  by (simp add: blob_path_def Let_def)

section \<open>Staging\<close>

text \<open>
  \<open>grows i bs h h'\<close>: only the contents of inode \<open>i\<close> changed, and \<open>bs\<close> was appended to it.
\<close>

definition grows :: "nat \<Rightarrow> bytes \<Rightarrow> host \<Rightarrow> host \<Rightarrow> bool" where
  "grows i bs h h' = (ents h' = ents h \<and> fault h' = fault h \<and> next_ino h' = next_ino h \<and>
     (\<forall>j. j \<noteq> i \<longrightarrow> inode h' j = inode h j) \<and>
     content (inode h' i) = content (inode h i) @ bs)"

lemma grows_refl [simp]: "grows i [] h h"
  by (simp add: grows_def)

lemma grows_trans: "grows i a h h1 \<Longrightarrow> grows i b h1 h2 \<Longrightarrow> grows i (a @ b) h h2"
  by (simp add: grows_def)

lemma grows_lookup: "grows i bs h h' \<Longrightarrow> lookup h' q = lookup h q"
  by (simp add: grows_def lookup_def)

lemma write_all_grows: "write_all p i bs h = (Inr u, h') \<Longrightarrow> grows i bs h h'"
  by (auto dest!: write_all_Ok simp: grows_def fs_simps) (simp add: put_inode_def)

lemma stage_loop_grows:
  "stage_loop H p i rs s t h = (r, h') \<Longrightarrow> \<exists>bs. grows i bs h h'"
proof (induction H p i rs s t h rule: stage_loop.induct)
  case (3 H p i b rs s t h)
  show ?case
  proof (cases "b = []")
    case True
    with "3.prems" show ?thesis by (auto intro: grows_refl)
  next
    case False
    obtain w h1 where w: "write_all p i b h = (w, h1)" by fastforce
    show ?thesis
    proof (cases w)
      case (Inl e)
      with w False "3.prems" have "h' = h" by (auto dest: write_all_Err)
      then show ?thesis using grows_refl by blast
    next
      case (Inr u)
      with w False "3.prems"
      have rest: "stage_loop H p i rs (sha_update H s b) (u64_add t (length b)) h1 = (r, h')"
        by simp
      from "3.IH" [OF False w [symmetric] Inr rest] obtain bs where "grows i bs h1 h'" by blast
      with write_all_grows w Inr show ?thesis by (blast intro: grows_trans)
    qed
  qed
qed (auto intro: grows_refl)

lemma stage_loop_Ok:
  "stage_loop H p i rs s t h = (Inr (s', t'), h') \<Longrightarrow> t < 2 ^ 64 \<Longrightarrow>
   grows i (stream_bytes rs) h h' \<and> stream_error rs = None \<and>
   s' = foldl (sha_update H) s (stream_chunks rs) \<and>
   t' = (t + length (stream_bytes rs)) mod 2 ^ 64"
proof (induction H p i rs s t h rule: stage_loop.induct)
  case (3 H p i b rs s t h)
  show ?case
  proof (cases "b = []")
    case True
    with "3.prems" show ?thesis by auto
  next
    case False
    obtain u h1 where w: "write_all p i b h = (Inr u, h1)"
      and rest: "stage_loop H p i rs (sha_update H s b) (u64_add t (length b)) h1 = (Inr (s', t'), h')"
      using "3.prems"(1) False by (auto split: prod.splits sum.splits)
    have "u64_add t (length b) < 2 ^ 64" by (simp add: u64_add_def)
    from "3.IH" [OF False w [symmetric] refl rest this] write_all_grows [OF w] False
    show ?thesis
      by (auto intro: grows_trans simp: u64_add_def mod_simps add.assoc)
  qed
qed auto

text \<open>
  \<open>staged S h i bs h'\<close>: a new file holding \<open>bs\<close> lies at the staging path of \<open>h\<close>, and nothing else
  changed.
\<close>

definition staged :: "cas_store \<Rightarrow> host \<Rightarrow> nat \<Rightarrow> bytes \<Rightarrow> host \<Rightarrow> bool" where
  "staged S h i bs h' = (i = next_ino h \<and>
     (\<forall>q. lookup h' q = (if q = stage_path S h then Some (File i) else lookup h q)) \<and>
     (\<forall>j. j \<noteq> i \<longrightarrow> inode h' j = inode h j) \<and> content (inode h' i) = bs \<and> fault h' = fault h \<and>
     next_ino h' = Suc (next_ino h) \<and> (fs_ok h \<longrightarrow> path_ok (root_dir S) \<longrightarrow> fs_ok h'))"

lemma path_ok_stage: "path_ok (root_dir S) \<Longrightarrow> path_ok (stage_path S h)"
  by (simp add: stage_path_def incoming_dir_def path_ok_join)

lemma staged_grows: "staged S h i a h1 \<Longrightarrow> grows i b h1 h2 \<Longrightarrow> staged S h i (a @ b) h2"
  unfolding staged_def using fs_ok_mono [of h1 h2] grows_lookup [of i b h1 h2]
  by (auto simp: grows_def)

lemma create_stage:
  assumes c: "create_file (stage_path S h) (snd (stage_nonce h)) = (Inr i, h1)"
    and unused: "lookup h (stage_path S h) = None"
  shows "staged S h i [] h1"
proof -
  let ?h0 = "snd (stage_nonce h)"
  have h0: "lookup ?h0 q = lookup h q" "inode ?h0 j = inode h j" "next_ino ?h0 = next_ino h"
    "fault ?h0 = fault h" "ents ?h0 = ents h" for q j
    by (simp_all add: stage_nonce_def fs_simps)
  have plain: "plain ?h0 (stage_path S h)" using unused by (simp add: plain_def h0)
  from create_file_Ok [OF c plain] unused
  have eq: "i = next_ino h" "stage_path S h \<noteq> []"
      "h1 = put_inode i \<lparr>content = [], mtime = now ?h0\<rparr>
         (put_ent (stage_path S h) (File i) (?h0\<lparr>next_ino := Suc (next_ino h)\<rparr>))"
    by (simp_all add: h0)
  have "fs_ok h1" if "fs_ok h" "path_ok (root_dir S)"
  proof (rule create_file_fs_ok [OF c])
    show "fs_ok ?h0" using that(1) by (rule fs_ok_mono) (simp_all add: h0)
    show "path_ok (stage_path S h)" using that(2) by (rule path_ok_stage)
  qed
  then show ?thesis using eq(1,2) by (simp add: staged_def eq(3) fs_simps h0)
qed

lemma staged_loop:
  assumes "create_file (stage_path S h) (snd (stage_nonce h)) = (Inr i, h1)"
    and "lookup h (stage_path S h) = None"
    and "stage_loop H (stage_path S h) i rs s 0 h1 = (r, h2)"
  shows "\<exists>bs. staged S h i bs h2 \<and> (\<forall>s' t. r = Inr (s', t) \<longrightarrow> bs = stream_bytes rs)"
proof (cases r)
  case (Inl e)
  with staged_grows [OF create_stage [OF assms(1,2)]] stage_loop_grows [OF assms(3)]
  show ?thesis by auto
next
  case (Inr st)
  then obtain s' t where "r = Inr (s', t)" by (cases st) auto
  with stage_loop_Ok [of H _ i rs s 0 h1 s' t h2] assms(3)
    staged_grows [OF create_stage [OF assms(1,2)]]
  show ?thesis by fastforce
qed

section \<open>The outcomes of \<open>store_blob\<close>\<close>

definition accepts :: "string option \<Rightarrow> string \<Rightarrow> bool" where
  "accepts expected d = (case expected of None \<Rightarrow> True | Some x \<Rightarrow> eq_ignore_ascii_case d (trim x))"

definition blob_paths :: "cas_store \<Rightarrow> string \<Rightarrow> path set" where
  "blob_paths S d = {standard_path S d, flat_path S ''gguf'' d, flat_path S ''safetensors'' d}"

lemma blob_path_in: "blob_path S h d \<in> blob_paths S d"
  using blob_path_cases by (simp add: blob_paths_def)

lemma blob_paths_eq:
  "is_digest_format d \<Longrightarrow> blob_paths S d =
     {root_dir S @ [''cas'', ''blobs'', ''sha256'', d],
      root_dir S @ [''cas'', ''sha256-'' @ d @ ''.gguf''],
      root_dir S @ [''cas'', ''sha256-'' @ d @ ''.safetensors'']}"
  by (simp add: blob_paths_def standard_path_eq flat_path_eq)

lemma stage_not_blob: "is_digest_format d \<Longrightarrow> p \<in> blob_paths S d \<Longrightarrow> p \<noteq> stage_path S h"
  by (auto simp: blob_paths_eq stage_path_eq)

lemma blob_paths_disjoint:
  assumes "is_digest_format d" "is_digest_format d'" "d \<noteq> d'"
  shows "blob_paths S d \<inter> blob_paths S d' = {}"
proof -
  have "length d = length d'" using assms by (simp add: is_digest_format_def)
  then show ?thesis using assms by (auto simp: blob_paths_eq append_eq_append_conv)
qed

lemma blob_paths_path_ok: "path_ok (root_dir S) \<Longrightarrow> p \<in> blob_paths S d \<Longrightarrow> path_ok p"
  by (auto simp: blob_paths_def standard_path_def flat_path_def cas_dir_def blobs_dir_def path_ok_join)

text \<open>The committed state: the staged inode lies at \<open>tgt\<close> and its staging entry is gone.\<close>

definition committed :: "cas_store \<Rightarrow> host \<Rightarrow> path \<Rightarrow> bytes \<Rightarrow> host \<Rightarrow> bool" where
  "committed S h tgt bs h' =
     (lookup h' tgt = Some (File (next_ino h)) \<and> content (inode h' (next_ino h)) = bs \<and>
      lookup h tgt \<noteq> Some Dir \<and> (\<forall>q. q \<noteq> tgt \<longrightarrow> lookup h' q = lookup h q) \<and>
      (\<forall>j. j \<noteq> next_ino h \<longrightarrow> inode h' j = inode h j) \<and> fault h' = fault h \<and>
      (path_ok (root_dir S) \<longrightarrow> fs_ok h'))"

lemma staged_fresh:
  assumes "fs_ok h" and "lookup h p = Some (File j)"
  shows "j \<noteq> next_ino h"
proof -
  have "p \<noteq> []" using assms(2) by auto
  from fs_ok_lookupD(4) [OF assms this] show ?thesis by (simp add: node_ok_def)
qed

lemma commit_stage_committed:
  assumes c: "commit_stage S (stage_path S h) d n hs = (Inr v, h')"
    and st: "staged S h i bs hs" and ok: "fs_ok h" and d: "is_digest_format d"
    and unused: "lookup h (stage_path S h) = None"
  shows "v = (d, n) \<and> committed S h (blob_path S hs d) bs h'"
proof -
  let ?t = "blob_path S hs d" let ?p = "stage_path S h"
  from c obtain u where r: "rename ?p ?t hs = (Inr u, h')" and v: "v = (d, n)"
    by (auto simp: commit_stage_def split: prod.splits sum.splits)
  have neq: "?t \<noteq> ?p" using stage_not_blob [OF d blob_path_in] .
  have i: "i = next_ino h" and look: "lookup hs ?p = Some (File i)"
    and look': "q \<noteq> ?p \<Longrightarrow> lookup hs q = lookup h q" for q
    using st by (simp_all add: staged_def)
  from rename_Ok [OF r] look obtain
    R: "?p \<noteq> []" "?t \<noteq> []" "lookup hs ?t \<noteq> Some Dir"
    and alt: "h' = put_ent ?t (File i) (del_ent ?p hs) \<or> lookup hs ?t = Some (File i) \<and> h' = hs"
    by auto
  have "lookup hs ?t \<noteq> Some (File i)"
    using staged_fresh [OF ok] i look' [OF neq] by auto
  with alt have h': "h' = put_ent ?t (File i) (del_ent ?p hs)" by simp
  have "fs_ok h'" if "path_ok (root_dir S)"
    using rename_fs_ok [OF r] st ok that blob_paths_path_ok [OF that blob_path_in]
    by (auto simp: staged_def)
  then show ?thesis
    using v st i R neq unused look' by (auto simp: committed_def h' fs_simps staged_def)
qed

lemma commit_stage_Err:
  "commit_stage S temp d n hs = (Inl e, h') \<Longrightarrow> h' = hs"
  by (auto simp: commit_stage_def split: prod.splits sum.splits dest: rename_Err)

lemma store_blob_outcome:
  assumes st: "store_blob H S rs expected h = (r, h')" and ok: "fs_ok h"
    and H: "sha256_contract H" and unused: "lookup h (stage_path S h) = None"
  defines "d \<equiv> hex_digest H (stream_bytes rs)"
  shows "(\<exists>e. r = Inl e \<and> h' = snd (stage_nonce h)) \<or>
    (\<exists>e i bs. r = Inl e \<and> staged S h i bs h') \<or>
    (\<exists>x i hs. r = Inl (DigestMismatch (trim x) d) \<and> expected = Some x \<and> stream_error rs = None \<and>
       \<not> accepts expected d \<and> staged S h i (stream_bytes rs) hs \<and>
       h' = snd (remove_file (stage_path S h) hs)) \<or>
    (\<exists>tgt \<in> blob_paths S d. r = Inr (d, length (stream_bytes rs) mod 2 ^ 64) \<and>
       stream_error rs = None \<and> accepts expected d \<and> committed S h tgt (stream_bytes rs) h')"
    (is "?A \<or> ?B \<or> ?C \<or> ?D")
proof -
  let ?p = "stage_path S h"
  obtain c h1 where c: "create_file ?p (snd (stage_nonce h)) = (c, h1)" by fastforce
  show ?thesis
  proof (cases c)
    case (Inl e)
    with c st have ?A by (auto simp: store_blob_def Let_def dest: create_file_Err)
    then show ?thesis ..
  next
    case (Inr i)
    obtain l h2 where l: "stage_loop H ?p i rs (sha_new H) 0 h1 = (l, h2)" by fastforce
    from staged_loop [OF _ unused l] c Inr obtain bs where bs: "staged S h i bs h2"
      "\<And>s' t. l = Inr (s', t) \<Longrightarrow> bs = stream_bytes rs" by blast
    show ?thesis
    proof (cases l)
      case (Inl e)
      with c \<open>c = Inr i\<close> l st bs(1) have ?B by (auto simp: store_blob_def Let_def)
      then show ?thesis by blast
    next
      case (Inr sn)
      then obtain s n where sn: "l = Inr (s, n)" by (cases sn) auto
      with bs have bs2: "staged S h i (stream_bytes rs) h2" by blast
      from stage_loop_Ok [of H ?p i rs "sha_new H" 0 h1 s n h2] l sn
      have L: "stream_error rs = None" "s = foldl (sha_update H) (sha_new H) (stream_chunks rs)"
        "n = length (stream_bytes rs) mod 2 ^ 64" by simp_all
      then have d: "hex_bytes (sha_finalize H s) = d" by (simp add: finalize_stream [OF H] d_def)
      have fmt: "is_digest_format d" by (simp add: d_def hex_digest_format [OF H])
      show ?thesis
      proof (cases "accepts expected d")
        case False
        with c \<open>c = Inr i\<close> l sn st d L(1) bs2 have ?C
          by (auto simp: store_blob_def Let_def accepts_def split: option.splits)
        then show ?thesis by blast
      next
        case True
        with c \<open>c = Inr i\<close> l sn st d have cm: "commit_stage S ?p d n h2 = (r, h')"
          by (auto simp: store_blob_def Let_def accepts_def split: option.splits)
        show ?thesis
        proof (cases r)
          case (Inl e)
          with cm bs2 have ?B by (auto dest: commit_stage_Err)
          then show ?thesis by blast
        next
          case (Inr v)
          with commit_stage_committed [OF _ bs2 ok fmt unused] cm
          have "v = (d, n) \<and> committed S h (blob_path S h2 d) (stream_bytes rs) h'" by blast
          with Inr True L blob_path_in [of S h2 d] have ?D by blast
          then show ?thesis by blast
        qed
      qed
    qed
  qed
qed

section \<open>What every outcome keeps\<close>

text \<open>A file that exists before the call keeps its inode, and the inode its data.\<close>

definition keeps_files :: "host \<Rightarrow> host \<Rightarrow> bool" where
  "keeps_files h h' = (\<forall>p j. lookup h p = Some (File j) \<longrightarrow> inode h' j = inode h j)"

lemma staged_keeps: "staged S h i bs h' \<Longrightarrow> fs_ok h \<Longrightarrow> keeps_files h h'"
  using staged_fresh by (auto simp: staged_def keeps_files_def)

lemma committed_keeps: "committed S h tgt bs h' \<Longrightarrow> fs_ok h \<Longrightarrow> keeps_files h h'"
  using staged_fresh by (auto simp: committed_def keeps_files_def)

lemma nonce_host:
  "lookup (snd (stage_nonce h)) q = lookup h q" "inode (snd (stage_nonce h)) j = inode h j"
  "ents (snd (stage_nonce h)) = ents h" "next_ino (snd (stage_nonce h)) = next_ino h"
  "fault (snd (stage_nonce h)) = fault h" "fault_free (snd (stage_nonce h)) = fault_free h"
  by (simp_all add: stage_nonce_def fs_simps)

lemma nonce_fs_ok: "fs_ok h \<Longrightarrow> fs_ok (snd (stage_nonce h))"
  by (rule fs_ok_mono [of h]) (simp_all add: nonce_host)

text \<open>The removal that ends a refused import.\<close>

lemma staged_removed:
  assumes st: "staged S h i bs hs" and unused: "lookup h (stage_path S h) = None"
    and h': "h' = snd (remove_file (stage_path S h) hs)"
  shows "q \<noteq> stage_path S h \<Longrightarrow> lookup h' q = lookup h q"
    and "j \<noteq> i \<Longrightarrow> inode h' j = inode h j" and "fs_ok hs \<Longrightarrow> fs_ok h'"
    and "fault_free h \<Longrightarrow> nul_free (stage_path S h) \<Longrightarrow> lookup h' q = lookup h q"
proof -
  obtain r where r: "remove_file (stage_path S h) hs = (r, h')" using h' by (metis prod.collapse)
  note look = remove_file_lookup [OF r] and same = remove_file_same_files [OF r]
  show "lookup h' q = lookup h q" if "q \<noteq> stage_path S h"
    using that st by (simp add: look staged_def)
  show "inode h' j = inode h j" if "j \<noteq> i"
    using that st same_files_inode [OF same] by (simp add: staged_def)
  show "fs_ok hs \<Longrightarrow> fs_ok h'" using remove_file_fs_ok [OF r] .
  show "lookup h' q = lookup h q" if "fault_free h" "nul_free (stage_path S h)"
  proof (cases "q = stage_path S h")
    case True
    have "fault_free hs" using st that(1) by (simp add: staged_def fault_free_def)
    then have "refuse hs Op_unlink (stage_path S h) = None" by (rule refuse_fault_free) fact
    then have "is_ok r" using r st by (auto simp: remove_file_def staged_def split: if_splits)
    with True unused show ?thesis by (simp add: look)
  next
    case False
    then show ?thesis using st by (simp add: look staged_def)
  qed
qed

text \<open>The effect of any call on entries and files, whatever the outcome.\<close>

lemma store_blob_effect:
  assumes st: "store_blob H S rs expected h = (r, h')" and ok: "fs_ok h"
    and H: "sha256_contract H" and unused: "lookup h (stage_path S h) = None"
  shows "keeps_files h h'"
    and "q \<noteq> stage_path S h \<Longrightarrow> q \<notin> blob_paths S (hex_digest H (stream_bytes rs)) \<or> \<not> is_ok r \<Longrightarrow>
      lookup h' q = lookup h q"
    and "path_ok (root_dir S) \<Longrightarrow> fs_ok h'"
proof -
  note outcome = store_blob_outcome [OF st ok H unused]
  from outcome show "keeps_files h h'"
  proof (elim disjE exE bexE conjE)
    fix x i hs
    assume "staged S h i (stream_bytes rs) hs" "h' = snd (remove_file (stage_path S h) hs)"
    note R = this(1) staged_removed(2) [OF this(1) unused this(2)]
    show ?thesis
      unfolding keeps_files_def
    proof (intro allI impI)
      fix p j assume "lookup h p = Some (File j)"
      then have "j \<noteq> i" using staged_fresh [OF ok] R(1) by (auto simp: staged_def)
      then show "inode h' j = inode h j" by (rule R(2))
    qed
  qed (use ok staged_keeps committed_keeps in \<open>auto simp: keeps_files_def nonce_host\<close>)
  from outcome show "lookup h' q = lookup h q"
    if "q \<noteq> stage_path S h" "q \<notin> blob_paths S (hex_digest H (stream_bytes rs)) \<or> \<not> is_ok r"
  proof (elim disjE exE bexE conjE)
    fix x i hs
    assume "staged S h i (stream_bytes rs) hs" "h' = snd (remove_file (stage_path S h) hs)"
    then show ?thesis using staged_removed(1) [OF _ unused _ that(1)] by blast
  next
    fix tgt assume "tgt \<in> blob_paths S (hex_digest H (stream_bytes rs))"
      "r = Ok (hex_digest H (stream_bytes rs), length (stream_bytes rs) mod 2 ^ 64)"
      "committed S h tgt (stream_bytes rs) h'"
    then show ?thesis using that by (auto simp: is_ok_iff committed_def)
  qed (use that in \<open>auto simp: nonce_host staged_def\<close>)
  from outcome show "fs_ok h'" if "path_ok (root_dir S)"
  proof (elim disjE exE bexE conjE)
    fix x i hs
    assume R: "staged S h i (stream_bytes rs) hs" "h' = snd (remove_file (stage_path S h) hs)"
    then have "fs_ok hs" using ok that by (simp add: staged_def)
    then show ?thesis by (rule staged_removed(3) [OF R(1) unused R(2)])
  qed (use that ok in \<open>simp_all add: nonce_fs_ok staged_def committed_def\<close>)
qed

text \<open>Which entries a call can leave where there were others.\<close>

lemma store_blob_entries:
  assumes st: "store_blob H S rs expected h = (r, h')" and ok: "fs_ok h"
    and H: "sha256_contract H" and unused: "lookup h (stage_path S h) = None"
  shows "lookup h' q = lookup h q \<or> lookup h' q = Some (File (next_ino h)) \<and>
    (q = stage_path S h \<or> q \<in> blob_paths S (hex_digest H (stream_bytes rs)))"
  using store_blob_outcome [OF st ok H unused]
proof (elim disjE exE bexE conjE)
  fix x i hs
  assume R: "staged S h i (stream_bytes rs) hs" "h' = snd (remove_file (stage_path S h) hs)"
  show ?thesis
  proof (cases "q = stage_path S h")
    case True
    have "lookup h' q = lookup hs q \<or> lookup h' q = None"
      using remove_file_lookup [of "stage_path S h" hs _ h'] R(2) by (metis prod.collapse)
    then show ?thesis using True R(1) unused by (auto simp: staged_def)
  next
    case False
    then show ?thesis using staged_removed(1) [OF R(1) unused R(2)] by simp
  qed
next
  fix tgt
  assume "tgt \<in> blob_paths S (hex_digest H (stream_bytes rs))" "committed S h tgt (stream_bytes rs) h'"
  then show ?thesis by (cases "q = tgt") (simp_all add: committed_def)
qed (simp_all add: nonce_host staged_def)

section \<open>Success\<close>

text \<open>
  A store ready for digest \<open>d\<close>: the directories are there, nothing but regular files lies at the
  paths of \<open>d\<close>, and the kernel refuses nothing.
\<close>

definition store_layout :: "cas_store \<Rightarrow> string \<Rightarrow> host \<Rightarrow> bool" where
  "store_layout S d h =
     (fs_ok h \<and> path_ok (root_dir S) \<and> nul_free (root_dir S) \<and>
      lookup h (blobs_dir S) = Some Dir \<and> lookup h (incoming_dir S) = Some Dir \<and>
      lookup h (stage_path S h) = None \<and>
      (\<forall>p \<in> blob_paths S d. case lookup h p of None \<Rightarrow> True | Some nd \<Rightarrow>
         (case nd of File i \<Rightarrow> True | _ \<Rightarrow> False)))"

definition store_ready :: "cas_store \<Rightarrow> string \<Rightarrow> host \<Rightarrow> bool" where
  "store_ready S d h = (fault_free h \<and> store_layout S d h)"

lemma nul_free_stage: "nul_free (root_dir S) \<Longrightarrow> nul_free (stage_path S h)"
  using nonce_chars lower_hex_not_special
  by (fastforce simp: stage_path_eq hyphen_hex_def)

lemma nul_free_blob_paths:
  "nul_free (root_dir S) \<Longrightarrow> is_digest_format d \<Longrightarrow> p \<in> blob_paths S d \<Longrightarrow> nul_free p"
  using digest_format_no_nul [of d] by (auto simp: blob_paths_eq)

lemma parent_of_blob_path:
  assumes "is_digest_format d" and "p \<in> blob_paths S d"
  shows "butlast p = blobs_dir S \<or> butlast p = cas_dir S"
  using assms by (auto simp: blob_paths_eq path_simps butlast_append)

lemma cas_dir_is_dir:
  assumes "fs_ok h" and "lookup h (incoming_dir S) = Some Dir"
  shows "lookup h (cas_dir S) = Some Dir"
proof -
  have "incoming_dir S \<noteq> []" by (simp add: path_simps)
  from fs_ok_lookupD(3) [OF assms this] show ?thesis by (simp add: path_simps butlast_append)
qed

lemma stage_loop_succeeds:
  "stream_error rs = None \<Longrightarrow> fault_free h \<Longrightarrow> nul_free p \<Longrightarrow>
   \<exists>v h'. stage_loop H p i rs s t h = (Inr v, h')"
proof (induction H p i rs s t h rule: stage_loop.induct)
  case (3 H p i b rs s t h)
  then have w: "write_all p i b h =
      (Inr (), put_inode i \<lparr>content = content (inode h i) @ b, mtime = now h\<rparr> h)"
    by (simp add: write_all_def refuse_fault_free)
  show ?case
  proof (cases "b = []")
    case False
    with 3 w show ?thesis by (simp add: fs_simps)
  qed simp
qed auto

lemma is_file_fault_free:
  "fault_free h \<Longrightarrow> nul_free p \<Longrightarrow> lookup h p = Some (File i) \<Longrightarrow> is_file h p"
  "lookup h p = None \<Longrightarrow> \<not> is_file h p"
  by (simp_all add: is_file_def refuse_fault_free fs_simps)

lemma store_ready_parts:
  assumes "store_ready S d h"
  shows "fs_ok h" "fault_free h" "path_ok (root_dir S)" "nul_free (root_dir S)"
    "lookup h (blobs_dir S) = Some Dir" "lookup h (incoming_dir S) = Some Dir"
    "lookup h (stage_path S h) = None"
    "p \<in> blob_paths S d \<Longrightarrow> lookup h p = None \<or> (\<exists>i. lookup h p = Some (File i))"
proof -
  show "lookup h p = None \<or> (\<exists>i. lookup h p = Some (File i))" if "p \<in> blob_paths S d"
    using assms that
    by (cases "lookup h p"; cases "the (lookup h p)") (auto simp: store_ready_def store_layout_def)
qed (use assms in \<open>simp_all add: store_ready_def store_layout_def\<close>)

lemma create_stage_succeeds:
  assumes "store_ready S d h"
  shows "\<exists>i h1. create_file (stage_path S h) (snd (stage_nonce h)) = (Inr i, h1)"
proof -
  note R = store_ready_parts [OF assms]
  let ?p = "stage_path S h" let ?h0 = "snd (stage_nonce h)"
  have "lookup ?h0 (butlast ?p) = Some Dir"
    using R(6) by (simp add: stage_path_eq nonce_host path_simps butlast_append)
  moreover have "refuse ?h0 Op_create ?p = None"
    using R(2) nul_free_stage [OF R(4)] by (simp add: refuse_fault_free nonce_host)
  ultimately show ?thesis
    using R(7) by (auto simp: create_file_def resolve_plain plain_def nonce_host parent_problem_def)
qed

lemma stage_loop_fails:
  "stream_error rs = Some e \<Longrightarrow> fault_free h \<Longrightarrow> nul_free p \<Longrightarrow>
   \<exists>h'. stage_loop H p i rs s t h = (Inl (Io e), h') \<and> grows i (stream_bytes rs) h h'"
proof (induction H p i rs s t h rule: stage_loop.induct)
  case (3 H p i b rs s t h)
  let ?h1 = "put_inode i \<lparr>content = content (inode h i) @ b, mtime = now h\<rparr> h"
  from 3 have w: "write_all p i b h = (Inr (), ?h1)" by (simp add: write_all_def refuse_fault_free)
  show ?case
  proof (cases "b = []")
    case False
    with 3 w obtain h' where "stage_loop H p i rs (sha_update H s b) (u64_add t (length b)) ?h1 =
        (Inl (Io e), h')" "grows i (stream_bytes rs) ?h1 h'" by (fastforce simp: fs_simps)
    with w False grows_trans [OF write_all_grows [OF w]] show ?thesis by simp
  qed (use 3 in simp)
qed auto

lemma store_blob_committed:
  assumes H: "sha256_contract H" and no_err: "stream_error rs = None"
    and acc: "accepts expected (hex_digest H (stream_bytes rs))"
    and ready: "store_ready S (hex_digest H (stream_bytes rs)) h"
  defines "d \<equiv> hex_digest H (stream_bytes rs)"
  shows "\<exists>h'. store_blob H S rs expected h = (Inr (d, length (stream_bytes rs) mod 2 ^ 64), h') \<and>
    committed S h (blob_path S h d) (stream_bytes rs) h'"
proof -
  note R = store_ready_parts [OF ready]
  let ?p = "stage_path S h" let ?h0 = "snd (stage_nonce h)"
  have fmt: "is_digest_format d" by (simp add: d_def hex_digest_format [OF H])
  have nul: "nul_free ?p" using R(4) by (rule nul_free_stage)
  from create_stage_succeeds [OF ready] obtain i h1 where c: "create_file ?p ?h0 = (Inr i, h1)"
    by blast
  have st1: "staged S h i [] h1" using create_stage [OF c R(7)] .
  then have "fault_free h1" using R(2) by (simp add: staged_def fault_free_def)
  from stage_loop_succeeds [OF no_err this nul, of H i "sha_new H" 0] obtain s n h2
    where l: "stage_loop H ?p i rs (sha_new H) 0 h1 = (Inr (s, n), h2)" by force
  from stage_loop_Ok [OF l] have L: "s = foldl (sha_update H) (sha_new H) (stream_chunks rs)"
    "n = length (stream_bytes rs) mod 2 ^ 64" by simp_all
  from staged_loop [OF c R(7) l] have st2: "staged S h i (stream_bytes rs) h2" by blast
  have hexd: "hex_bytes (sha_finalize H s) = d" by (simp add: L finalize_stream [OF H] d_def)
  let ?t = "blob_path S h2 d"
  have look2: "lookup h2 q = lookup h q" if "q \<in> blob_paths S d" for q
    using st2 stage_not_blob [OF fmt that] by (simp add: staged_def)
  have ff2: "fault_free h2" using st2 R(2) by (simp add: staged_def fault_free_def)
  have file2: "is_file h2 q = is_file h q" if "q \<in> blob_paths S d" for q
  proof -
    have nq: "nul_free q" using nul_free_blob_paths [OF R(4) fmt that] .
    show ?thesis using R(8) [of q] look2 [OF that] that ff2 R(2) nq
      by (auto simp: d_def [symmetric] is_file_fault_free)
  qed
  have t: "?t = blob_path S h d"
    using file2 by (simp add: blob_path_def Let_def blob_paths_def)
  have tin: "?t \<in> blob_paths S d" by (rule blob_path_in)
  have tdir: "lookup h2 (butlast ?t) = Some Dir"
  proof -
    have "butlast ?t = blobs_dir S \<or> butlast ?t = cas_dir S" using parent_of_blob_path [OF fmt tin] .
    moreover have "blobs_dir S \<noteq> ?p" "cas_dir S \<noteq> ?p" by (auto simp: stage_path_eq path_simps)
    ultimately show ?thesis using st2 R(5) cas_dir_is_dir [OF R(1,6)] by (auto simp: staged_def)
  qed
  have "nul_free ?t" using nul_free_blob_paths [OF R(4) fmt tin] .
  then have "refuse h2 Op_rename ?t = None" using ff2 by (simp add: refuse_fault_free)
  moreover have "lookup h2 ?t \<noteq> Some Dir" using R(8) [of ?t] tin look2 [OF tin] by (auto simp: d_def)
  moreover have i: "i = next_ino h" "lookup h2 ?p = Some (File i)" using st2 by (simp_all add: staged_def)
  moreover have "lookup h2 ?t \<noteq> Some (File i)"
    using look2 [OF tin] staged_fresh [OF R(1)] i(1) by auto
  ultimately have "rename ?p ?t h2 = (Inr (), put_ent ?t (File i) (del_ent ?p h2))"
    using tdir by (simp add: rename_def parent_problem_def)
  then obtain h' where cm: "commit_stage S ?p d n h2 = (Inr (d, n), h')"
    by (simp add: commit_stage_def)
  from commit_stage_committed [OF cm st2 R(1) fmt R(7)]
  have "committed S h (blob_path S h d) (stream_bytes rs) h'" by (simp add: t)
  moreover have "store_blob H S rs expected h = (Inr (d, n), h')"
    using c l hexd cm acc by (auto simp: store_blob_def Let_def accepts_def d_def split: option.splits)
  ultimately show ?thesis using L(2) by blast
qed

text \<open>After a commit the lookup finds the committed path again.\<close>

lemma is_file_committed:
  assumes "committed S h tgt bs h'" and "fault_free h" and "nul_free q"
    and "lookup h q = None \<or> (\<exists>i. lookup h q = Some (File i))"
  shows "is_file h' q = (q = tgt \<or> is_file h q)"
proof -
  have "fault_free h'" using assms(1,2) by (simp add: committed_def fault_free_def)
  with assms show ?thesis
    by (cases "q = tgt") (auto simp: committed_def is_file_fault_free)
qed

lemma blob_path_committed:
  assumes c: "committed S h (blob_path S h d) bs h'" and ready: "store_ready S d h"
    and d: "is_digest_format d"
  shows "blob_path S h' d = blob_path S h d"
proof -
  note R = store_ready_parts [OF ready]
  have isf: "is_file h' q = (q = blob_path S h d \<or> is_file h q)" if "q \<in> blob_paths S d" for q
    using is_file_committed [OF c R(2) nul_free_blob_paths [OF R(4) d that] R(8) [OF that]] .
  show ?thesis
    using isf [of "standard_path S d"] isf [of "flat_path S ''gguf'' d"]
      isf [of "flat_path S ''safetensors'' d"]
    by (auto simp: blob_path_def Let_def blob_paths_def standard_path_eq flat_path_eq d)
qed

text \<open>A store under \<^verbatim>\<open>/m\<close> for the witnesses.\<close>

definition demo_store :: cas_store where
  "demo_store = \<lparr>root_dir = [''m'']\<rparr>"

definition demo_dirs :: "(path \<times> node) list" where
  "demo_dirs = [([''m''], Dir), ([''m'', ''cas''], Dir), ([''m'', ''cas'', ''incoming''], Dir),
     ([''m'', ''cas'', ''blobs''], Dir), ([''m'', ''cas'', ''blobs'', ''sha256''], Dir)]"

definition demo_host :: host where
  "demo_host = plain_host demo_dirs []"

section \<open>Properties of the store\<close>

text \<open>
  C5. Storing and reading back.  On a store that is ready, a stream that ends without an error and
  an expected digest (in either letter case, padded or not, or none) that agrees with the content,
  \<open>store_blob\<close> succeeds with the digest and the byte count, and from then on the blob is present,
  opens, reads back the bytes of the stream and reports their number.
\<close>

theorem store_blob_roundtrip:
  assumes "sha256_contract H" and "stream_error rs = None"
    and "accepts expected (hex_digest H (stream_bytes rs))"
    and "store_ready S (hex_digest H (stream_bytes rs)) h"
  shows "\<exists>h' p nd. store_blob H S rs expected h =
        (Ok (hex_digest H (stream_bytes rs), length (stream_bytes rs) mod 2 ^ 64), h') \<and>
     has_blob S h' (hex_digest H (stream_bytes rs)) \<and>
     open_blob S h' (hex_digest H (stream_bytes rs)) = Ok (p, nd) \<and>
     read_node h' p nd = Ok (stream_bytes rs) \<and>
     blob_size S h' (hex_digest H (stream_bytes rs)) = Ok (length (stream_bytes rs) mod 2 ^ 64)"
proof -
  let ?d = "hex_digest H (stream_bytes rs)"
  note R = store_ready_parts [OF assms(4)]
  have fmt: "is_digest_format ?d" by (rule hex_digest_format [OF assms(1)])
  obtain h' where st: "store_blob H S rs expected h = (Ok (?d, length (stream_bytes rs) mod 2 ^ 64), h')"
    and c: "committed S h (blob_path S h ?d) (stream_bytes rs) h'"
    using store_blob_committed [OF assms] by blast
  let ?t = "blob_path S h ?d" let ?nd = "File (next_ino h)"
  have t: "blob_path S h' ?d = ?t" by (rule blob_path_committed [OF c assms(4) fmt])
  have nul: "nul_free ?t" by (rule nul_free_blob_paths [OF R(4) fmt blob_path_in])
  have ff: "fault_free h'" using c R(2) by (simp add: committed_def fault_free_def)
  have look: "lookup h' ?t = Some ?nd" and cont: "content (inode h' (next_ino h)) = stream_bytes rs"
    using c by (simp_all add: committed_def)
  have isf: "is_file h' ?t" by (rule is_file_fault_free(1) [OF ff nul look])
  then have "has_blob S h' ?d" by (simp add: has_blob_def t)
  moreover have "open_blob S h' ?d = Ok (?t, ?nd)"
    using isf look by (simp add: open_blob_def t open_file_def refuse_fault_free [OF ff nul] stat_lookup)
  moreover have "read_node h' ?t ?nd = Ok (stream_bytes rs)"
    by (simp add: read_node_def refuse_fault_free [OF ff nul] cont)
  moreover have "blob_size S h' ?d = Ok (length (stream_bytes rs) mod 2 ^ 64)"
    using look by (simp add: blob_size_def t fs_metadata_def refuse_fault_free [OF ff nul] stat_lookup
        node_metadata_def file_size_def cont)
  ultimately show ?thesis using st by blast
qed

lemma demo_store_ready: "store_ready demo_store (hex_digest demo_hasher ''abc'') demo_host"
proof -
  have "store_layout demo_store (hex_digest demo_hasher ''abc'') demo_host" by code_simp
  then show ?thesis by (simp add: store_ready_def demo_host_def)
qed

theorem store_blob_roundtrip_witness:
  "\<exists>h' p nd. store_blob demo_hasher demo_store [Chunk ''ab'', Chunk ''c'']
        (Some (''  '' @ to_ascii_uppercase (hex_digest demo_hasher ''abc''))) demo_host =
        (Ok (hex_digest demo_hasher ''abc'', 3), h') \<and>
     has_blob demo_store h' (hex_digest demo_hasher ''abc'') \<and>
     open_blob demo_store h' (hex_digest demo_hasher ''abc'') = Ok (p, nd) \<and>
     read_node h' p nd = Ok ''abc'' \<and>
     blob_size demo_store h' (hex_digest demo_hasher ''abc'') = Ok 3"
proof -
  have acc: "accepts (Some (''  '' @ to_ascii_uppercase (hex_digest demo_hasher ''abc'')))
      (hex_digest demo_hasher ''abc'')" by code_simp
  show ?thesis
    using store_blob_roundtrip [of demo_hasher "[Chunk ''ab'', Chunk ''c'']" _ demo_store demo_host,
      OF demo_hasher_contract] acc demo_store_ready by simp
qed

text \<open>What lies under a digest, at any of its three paths, hashes to that digest.\<close>

definition cas_sound :: "'h hasher \<Rightarrow> cas_store \<Rightarrow> host \<Rightarrow> bool" where
  "cas_sound H S h = (\<forall>d p j. is_digest_format d \<longrightarrow> p \<in> blob_paths S d \<longrightarrow>
     lookup h p = Some (File j) \<longrightarrow> hex_digest H (content (inode h j)) = d)"

lemma cas_soundD:
  "cas_sound H S h \<Longrightarrow> is_digest_format d \<Longrightarrow> p \<in> blob_paths S d \<Longrightarrow> lookup h p = Some (File j) \<Longrightarrow>
   hex_digest H (content (inode h j)) = d"
  by (simp add: cas_sound_def)

text \<open>Soundness survives a step that adds no file at a blob path and keeps the files it has.\<close>

lemma cas_sound_mono:
  assumes "cas_sound H S h" and "keeps_files h h'"
    and "\<And>d p j. is_digest_format d \<Longrightarrow> p \<in> blob_paths S d \<Longrightarrow> lookup h' p = Some (File j) \<Longrightarrow>
      lookup h p = Some (File j)"
  shows "cas_sound H S h'"
  using assms unfolding cas_sound_def keeps_files_def by metis

lemma cas_sound_committed:
  assumes c: "committed S h tgt bs h'" and tgt: "tgt \<in> blob_paths S (hex_digest H bs)"
    and H: "sha256_contract H" and ok: "fs_ok h" and sound: "cas_sound H S h"
  shows "cas_sound H S h'"
  unfolding cas_sound_def
proof (intro allI impI)
  fix d p j
  assume d: "is_digest_format d" and p: "p \<in> blob_paths S d" and look: "lookup h' p = Some (File j)"
  show "hex_digest H (content (inode h' j)) = d"
  proof (cases "p = tgt")
    case True
    then have "d = hex_digest H bs"
      using blob_paths_disjoint [OF d hex_digest_format [OF H]] p tgt by blast
    with True look c show ?thesis by (simp add: committed_def)
  next
    case False
    with look c have l: "lookup h p = Some (File j)" by (simp add: committed_def)
    with staged_fresh [OF ok] c have "inode h' j = inode h j" by (auto simp: committed_def)
    with cas_soundD [OF sound d p l] show ?thesis by simp
  qed
qed

text \<open>A sound store stays sound, and the file system well formed.\<close>

lemma store_blob_sound:
  assumes "sha256_contract H" and "fs_ok h" and "path_ok (root_dir S)"
    and "lookup h (stage_path S h) = None" and "cas_sound H S h"
    and "store_blob H S rs expected h = (r, h')"
  shows "cas_sound H S h' \<and> fs_ok h'"
proof
  note E = store_blob_effect [OF assms(6,2,1,4)]
  show "fs_ok h'" by (rule E(3) [OF assms(3)])
  show "cas_sound H S h'"
  proof (cases "is_ok r")
    case True
    with store_blob_outcome [OF assms(6,2,1,4)] obtain tgt
      where "tgt \<in> blob_paths S (hex_digest H (stream_bytes rs))"
        and "committed S h tgt (stream_bytes rs) h'" by auto
    then show ?thesis using cas_sound_committed assms(1,2,5) by blast
  next
    case False
    show ?thesis
    proof (rule cas_sound_mono [OF assms(5) E(1)])
      fix d p j assume "is_digest_format d" "p \<in> blob_paths S d" "lookup h' p = Some (File j)"
      with E(2) [of p] False stage_not_blob show "lookup h p = Some (File j)" by auto
    qed
  qed
qed

text \<open>
  C4. Integrity.  Whatever the stream delivers, whatever digest the caller expects, and whichever
  calls the kernel refuses: a sound store is sound after \<open>store_blob\<close>, and the file system stays
  well formed.
\<close>

theorem store_blob_keeps_sound:
  assumes "sha256_contract H" and "fs_ok h" and "path_ok (root_dir S)"
    and "lookup h (stage_path S h) = None" and "cas_sound H S h"
    and "store_blob H S rs expected h = (r, h')"
  shows "cas_sound H S h' \<and> fs_ok h'"
  by (rule store_blob_sound [OF assms])


lemma cas_sound_no_files:
  "\<forall>p nd. lookup h p = Some nd \<longrightarrow> nd = Dir \<Longrightarrow> cas_sound H S h"
  by (auto simp: cas_sound_def)

lemma demo_host_facts:
  "fs_ok demo_host" "path_ok (root_dir demo_store)" "lookup demo_host (stage_path demo_store demo_host) = None"
  "cas_sound H demo_store demo_host"
proof -
  show "fs_ok demo_host" by code_simp
  show "path_ok (root_dir demo_store)" by code_simp
  show "lookup demo_host (stage_path demo_store demo_host) = None" by code_simp
  show "cas_sound H demo_store demo_host"
    by (rule cas_sound_no_files)
       (auto simp: demo_host_def plain_host_def demo_dirs_def lookup_def split: if_splits)
qed

theorem store_blob_keeps_sound_witness:
  "cas_sound demo_hasher demo_store
     (snd (store_blob demo_hasher demo_store [Chunk ''ab'', Chunk ''c''] None demo_host))"
  using store_blob_keeps_sound [OF demo_hasher_contract demo_host_facts, of "[Chunk ''ab'', Chunk ''c'']" None]
  by (metis prod.collapse)


text \<open>
  C24. The two refusals.  On a ready store, a stream that agrees with no expected digest is answered
  with both digests and leaves every entry as it was; a reader that fails is answered with its
  error, and its staging file stays behind with the bytes read so far.
\<close>

theorem store_blob_refusals:
  assumes "sha256_contract H" and "store_ready S (hex_digest H (stream_bytes rs)) h"
  shows "(\<forall>x. stream_error rs = None \<and> \<not> accepts (Some x) (hex_digest H (stream_bytes rs)) \<longrightarrow>
      (\<exists>h'. store_blob H S rs (Some x) h =
          (Err (DigestMismatch (trim x) (hex_digest H (stream_bytes rs))), h') \<and>
        (\<forall>q. lookup h' q = lookup h q))) \<and>
    (\<forall>e. stream_error rs = Some e \<longrightarrow>
      (\<exists>h'. store_blob H S rs expected h = (Err (Io e), h') \<and>
        contents h' (stage_path S h) = Some (stream_bytes rs) \<and>
        (\<forall>q. q \<noteq> stage_path S h \<longrightarrow> lookup h' q = lookup h q)))"
proof (intro conjI allI impI)
  note R = store_ready_parts [OF assms(2)]
  have nul: "nul_free (stage_path S h)" using R(4) by (rule nul_free_stage)
  obtain i h1 where c: "create_file (stage_path S h) (snd (stage_nonce h)) = (Inr i, h1)"
    using create_stage_succeeds [OF assms(2)] by blast
  have st1: "staged S h i [] h1" using create_stage [OF c R(7)] .
  then have ff: "fault_free h1" using R(2) by (simp add: staged_def fault_free_def)
  {
    fix x
    assume no_err: "stream_error rs = None \<and> \<not> accepts (Some x) (hex_digest H (stream_bytes rs))"
    obtain s n h2 where l: "stage_loop H (stage_path S h) i rs (sha_new H) 0 h1 = (Inr (s, n), h2)"
      using stage_loop_succeeds [OF _ ff nul] no_err by (metis surj_pair)
    have s: "hex_bytes (sha_finalize H s) = hex_digest H (stream_bytes rs)"
      using stage_loop_Ok [OF l] finalize_stream [OF assms(1)] by simp
    have "staged S h i (stream_bytes rs) h2" using staged_loop [OF c R(7) l] by blast
    from staged_removed(4) [OF this R(7) refl R(2) nul]
    have "\<forall>q. lookup (snd (remove_file (stage_path S h) h2)) q = lookup h q" by blast
    then show "\<exists>h'. store_blob H S rs (Some x) h =
          (Err (DigestMismatch (trim x) (hex_digest H (stream_bytes rs))), h') \<and>
        (\<forall>q. lookup h' q = lookup h q)"
      using c l s no_err by (simp add: store_blob_def Let_def accepts_def)
  next
    fix e assume "stream_error rs = Some e"
    from stage_loop_fails [OF this ff nul, of H i "sha_new H" 0] obtain h2
      where l: "stage_loop H (stage_path S h) i rs (sha_new H) 0 h1 = (Inl (Io e), h2)"
        and g: "grows i (stream_bytes rs) h1 h2" by blast
    have "staged S h i (stream_bytes rs) h2" using staged_grows [OF st1 g] by simp
    then show "\<exists>h'. store_blob H S rs expected h = (Err (Io e), h') \<and>
        contents h' (stage_path S h) = Some (stream_bytes rs) \<and>
        (\<forall>q. q \<noteq> stage_path S h \<longrightarrow> lookup h' q = lookup h q)"
      using c l by (auto simp: store_blob_def Let_def staged_def contents_File)
  }
qed

theorem store_blob_refusals_witness:
  "\<exists>h'. store_blob demo_hasher demo_store [Chunk ''abc'', Read_Error e_nul] None demo_host =
      (Err (Io e_nul), h') \<and>
    contents h' (stage_path demo_store demo_host) = Some ''abc''"
  using store_blob_refusals [OF demo_hasher_contract, of demo_store "[Chunk ''abc'', Read_Error e_nul]" demo_host None]
    demo_store_ready by auto

section \<open>Copies\<close>

text \<open>What a copy that succeeds went through.\<close>

lemma copy_file_steps:
  assumes "copy_file src dest h = (Inr n, h')" and "lookup h src = Some (File i)"
  obtains j h1 where "create_file dest h = (Inr j, h1)"
    "h' = put_inode j \<lparr>content = content (inode h1 j) @ content (inode h1 i), mtime = now h1\<rparr> h1"
  using assms
  by (auto simp: copy_file_def open_file_def stat_lookup read_node_def write_all_def split: option.splits sum.splits prod.splits)

lemma copy_file_Ok:
  assumes c: "copy_file src dest h = (Inr n, h')" and src: "lookup h src = Some (File i)"
    and dest: "lookup h dest = Some (File j)"
  shows "content (inode h' j) = (if i = j then [] else content (inode h i)) \<and> (\<forall>q. lookup h' q = lookup h q) \<and>
    (\<forall>k. k \<noteq> j \<longrightarrow> inode h' k = inode h k)"
proof -
  obtain j' h1 where cr: "create_file dest h = (Inr j', h1)"
    and h': "h' = put_inode j' \<lparr>content = content (inode h1 j') @ content (inode h1 i), mtime = now h1\<rparr> h1"
    using copy_file_steps [OF c src] .
  from create_file_Ok [OF cr plainI(1) [OF dest]] dest
  have "j' = j" "h1 = put_inode j \<lparr>content = [], mtime = now h\<rparr> h" by auto
  with h' show ?thesis by (simp add: fs_simps)
qed

text \<open>
  Copying.  When \<open>reflink_or_copy\<close> succeeds, the destination holds the contents the source had,
  whether the kernel cloned the extents or the code copied the bytes, and no other entry or file
  changed; but if both names are links to one file, that file is empty afterwards, because the
  destination is truncated before anything is read.
\<close>

theorem reflink_or_copy_contents:
  assumes "reflink_or_copy ficlone src dest h = (Ok cloned, h')" and "fs_ok h"
    and "lookup h src = Some (File i)" and "plain h dest"
  shows "contents h' dest = Some (if lookup h dest = Some (File i) then [] else content (inode h i)) \<and>
    (\<forall>q. q \<noteq> dest \<longrightarrow> lookup h' q = lookup h q) \<and>
    (\<forall>p k. p \<noteq> dest \<longrightarrow> lookup h p = Some (File k) \<longrightarrow> lookup h dest \<noteq> Some (File k) \<longrightarrow>
       inode h' k = inode h k)"
proof -
  obtain j h1 where cr: "create_file dest h = (Inr j, h1)"
    using assms(1) by (auto simp: reflink_or_copy_def split: sum.splits prod.splits)
  have op: "open_file h src = Inr (File i)"
    using assms(1,3) by (auto simp: reflink_or_copy_def open_file_def stat_lookup split: option.splits sum.splits)
  note L = create_file_lookup [OF cr assms(4)]
  have j: "lookup h dest = Some (File j) \<or> lookup h dest = None \<and> j = next_ino h"
    using create_file_Ok [OF cr assms(4)] by auto
  have fresh: "k \<noteq> next_ino h" if "lookup h p = Some (File k)" for p k
    using staged_fresh [OF assms(2) that] .
  have same: "i = j \<longleftrightarrow> lookup h dest = Some (File i)" using j fresh [OF assms(3)] by auto
  have src1: "lookup h1 src = Some (File i)"
    using L(1,2) assms(3) same by (cases "src = dest") auto
  let ?bs = "content (inode h1 i)"
  have bs: "?bs = (if i = j then [] else content (inode h i))" using L(3,4) by auto
  have res: "content (inode h' j) = ?bs \<and> (\<forall>q. lookup h' q = lookup h1 q) \<and>
      (\<forall>k. k \<noteq> j \<longrightarrow> inode h' k = inode h1 k)"
  proof (cases "ficlone src dest")
    case True
    with assms(1) op cr have "h' = put_inode j \<lparr>content = ?bs, mtime = now h1\<rparr> h1"
      by (simp add: reflink_or_copy_def)
    then show ?thesis by (simp add: fs_simps)
  next
    case False
    with assms(1) op cr obtain n where cp: "copy_file src dest h1 = (Inr n, h')"
      by (auto simp: reflink_or_copy_def split: sum.splits prod.splits)
    from copy_file_Ok [OF cp src1 L(1)] L(3) show ?thesis by auto
  qed
  have "contents h' dest = Some ?bs" using res L(1) by (simp add: contents_File)
  moreover have "\<forall>q. q \<noteq> dest \<longrightarrow> lookup h' q = lookup h q" using res L(2) by simp
  moreover have "inode h' k = inode h k"
    if "lookup h p = Some (File k)" "lookup h dest \<noteq> Some (File k)" for p k
  proof -
    have "k \<noteq> j" using that j fresh by auto
    then show ?thesis using res L(4) by simp
  qed
  ultimately show ?thesis using bs same by auto
qed

definition copy_host :: host where
  "copy_host = plain_host [([''a''], File 0), ([''b''], File 1)]
     [(0, \<lparr>content = ''new'', mtime = 1\<rparr>), (1, \<lparr>content = ''old'', mtime = 2\<rparr>)]"

theorem reflink_or_copy_contents_witness:
  "contents (snd (reflink_or_copy (\<lambda>a b. False) [''a''] [''b''] copy_host)) [''b''] = Some ''new''"
proof -
  have "fst (reflink_or_copy (\<lambda>a b. False) [''a''] [''b''] copy_host) = Ok False" by code_simp
  then have r: "reflink_or_copy (\<lambda>a b. False) [''a''] [''b''] copy_host =
      (Ok False, snd (reflink_or_copy (\<lambda>a b. False) [''a''] [''b''] copy_host))"
    by (metis prod.collapse)
  have "fs_ok copy_host" by code_simp
  from reflink_or_copy_contents [OF r this, of 0]
  show ?thesis by (simp add: copy_host_def plain_host_def lookup_def plain_def inode_def)
qed

end
