(* ===== verification/Keyed_Store.thy ===== *)
theory Keyed_Store
  imports Digest
begin

text \<open>
  Registries kept as one small file per key.  The tag registry and the set of pins are both such
  registries; this theory holds what they share: the contract of a keyed store as a locale, the
  abstract map it refines, and the effect on a directory tree of writing or removing one file.
\<close>

section \<open>The contract\<close>

datatype ('k, 'v) key_op = Put 'k 'v | Del 'k

text \<open>What a sequence of operations does to an abstract map, and to a concrete store.\<close>

fun run_map :: "('k, 'v) key_op list \<Rightarrow> ('k \<Rightarrow> 'v option) \<Rightarrow> 'k \<Rightarrow> 'v option" where
  "run_map [] m = m"
| "run_map (Put k v # os) m = run_map os (m(k \<mapsto> v))"
| "run_map (Del k # os) m = run_map os (m(k := None))"

fun run_store :: "('k \<Rightarrow> 'v \<Rightarrow> 's \<Rightarrow> 's) \<Rightarrow> ('k \<Rightarrow> 's \<Rightarrow> 's) \<Rightarrow> ('k, 'v) key_op list \<Rightarrow> 's \<Rightarrow> 's" where
  "run_store put del [] s = s"
| "run_store put del (Put k v # os) s = run_store put del os (put k v s)"
| "run_store put del (Del k # os) s = run_store put del os (del k s)"

fun op_valid :: "('k \<Rightarrow> bool) \<Rightarrow> ('v \<Rightarrow> bool) \<Rightarrow> ('k, 'v) key_op \<Rightarrow> bool" where
  "op_valid vk vv (Put k v) = (vk k \<and> vv v)"
| "op_valid vk vv (Del k) = vk k"

locale keyed_store =
  fixes inv :: "'s \<Rightarrow> bool"
    and valid_key :: "'k \<Rightarrow> bool"
    and valid_value :: "'v \<Rightarrow> bool"
    and look :: "'s \<Rightarrow> 'k \<Rightarrow> 'v option"
    and put :: "'k \<Rightarrow> 'v \<Rightarrow> 's \<Rightarrow> 's"
    and del :: "'k \<Rightarrow> 's \<Rightarrow> 's"
  assumes inv_put: "inv s \<Longrightarrow> valid_key k \<Longrightarrow> valid_value v \<Longrightarrow> inv (put k v s)"
    and inv_del: "inv s \<Longrightarrow> valid_key k \<Longrightarrow> inv (del k s)"
    and look_put: "inv s \<Longrightarrow> valid_key k \<Longrightarrow> valid_value v \<Longrightarrow> valid_key k' \<Longrightarrow>
      look (put k v s) k' = (if k' = k then Some v else look s k')"
    and look_del: "inv s \<Longrightarrow> valid_key k \<Longrightarrow> valid_key k' \<Longrightarrow>
      look (del k s) k' = (if k' = k then None else look s k')"
begin

lemma run_inv:
  "inv s \<Longrightarrow> list_all (op_valid valid_key valid_value) os \<Longrightarrow> inv (run_store put del os s)"
proof (induction os arbitrary: s)
  case (Cons a os)
  then show ?case by (cases a) (simp_all add: inv_put inv_del)
qed simp

lemma run_map_cong:
  fixes m m' :: "'k \<Rightarrow> 'v option"
  assumes "\<forall>k. valid_key k \<longrightarrow> m k = m' k" and "valid_key k"
  shows "run_map os m k = run_map os m' k"
  using assms(1)
proof (induction os arbitrary: m m')
  case Nil
  with assms(2) show ?case by simp
next
  case (Cons a os)
  show ?case
  proof (cases a)
    case (Put k1 v)
    from Cons.prems have "\<forall>k. valid_key k \<longrightarrow> (m(k1 \<mapsto> v)) k = (m'(k1 \<mapsto> v)) k" by simp
    from Cons.IH [OF this] show ?thesis unfolding Put run_map.simps .
  next
    case (Del k1)
    from Cons.prems have "\<forall>k. valid_key k \<longrightarrow> (m(k1 := None)) k = (m'(k1 := None)) k" by simp
    from Cons.IH [OF this] show ?thesis unfolding Del run_map.simps .
  qed
qed

text \<open>A store refines the abstract map over any sequence of valid operations.\<close>

lemma run_refines:
  "inv s \<Longrightarrow> list_all (op_valid valid_key valid_value) os \<Longrightarrow> valid_key k \<Longrightarrow>
   look (run_store put del os s) k = run_map os (look s) k"
proof (induction os arbitrary: s)
  case (Cons a os)
  show ?case
  proof (cases a)
    case (Put k1 v)
    with Cons.prems have v: "valid_key k1" "valid_value v" "list_all (op_valid valid_key valid_value) os"
      by simp_all
    have "look (run_store put del os (put k1 v s)) k = run_map os (look (put k1 v s)) k"
      using Cons.IH [OF inv_put [OF Cons.prems(1) v(1,2)] v(3) Cons.prems(3)] .
    also have "\<dots> = run_map os ((look s)(k1 \<mapsto> v)) k"
      by (rule run_map_cong [OF _ Cons.prems(3)]) (simp add: look_put Cons.prems(1) v)
    finally show ?thesis by (simp add: Put)
  next
    case (Del k1)
    with Cons.prems have v: "valid_key k1" "list_all (op_valid valid_key valid_value) os"
      by simp_all
    have "look (run_store put del os (del k1 s)) k = run_map os (look (del k1 s)) k"
      using Cons.IH [OF inv_del [OF Cons.prems(1) v(1)] v(2) Cons.prems(3)] .
    also have "\<dots> = run_map os ((look s)(k1 := None)) k"
      by (rule run_map_cong [OF _ Cons.prems(3)]) (simp add: look_del Cons.prems(1) v)
    finally show ?thesis by (simp add: Del)
  qed
qed simp

end

section \<open>A directory tree that belongs to one registry\<close>

text \<open>
  \<open>owned T h\<close>: the directory \<open>T\<close> is there, holds no symbolic link below it, and the files below it
  share their inodes with no other entry; the kernel refuses nothing.
\<close>

definition owned :: "path \<Rightarrow> host \<Rightarrow> bool" where
  "owned T h = (fs_ok h \<and> fault_free h \<and> path_ok T \<and> nul_free T \<and> lookup h T = Some Dir \<and>
     (\<forall>p. prefix T p \<longrightarrow> plain h p) \<and>
     (\<forall>p q i. prefix T p \<longrightarrow> lookup h p = Some (File i) \<longrightarrow> lookup h q = Some (File i) \<longrightarrow> p = q))"

lemma ownedD:
  assumes "owned T h"
  shows "fs_ok h" "fault_free h" "path_ok T" "nul_free T" "lookup h T = Some Dir"
    "prefix T p \<Longrightarrow> plain h p"
    "prefix T p \<Longrightarrow> lookup h p = Some (File i) \<Longrightarrow> lookup h q = Some (File i) \<Longrightarrow> p = q"
  using assms by (auto simp: owned_def)

lemma owned_file_fresh: "owned T h \<Longrightarrow> lookup h p = Some (File i) \<Longrightarrow> i < next_ino h"
  using fs_ok_lookupD(4) [of h p "File i"] by (cases "p = []") (auto simp: owned_def node_ok_def)

text \<open>The file written by \<open>File::create\<close> and \<open>write_all\<close> at one path of the tree.\<close>

definition written :: "path \<Rightarrow> bytes \<Rightarrow> host \<Rightarrow> host \<Rightarrow> bool" where
  "written p bs h h' =
     ((\<exists>i. lookup h' p = Some (File i) \<and> content (inode h' i) = bs) \<and>
      (\<forall>q. q \<noteq> p \<longrightarrow> lookup h' q = lookup h q) \<and>
      (\<forall>q i. q \<noteq> p \<longrightarrow> lookup h q = Some (File i) \<longrightarrow> inode h' i = inode h i) \<and>
      fault h' = fault h)"

lemma write_owned:
  assumes own: "owned T h" and p: "prefix T p" "path_ok p" "nul_free p" "p \<noteq> T"
    and no_dir: "lookup h p \<noteq> Some Dir" and parent: "lookup h (butlast p) = Some Dir"
  shows "\<exists>i h1 h2. create_file p h = (Ok i, h1) \<and> content (inode h1 i) = [] \<and>
     write_all p i bs h1 = (Ok (), h2) \<and>
     written p [] h h1 \<and> owned T h1 \<and> written p bs h h2 \<and> owned T h2"
proof -
  note O = ownedD [OF own]
  have pl: "plain h p" by (rule O(6) [OF p(1)])
  have pne: "p \<noteq> []" using p(1,4) by auto
  have no_ref: "refuse h Op_create p = None" using O(2) p(3) by (rule refuse_fault_free)
  have "\<exists>i h1. create_file p h = (Ok i, h1)"
    using pl no_dir parent no_ref
    by (auto simp: create_file_def resolve_plain parent_problem_def plain_def
        split: option.splits node.splits)
  then obtain i h1 where c: "create_file p h = (Inr i, h1)" by blast
  note L = create_file_lookup [OF c pl]
  have i: "lookup h q = Some (File i) \<Longrightarrow> q = p" for q
    using create_file_Ok [OF c pl] O(7) [OF p(1)] owned_file_fresh [OF own, of q i] by auto
  have ff1: "fault_free h1" using O(2) L(5) by (simp add: fault_free_def)
  define h2 where "h2 = put_inode i \<lparr>content = content (inode h1 i) @ bs, mtime = now h1\<rparr> h1"
  have w: "write_all p i bs h1 = (Inr (), h2)"
    using refuse_fault_free [OF ff1 p(3)] by (simp add: write_all_def h2_def)
  have own1: "owned T h1"
    unfolding owned_def
  proof (intro conjI allI impI)
    show "fs_ok h1" using create_file_fs_ok [OF c O(1) p(2)] .
    show "fault_free h1" by (rule ff1)
    show "path_ok T" "nul_free T" by (rule O)+
    show "lookup h1 T = Some Dir" using L(2) [of T] p(4) O(5) by simp
    show "plain h1 q" if "prefix T q" for q
      using create_file_plain [OF c pl, of q] O(6) [OF that] by simp
    show "q = q'" if "prefix T q" "lookup h1 q = Some (File j)" "lookup h1 q' = Some (File j)" for q q' j
    proof (cases "j = i")
      case True
      have "q = p" "q' = p" using that(2,3) i L(2) True by metis+
      then show ?thesis by simp
    next
      case False
      then have "q \<noteq> p" "q' \<noteq> p" using that(2,3) L(1) by auto
      then show ?thesis using that(2,3) L(2) O(7) [OF that(1)] by metis
    qed
  qed
  have look2: "lookup h2 q = lookup h1 q" for q by (simp add: h2_def fs_simps)
  have "owned T h2"
    using own1 by (simp add: owned_def h2_def plain_def fs_simps)
  moreover have other: "j \<noteq> i" if "q \<noteq> p" "lookup h q = Some (File j)" for q j
    using i that by blast
  have "written p [] h h1"
    unfolding written_def using L other by simp
  moreover have "written p bs h h2"
    unfolding written_def look2 using L other by (simp add: h2_def fs_simps)
  ultimately show ?thesis using c w L(3) own1 by blast
qed

lemma remove_owned:
  assumes own: "owned T h" and p: "prefix T p" "p \<noteq> T" and f: "lookup h p = Some (File i)"
  shows "\<exists>h'. remove_file p h = (Ok (), h') \<and> owned T h' \<and> lookup h' p = None \<and>
     (\<forall>q. q \<noteq> p \<longrightarrow> lookup h' q = lookup h q) \<and> (\<forall>j. inode h' j = inode h j)"
proof -
  note O = ownedD [OF own]
  have pne: "p \<noteq> []" using f by auto
  have "refuse h Op_unlink p = None"
    using O(2) fs_ok_lookupD(2) [OF O(1) f pne] by (rule refuse_fault_free)
  with f have r: "remove_file p h = (Ok (), del_ent p h)" by (simp add: remove_file_def)
  have "owned T (del_ent p h)"
    using own p(2) f remove_file_fs_ok [OF r O(1)]
    by (auto simp: owned_def fs_simps plain_def)
  with r pne show ?thesis by (auto simp: fs_simps)
qed

text \<open>Making the directory of a key inside the tree.\<close>

lemma create_dir_all_child:
  assumes own: "owned T h" and p: "prefix T p" "path_ok p" "nul_free p" "p \<noteq> T"
    and no_file: "lookup h p = None \<or> lookup h p = Some Dir" and parent: "lookup h (butlast p) = Some Dir"
  shows "\<exists>h'. create_dir_all p h = (Ok (), h') \<and> owned T h' \<and> lookup h' p = Some Dir \<and>
     (\<forall>q. q \<noteq> p \<longrightarrow> lookup h' q = lookup h q) \<and> (\<forall>j. inode h' j = inode h j) \<and> fault h' = fault h"
proof -
  note O = ownedD [OF own]
  have pne: "p \<noteq> []" using p(1,4) by auto
  have ref: "refuse h op p = None" for op using O(2) p(3) by (rule refuse_fault_free)
  show ?thesis
  proof (cases "lookup h p")
    case None
    then have m: "mkdir p h = (Ok (), put_ent p Dir h)"
      using parent by (simp add: mkdir_def ref parent_problem_def)
    then have "create_dir_all p h = (Ok (), put_ent p Dir h)"
      using pne by (simp add: create_dir_all.simps [of p h])
    moreover have "owned T (put_ent p Dir h)"
      using own p(4) mkdir_fs_ok [OF m O(1) p(2)] by (auto simp: owned_def fs_simps plain_def)
    ultimately show ?thesis using pne by (auto simp: fs_simps)
  next
    case (Some nd)
    with no_file have dir: "lookup h p = Some Dir" by simp
    then have "mkdir p h = (Err e_exists, h)" by (simp add: mkdir_def ref)
    moreover have "is_dir h p" using dir by (simp add: is_dir_def ref stat_lookup)
    ultimately have "create_dir_all p h = (Ok (), h)"
      using pne by (simp add: create_dir_all.simps [of p h] e_exists_def)
    with dir own show ?thesis by auto
  qed
qed

text \<open>Reads inside the tree.\<close>

lemma owned_is_file:
  "owned T h \<Longrightarrow> prefix T p \<Longrightarrow> nul_free p \<Longrightarrow> is_file h p \<longleftrightarrow> (\<exists>i. lookup h p = Some (File i))"
  using stat_plain [of h p] ownedD(6) [of T h p]
  by (auto simp: is_file_def refuse_fault_free ownedD(2) split: option.splits node.splits)

lemma owned_open:
  "owned T h \<Longrightarrow> nul_free p \<Longrightarrow> lookup h p = Some (File i) \<Longrightarrow> open_file h p = Ok (File i)"
  by (simp add: open_file_def refuse_fault_free ownedD(2) stat_lookup)

lemma owned_read:
  "owned T h \<Longrightarrow> nul_free p \<Longrightarrow> read_node h p (File i) = Ok (content (inode h i))"
  by (simp add: read_node_def refuse_fault_free ownedD(2))

end
