(* ===== verification/Tag_Registry.thy ===== *)
theory Tag_Registry
  imports Keyed_Store
begin

text \<open>
  The tag registry (\<^verbatim>\<open>cas/tags.rs\<close>): one file per \<open>name:tag\<close> holding a digest.  The definitions
  follow \<open>validate_tag_segment\<close> and the methods of \<open>TagRegistry\<close>; the lemmas show that no identifier
  leaves the tags directory, that the registry refines a finite map, and what the lists and the
  resolution of identifiers return.
\<close>

section \<open>Segments\<close>

definition tag_byte :: "char \<Rightarrow> bool" where
  "tag_byte b = (is_ascii_alphanumeric b \<or>
     b = CHR ''.'' \<or> b = CHR ''-'' \<or> b = CHR ''_'' \<or> b = CHR ''+'')"

definition validate_tag_segment :: "string \<Rightarrow> string res" where
  "validate_tag_segment segment =
     (if segment = [] then Err (InvalidFormat ''tag name and variant must not be empty'')
      else if segment = ''.'' \<or> segment = ''..'' then
        Err (InvalidFormat (''tag segment '' @ CHR 0x27 # segment @ CHR 0x27 # '' is reserved''))
      else if CHR ''/'' \<in> set segment \<or> CHR 0x5C \<in> set segment \<or> CHR 0x00 \<in> set segment then
        Err (InvalidFormat (''tag segment '' @ CHR 0x27 # segment @ CHR 0x27 # '' contains forbidden characters''))
      else if \<not> list_all tag_byte segment then
        Err (InvalidFormat (''tag segment '' @ CHR 0x27 # segment @ CHR 0x27 #
          '' contains unsupported characters; allowed: [A-Za-z0-9._-+]''))
      else Ok segment)"

text \<open>The accepted segments.\<close>

definition tag_segment :: "string \<Rightarrow> bool" where
  "tag_segment s = (s \<noteq> [] \<and> s \<noteq> ''.'' \<and> s \<noteq> ''..'' \<and> list_all tag_byte s)"

lemma tag_byte_chars:
  "tag_byte c \<Longrightarrow> c \<noteq> CHR ''/'' \<and> c \<noteq> CHR 0x5C \<and> c \<noteq> CHR 0x00 \<and> c \<noteq> CHR '':'' \<and> byte_val c < 0x80"
  by (auto simp: tag_byte_def char_class_defs byte_val_def)

lemma validate_tag_segment_Ok:
  "validate_tag_segment s = Inr t \<longleftrightarrow> tag_segment s \<and> t = s"
proof -
  have "list_all tag_byte s \<Longrightarrow> CHR ''/'' \<notin> set s \<and> CHR 0x5C \<notin> set s \<and> CHR 0x00 \<notin> set s"
    using tag_byte_chars by (auto simp: list_all_iff)
  then show ?thesis by (auto simp: validate_tag_segment_def tag_segment_def)
qed

lemma validate_tag_segment_cases:
  obtains (accepted) "tag_segment s" "validate_tag_segment s = Inr s"
  | (rejected) m where "\<not> tag_segment s" "validate_tag_segment s = Inl (InvalidFormat m)"
proof (cases "tag_segment s")
  case True
  then show ?thesis using accepted validate_tag_segment_Ok by blast
next
  case False
  then have "\<exists>m. validate_tag_segment s = Inl (InvalidFormat m)"
    by (auto simp: validate_tag_segment_def tag_segment_def)
  then show ?thesis using rejected False by blast
qed

lemma tag_segment_segment: "tag_segment s \<Longrightarrow> is_segment s"
  using tag_byte_chars by (auto simp: tag_segment_def is_segment_def list_all_iff)

lemma tag_segment_no_nul: "tag_segment s \<Longrightarrow> CHR 0x00 \<notin> set s"
  using tag_byte_chars by (auto simp: tag_segment_def list_all_iff)

lemma tag_segment_ascii: "tag_segment s \<Longrightarrow> is_ascii s"
  using tag_byte_chars by (auto simp: tag_segment_def is_ascii_def list_all_iff)

lemma tag_segment_no_colon: "tag_segment s \<Longrightarrow> CHR '':'' \<notin> set s"
  using tag_byte_chars by (auto simp: tag_segment_def list_all_iff)

section \<open>The registry\<close>

record model_tag =
  mt_name :: string
  mt_tag :: string
  mt_digest :: string

record tag_registry =
  tags_dir :: path

definition TagRegistry_new :: "path \<Rightarrow> tag_registry act" where
  "TagRegistry_new root h =
     (case create_dir_all (join root ''tags'') h of
        (Inl e, h1) \<Rightarrow> (Err (Io e), h1)
      | (Inr u, h1) \<Rightarrow> (Ok \<lparr>tags_dir = join root ''tags''\<rparr>, h1))"

definition set_tag :: "tag_registry \<Rightarrow> string \<Rightarrow> string \<Rightarrow> string \<Rightarrow> unit act" where
  "set_tag R name tag digest h =
     (case validate_tag_segment name of Inl e \<Rightarrow> (Err e, h) | Inr safe_name \<Rightarrow>
      (case validate_tag_segment tag of Inl e \<Rightarrow> (Err e, h) | Inr safe_tag \<Rightarrow>
       (case validate_digest_format (trim digest) of Inl e \<Rightarrow> (Err e, h) | Inr u \<Rightarrow>
        (let model_dir = join (tags_dir R) safe_name in
         case create_dir_all model_dir h of
           (Inl e, h1) \<Rightarrow> (Err (Io e), h1)
         | (Inr u, h1) \<Rightarrow>
             (let tag_file = join model_dir safe_tag in
              case create_file tag_file h1 of
                (Inl e, h2) \<Rightarrow> (Err (Io e), h2)
              | (Inr i, h2) \<Rightarrow>
                  (case write_all tag_file i (trim digest) h2 of
                     (Inl e, h3) \<Rightarrow> (Err (Io e), h3)
                   | (Inr u, h3) \<Rightarrow> (Ok (), h3)))))))"

definition get_tag :: "tag_registry \<Rightarrow> host \<Rightarrow> string \<Rightarrow> string \<Rightarrow> string option res" where
  "get_tag R h name tag =
     (case validate_tag_segment name of Inl e \<Rightarrow> Err e | Inr u \<Rightarrow>
      (case validate_tag_segment tag of Inl e \<Rightarrow> Err e | Inr u \<Rightarrow>
       (let tag_file = join (join (tags_dir R) name) tag in
        if \<not> is_file h tag_file then Ok None
        else (case open_file h tag_file of Inl e \<Rightarrow> Err (Io e) | Inr nd \<Rightarrow>
          (case read_node h tag_file nd of Inl e \<Rightarrow> Err (Io e) | Inr bs \<Rightarrow>
             if utf8_valid bs then Ok (Some (trim bs)) else Err (Io e_not_utf8))))))"

definition remove_tag :: "tag_registry \<Rightarrow> string \<Rightarrow> string \<Rightarrow> bool act" where
  "remove_tag R name tag h =
     (case validate_tag_segment name of Inl e \<Rightarrow> (Err e, h) | Inr u \<Rightarrow>
      (case validate_tag_segment tag of Inl e \<Rightarrow> (Err e, h) | Inr u \<Rightarrow>
       (let tag_file = join (join (tags_dir R) name) tag in
        if is_file h tag_file then
          (case remove_file tag_file h of
             (Inl e, h1) \<Rightarrow> (Err (Io e), h1)
           | (Inr u, h1) \<Rightarrow> (Ok True, h1))
        else (Ok False, h))))"

text \<open>The two nested loops of \<open>list_tags\<close>, over the files of one model and over the models.\<close>

fun list_model :: "tag_registry \<Rightarrow> host \<Rightarrow> string \<Rightarrow> (string \<times> node) list \<Rightarrow> model_tag list \<Rightarrow> model_tag list res" where
  "list_model R h model_name [] acc = Ok acc"
| "list_model R h model_name ((f, nd) # es) acc =
     (case nd of
        File i \<Rightarrow>
          (let tag_name = from_utf8_lossy f in
           case get_tag R h model_name tag_name of
             Inl e \<Rightarrow> Err e
           | Inr None \<Rightarrow> list_model R h model_name es acc
           | Inr (Some digest) \<Rightarrow> list_model R h model_name es
               (acc @ [\<lparr>mt_name = model_name, mt_tag = tag_name, mt_digest = digest\<rparr>]))
      | _ \<Rightarrow> list_model R h model_name es acc)"

fun list_models :: "tag_registry \<Rightarrow> host \<Rightarrow> (string \<times> node) list \<Rightarrow> model_tag list \<Rightarrow> model_tag list res" where
  "list_models R h [] acc = Ok acc"
| "list_models R h ((f, nd) # es) acc =
     (case nd of
        Dir \<Rightarrow>
          (case read_dir h (tags_dir R @ [f]) of
             Inl e \<Rightarrow> Err (Io e)
           | Inr fs \<Rightarrow>
               (case list_model R h (from_utf8_lossy f) fs acc of
                  Inl e \<Rightarrow> Err e
                | Inr acc' \<Rightarrow> list_models R h es acc'))
      | _ \<Rightarrow> list_models R h es acc)"

definition tag_order :: "model_tag list \<Rightarrow> model_tag list" where
  "tag_order = sort_key (\<lambda>t. (mt_name t, mt_tag t))"

definition list_tags :: "tag_registry \<Rightarrow> host \<Rightarrow> model_tag list res" where
  "list_tags R h =
     (if \<not> is_dir h (tags_dir R) then Ok []
      else (case read_dir h (tags_dir R) of
              Inl e \<Rightarrow> Err (Io e)
            | Inr es \<Rightarrow> map_sum id tag_order (list_models R h es [])))"

definition resolve :: "tag_registry \<Rightarrow> host \<Rightarrow> string \<Rightarrow> string option res" where
  "resolve R h identifier =
     (let trimmed = trim identifier in
      if length trimmed = 64 \<and> list_all is_ascii_hexdigit trimmed then
        (case validate_digest_format trimmed of Inl e \<Rightarrow> Err e | Inr u \<Rightarrow> Ok (Some trimmed))
      else
        (let (name, tag) = (case split_once (CHR '':'') trimmed of
                Some (n, t) \<Rightarrow> (n, t) | None \<Rightarrow> (trimmed, ''latest'')) in
         case validate_tag_segment name of Inl e \<Rightarrow> Err e | Inr u \<Rightarrow>
         (case validate_tag_segment tag of Inl e \<Rightarrow> Err e | Inr u \<Rightarrow> get_tag R h name tag)))"

section \<open>The registry as a map\<close>

definition tag_path :: "tag_registry \<Rightarrow> string \<Rightarrow> string \<Rightarrow> path" where
  "tag_path R n t = tags_dir R @ [n, t]"

text \<open>
  A registry in order: the tags directory owns its files, its entries are directories with accepted
  names, and their entries are files with accepted names that hold a digest.
\<close>

definition tags_inv :: "tag_registry \<Rightarrow> host \<Rightarrow> bool" where
  "tags_inv R h = (owned (tags_dir R) h \<and>
     (\<forall>n nd. lookup h (tags_dir R @ [n]) = Some nd \<longrightarrow> nd = Dir \<and> tag_segment n) \<and>
     (\<forall>n t nd. lookup h (tag_path R n t) = Some nd \<longrightarrow> tag_segment t \<and>
        (\<exists>i. nd = File i \<and> is_digest_format (content (inode h i)))))"

definition tag_view :: "tag_registry \<Rightarrow> host \<Rightarrow> string \<times> string \<Rightarrow> string option" where
  "tag_view R h = (\<lambda>(n, t). case lookup h (tag_path R n t) of
     Some (File i) \<Rightarrow> Some (content (inode h i)) | _ \<Rightarrow> None)"

definition tag_key :: "string \<times> string \<Rightarrow> bool" where
  "tag_key = (\<lambda>(n, t). tag_segment n \<and> tag_segment t)"

lemma tags_invD:
  assumes "tags_inv R h"
  shows "owned (tags_dir R) h"
    "lookup h (tags_dir R @ [n]) = Some nd \<Longrightarrow> nd = Dir \<and> tag_segment n"
    "lookup h (tag_path R n t) = Some nd \<Longrightarrow> tag_segment t"
    "lookup h (tag_path R n t) = Some nd \<Longrightarrow> \<exists>i. nd = File i \<and> is_digest_format (content (inode h i))"
  using assms unfolding tags_inv_def by blast+

lemma tag_path_neq: "tag_path R n t \<noteq> tags_dir R @ [n']" "tag_path R n t \<noteq> tags_dir R"
  "tag_path R n t = tag_path R n' t' \<longleftrightarrow> n = n' \<and> t = t'" "butlast (tag_path R n t) = tags_dir R @ [n]"
  by (auto simp: tag_path_def butlast_append)

lemma join_tag:
  "tag_segment n \<Longrightarrow> join p n = p @ [n]"
  by (simp add: join_segment tag_segment_segment)

lemma join_tag_path:
  "tag_segment n \<Longrightarrow> tag_segment t \<Longrightarrow> join (join (tags_dir R) n) t = tag_path R n t"
  by (simp add: join_tag tag_path_def)

lemma tag_path_ok:
  assumes "owned (tags_dir R) h" and "tag_segment n" and "tag_segment t"
  shows "path_ok (tag_path R n t)" "nul_free (tag_path R n t)" "prefix (tags_dir R) (tag_path R n t)"
  using ownedD(3,4) [OF assms(1)] assms(2,3)
  by (simp_all add: tag_path_def tag_segment_no_nul path_ok_def tag_segment_segment)

text \<open>A write at one tag: the registry stays in order and the map is updated at one point.\<close>

lemma tags_inv_written:
  assumes inv: "tags_inv R h" and own: "owned (tags_dir R) h'"
    and w: "written (tag_path R n t) d h h'" and d: "is_digest_format d" and t: "tag_segment t"
  shows "tags_inv R h' \<and> tag_view R h' = (tag_view R h)((n, t) \<mapsto> d)"
proof -
  obtain i where i: "lookup h' (tag_path R n t) = Some (File i)" "content (inode h' i) = d"
    using w by (auto simp: written_def)
  have look: "q \<noteq> tag_path R n t \<Longrightarrow> lookup h' q = lookup h q" for q
    using w by (simp add: written_def)
  have ino: "q \<noteq> tag_path R n t \<Longrightarrow> lookup h q = Some (File j) \<Longrightarrow> inode h' j = inode h j" for q j
    using w by (simp add: written_def)
  have "tags_inv R h'"
    unfolding tags_inv_def
  proof (intro conjI allI impI own)
    fix m nd assume "lookup h' (tags_dir R @ [m]) = Some nd"
    then have *: "lookup h (tags_dir R @ [m]) = Some nd"
      using look [of "tags_dir R @ [m]"] by (auto simp: tag_path_def)
    from tags_invD(2) [OF inv *] show "nd = Dir" "tag_segment m" by auto
  next
    fix m u nd assume l: "lookup h' (tag_path R m u) = Some nd"
    show "tag_segment u"
      using l look [of "tag_path R m u"] t tags_invD(3) [OF inv, of m u nd]
      by (cases "tag_path R m u = tag_path R n t") (auto simp: tag_path_neq(3))
    show "\<exists>i. nd = File i \<and> is_digest_format (content (inode h' i))"
    proof (cases "tag_path R m u = tag_path R n t")
      case True
      with l i d show ?thesis by auto
    next
      case False
      with l look have "lookup h (tag_path R m u) = Some nd" by simp
      with tags_invD(4) [OF inv this] ino [OF False] show ?thesis by auto
    qed
  qed
  moreover have "tag_view R h' (m, u) = ((tag_view R h)((n, t) \<mapsto> d)) (m, u)" for m u
  proof (cases "tag_path R m u = tag_path R n t")
    case True
    then show ?thesis using i by (simp add: tag_view_def tag_path_neq(3))
  next
    case False
    have "inode h' j = inode h j" if "lookup h (tag_path R m u) = Some (File j)" for j
      using ino [OF False that] .
    then show ?thesis
      using look [OF False] False
      by (auto simp: tag_view_def tag_path_neq(3) split: option.split node.split)
  qed
  ultimately show ?thesis by auto
qed

text \<open>Making the directory of a name changes neither the order nor the map.\<close>

lemma set_tag_dir:
  assumes inv: "tags_inv R h" and n: "tag_segment n"
  obtains h1 where "create_dir_all (tags_dir R @ [n]) h = (Ok (), h1)" "tags_inv R h1" "tag_view R h1 = tag_view R h"
    "lookup h1 (tags_dir R @ [n]) = Some Dir"
proof -
  note O = tags_invD(1) [OF inv]
  let ?m = "tags_dir R @ [n]"
  have m: "prefix (tags_dir R) ?m" "path_ok ?m" "nul_free ?m" "?m \<noteq> tags_dir R"
    using ownedD(3,4) [OF O] n by (simp_all add: tag_segment_no_nul path_ok_def tag_segment_segment)
  have "lookup h ?m = None \<or> lookup h ?m = Some Dir"
    using tags_invD(2) [OF inv, of n] by (cases "lookup h ?m") auto
  from create_dir_all_child [OF O m this] ownedD(5) [OF O] obtain h1
    where c: "create_dir_all ?m h = (Ok (), h1)" and O1: "owned (tags_dir R) h1"
      and dir: "lookup h1 ?m = Some Dir" and look1: "\<And>q. q \<noteq> ?m \<Longrightarrow> lookup h1 q = lookup h q"
      and ino1: "\<And>j. inode h1 j = inode h j"
    by auto
  have view1: "tag_view R h1 = tag_view R h"
    using look1 ino1 tag_path_neq(1) by (intro ext) (auto simp: tag_view_def split: option.split node.split)
  have inv1: "tags_inv R h1"
    unfolding tags_inv_def
  proof (intro conjI allI impI O1)
    fix m nd assume "lookup h1 (tags_dir R @ [m]) = Some nd"
    then show "nd = Dir" "tag_segment m"
      using dir look1 n tags_invD(2) [OF inv, of m nd] by (cases "m = n"; auto)+
  next
    fix m u nd assume "lookup h1 (tag_path R m u) = Some nd"
    then have "lookup h (tag_path R m u) = Some nd" using look1 tag_path_neq(1) by metis
    with tags_invD(3,4) [OF inv this] ino1
    show "tag_segment u" "\<exists>i. nd = File i \<and> is_digest_format (content (inode h1 i))" by auto
  qed
  from c inv1 view1 dir show thesis by (rule that)
qed

text \<open>Then the file is created, which empties it, and written.\<close>

lemma set_tag_file:
  assumes inv: "tags_inv R h" and n: "tag_segment n" and t: "tag_segment t" and dir: "lookup h (tags_dir R @ [n]) = Some Dir"
  obtains i h1 h2 where "create_file (tag_path R n t) h = (Ok i, h1)" "write_all (tag_path R n t) i d h1 = (Ok (), h2)"
    "written (tag_path R n t) [] h h1" "owned (tags_dir R) h1" "written (tag_path R n t) d h h2" "owned (tags_dir R) h2"
proof -
  note O = tags_invD(1) [OF inv]
  have "lookup h (tag_path R n t) \<noteq> Some Dir" using tags_invD(4) [OF inv, of n t] by force
  with write_owned [OF O tag_path_ok(3,1,2) [OF O n t] tag_path_neq(2), of d] dir that show thesis
    by (auto simp: tag_path_neq(4))
qed

lemma set_tag_inv:
  assumes inv: "tags_inv R h" and n: "tag_segment n" and t: "tag_segment t"
    and d: "is_digest_format (trim d)"
  shows "\<exists>h'. set_tag R n t d h = (Ok (), h') \<and> tags_inv R h' \<and>
     tag_view R h' = (tag_view R h)((n, t) \<mapsto> trim d)"
proof -
  obtain h1 where D: "create_dir_all (tags_dir R @ [n]) h = (Ok (), h1)" "tags_inv R h1" "tag_view R h1 = tag_view R h"
    "lookup h1 (tags_dir R @ [n]) = Some Dir" using set_tag_dir [OF inv n] .
  obtain i h2 h3 where F: "create_file (tag_path R n t) h1 = (Ok i, h2)" "write_all (tag_path R n t) i (trim d) h2 = (Ok (), h3)"
    "written (tag_path R n t) (trim d) h1 h3" "owned (tags_dir R) h3" using set_tag_file [OF D(2) n t D(4), of "trim d"] by blast
  have "set_tag R n t d h = (Ok (), h3)"
    using n t d D(1) F by (simp add: set_tag_def validate_tag_segment_Ok [THEN iffD2]
        validate_digest_format_def join_tag tag_path_def Let_def)
  with tags_inv_written [OF D(2) F(4,3) d t] D(3) show ?thesis by auto
qed

lemma remove_tag_inv:
  assumes inv: "tags_inv R h" and n: "tag_segment n" and t: "tag_segment t"
  shows "\<exists>h'. remove_tag R n t h = (Ok (tag_view R h (n, t) \<noteq> None), h') \<and> tags_inv R h' \<and>
     tag_view R h' = (tag_view R h)((n, t) := None)"
proof -
  note O = tags_invD(1) [OF inv]
  let ?p = "tag_path R n t"
  note P = tag_path_ok [OF O n t]
  have isf: "is_file h ?p \<longleftrightarrow> (\<exists>i. lookup h ?p = Some (File i))"
    by (rule owned_is_file [OF O P(3,2)])
  show ?thesis
  proof (cases "\<exists>i. lookup h ?p = Some (File i)")
    case True
    then obtain i where i: "lookup h ?p = Some (File i)" by blast
    from remove_owned [OF O P(3) tag_path_neq(2) i] obtain h'
      where r: "remove_file ?p h = (Ok (), h')" and O': "owned (tags_dir R) h'"
        and l: "lookup h' ?p = None" "\<And>q. q \<noteq> ?p \<Longrightarrow> lookup h' q = lookup h q"
        and ino: "\<And>j. inode h' j = inode h j" by auto
    have "tags_inv R h'"
      unfolding tags_inv_def
    proof (intro conjI allI impI O')
      fix m nd assume "lookup h' (tags_dir R @ [m]) = Some nd"
      then have *: "lookup h (tags_dir R @ [m]) = Some nd" using l(2) tag_path_neq(1) by metis
      from tags_invD(2) [OF inv *] show "nd = Dir" "tag_segment m" by auto
    next
      fix m u nd assume l': "lookup h' (tag_path R m u) = Some nd"
      then have "lookup h (tag_path R m u) = Some nd"
        using l by (cases "tag_path R m u = ?p") auto
      with tags_invD(3,4) [OF inv this] ino
      show "tag_segment u" "\<exists>i. nd = File i \<and> is_digest_format (content (inode h' i))" by auto
    qed
    moreover have "tag_view R h' (m, u) = ((tag_view R h)((n, t) := None)) (m, u)" for m u
      using l ino by (cases "tag_path R m u = ?p")
        (auto simp: tag_view_def tag_path_neq(3) split: option.split node.split)
    moreover have "remove_tag R n t h = (Ok True, h')"
      using n t r isf i by (simp add: remove_tag_def validate_tag_segment_Ok [THEN iffD2] join_tag_path Let_def)
    ultimately show ?thesis using i by (auto simp: tag_view_def)
  next
    case False
    then have "tag_view R h (n, t) = None"
      by (auto simp: tag_view_def split: option.split node.split)
    moreover have "remove_tag R n t h = (Ok False, h)"
      using n t isf False by (simp add: remove_tag_def validate_tag_segment_Ok [THEN iffD2] join_tag_path Let_def)
    ultimately show ?thesis using inv by (auto simp: fun_upd_idem)
  qed
qed

interpretation tags: keyed_store "tags_inv R" tag_key is_digest_format "tag_view R"
  "\<lambda>(n, t) d h. snd (set_tag R n t d h)" "\<lambda>(n, t) h. snd (remove_tag R n t h)" for R
proof (unfold_locales, goal_cases)
  case (1 h k d)
  obtain n t where k: "k = (n, t)" by (cases k)
  with 1 set_tag_inv [of R h n t d] show ?case by (auto simp: tag_key_def digest_format_trim)
next
  case (2 h k)
  obtain n t where k: "k = (n, t)" by (cases k)
  with 2 remove_tag_inv [of R h n t] show ?case by (auto simp: tag_key_def)
next
  case (3 h k d k')
  obtain n t where k: "k = (n, t)" by (cases k)
  with 3 set_tag_inv [of R h n t d] show ?case
    by (auto simp: tag_key_def digest_format_trim split: if_splits)
next
  case (4 h k k')
  obtain n t where k: "k = (n, t)" by (cases k)
  with 4 remove_tag_inv [of R h n t] show ?case by (auto simp: tag_key_def split: if_splits)
qed

section \<open>Reading the registry\<close>

lemma tag_view_Some:
  "tag_view R h (n, t) = Some d \<longleftrightarrow>
   (\<exists>i. lookup h (tag_path R n t) = Some (File i) \<and> content (inode h i) = d)"
  by (auto simp: tag_view_def split: option.splits node.splits)

lemma tag_view_digest: "tags_inv R h \<Longrightarrow> tag_view R h (n, t) = Some d \<Longrightarrow> is_digest_format d"
  using tags_invD(4) by (fastforce simp: tag_view_Some)

lemma digest_format_ascii: "is_digest_format d \<Longrightarrow> is_ascii d"
  using digest_format_chars by (fastforce simp: is_ascii_def list_all_iff char_class_defs)

text \<open>What \<open>get_tag\<close> returns is what the file holds, when that is text without spaces around it.\<close>

lemma get_tag_owned:
  assumes O: "owned (tags_dir R) h" and n: "tag_segment n" and t: "tag_segment t"
    and ascii: "\<And>d. tag_view R h (n, t) = Some d \<Longrightarrow> is_ascii d \<and> trim d = d"
  shows "get_tag R h n t = Ok (tag_view R h (n, t))"
proof -
  note P = tag_path_ok [OF O n t]
  let ?p = "tag_path R n t"
  have isf: "is_file h ?p \<longleftrightarrow> (\<exists>i. lookup h ?p = Some (File i))"
    by (rule owned_is_file [OF O P(3,2)])
  show ?thesis
  proof (cases "tag_view R h (n, t)")
    case None
    then have "\<not> is_file h ?p" unfolding isf by (metis option.distinct(1) tag_view_Some)
    with None n t show ?thesis
      by (simp add: get_tag_def validate_tag_segment_Ok [THEN iffD2] join_tag_path Let_def)
  next
    case (Some d)
    then obtain i where i: "lookup h ?p = Some (File i)" "content (inode h i) = d"
      by (auto simp: tag_view_Some)
    with ascii [OF Some] isf n t Some show ?thesis
      by (simp add: get_tag_def validate_tag_segment_Ok [THEN iffD2] join_tag_path Let_def
          owned_open [OF O P(2) i(1)] owned_read [OF O P(2)] ascii_utf8_valid)
  qed
qed

lemma get_tag_view:
  assumes inv: "tags_inv R h" and n: "tag_segment n" and t: "tag_segment t"
  shows "get_tag R h n t = Ok (tag_view R h (n, t))"
proof (rule get_tag_owned [OF tags_invD(1) [OF inv] n t])
  show "is_ascii d \<and> trim d = d" if "tag_view R h (n, t) = Some d" for d
    using tag_view_digest [OF inv that] by (simp add: digest_format_ascii digest_format_trim)
qed

lemma validate_not_segment: "\<not> tag_segment s \<Longrightarrow> \<exists>m. validate_tag_segment s = Inl (InvalidFormat m)"
  by (cases s rule: validate_tag_segment_cases) auto

lemma get_tag_rejects:
  assumes "\<not> tag_segment n \<or> \<not> tag_segment t"
  shows "\<exists>m. get_tag R h n t = Err (InvalidFormat m)"
proof (cases "tag_segment n")
  case True
  with assms validate_not_segment [of t] show ?thesis
    by (auto simp: get_tag_def validate_tag_segment_Ok [THEN iffD2])
next
  case False
  with validate_not_segment [of n] show ?thesis by (auto simp: get_tag_def)
qed

subsection \<open>Listing\<close>

definition model_row :: "string \<Rightarrow> string \<Rightarrow> bytes \<Rightarrow> model_tag" where
  "model_row n t d = \<lparr>mt_name = n, mt_tag = t, mt_digest = d\<rparr>"

definition file_bytes :: "host \<Rightarrow> node \<Rightarrow> bytes" where
  "file_bytes h nd = (case nd of File i \<Rightarrow> content (inode h i) | _ \<Rightarrow> [])"

lemma list_model_rows:
  assumes inv: "tags_inv R h" and n: "tag_segment n"
    and es: "\<forall>(t, nd) \<in> set es. lookup h (tag_path R n t) = Some nd"
  shows "list_model R h n es acc = Ok (acc @ map (\<lambda>(t, nd). model_row n t (file_bytes h nd)) es)"
  using es
proof (induction es arbitrary: acc)
  case (Cons e es)
  obtain t nd where e: "e = (t, nd)" by (cases e)
  with Cons.prems have l: "lookup h (tag_path R n t) = Some nd" by simp
  from tags_invD(3,4) [OF inv l] obtain i where t: "tag_segment t" and nd: "nd = File i" by blast
  have "tag_view R h (n, t) = Some (content (inode h i))" using l nd by (simp add: tag_view_Some)
  then have "get_tag R h n t = Ok (Some (content (inode h i)))"
    using get_tag_view [OF inv n t] by simp
  with Cons e nd show ?case
    by (simp add: from_utf8_lossy_ascii [OF tag_segment_ascii [OF t]] model_row_def file_bytes_def)
qed simp

definition rows_of :: "tag_registry \<Rightarrow> host \<Rightarrow> string \<Rightarrow> model_tag list" where
  "rows_of R h n = map (\<lambda>(t, nd). model_row n t (file_bytes h nd)) (children h (tags_dir R @ [n]))"

lemma list_models_rows:
  assumes inv: "tags_inv R h" and es: "\<forall>(n, nd) \<in> set es. lookup h (tags_dir R @ [n]) = Some nd"
  shows "list_models R h es acc = Ok (acc @ concat (map (rows_of R h \<circ> fst) es))"
  using es
proof (induction es arbitrary: acc)
  case (Cons e es)
  note O = tags_invD(1) [OF inv]
  obtain n nd where e: "e = (n, nd)" by (cases e)
  with Cons.prems have l: "lookup h (tags_dir R @ [n]) = Some nd" by simp
  from tags_invD(2) [OF inv l] have nd: "nd = Dir" and n: "tag_segment n" by auto
  have nul: "nul_free (tags_dir R @ [n])"
    using ownedD(4) [OF O] n by (simp add: tag_segment_no_nul)
  have "read_dir h (tags_dir R @ [n]) = Ok (children h (tags_dir R @ [n]))"
    using l nd by (simp add: read_dir_def refuse_fault_free [OF ownedD(2) [OF O] nul] stat_lookup
        resolve_plain plain_def)
  moreover have "\<forall>(t, nd) \<in> set (children h (tags_dir R @ [n])). lookup h (tag_path R n t) = Some nd"
    using children_iff [OF ownedD(1) [OF O]] by (auto simp: tag_path_def)
  ultimately show ?case
    using Cons e nd
    by (simp add: from_utf8_lossy_ascii [OF tag_segment_ascii [OF n]] list_model_rows [OF inv n] rows_of_def)
qed simp

lemma list_tags_rows:
  assumes inv: "tags_inv R h"
  shows "list_tags R h = Ok (tag_order (concat (map (rows_of R h \<circ> fst) (children h (tags_dir R)))))"
proof -
  note O = tags_invD(1) [OF inv]
  have dir: "is_dir h (tags_dir R)"
    using ownedD(2,4,5) [OF O] by (simp add: is_dir_def refuse_fault_free stat_lookup)
  have "read_dir h (tags_dir R) = Ok (children h (tags_dir R))"
    using ownedD(2,4,5) [OF O] by (simp add: read_dir_def refuse_fault_free stat_lookup resolve_plain plain_def)
  moreover have "\<forall>(n, nd) \<in> set (children h (tags_dir R)). lookup h (tags_dir R @ [n]) = Some nd"
    using children_iff [OF ownedD(1) [OF O]] by auto
  ultimately show ?thesis
    using dir by (simp add: list_tags_def list_models_rows [OF inv])
qed

lemma rows_iff:
  assumes inv: "tags_inv R h"
  shows "row \<in> set (concat (map (rows_of R h \<circ> fst) (children h (tags_dir R)))) \<longleftrightarrow>
    tag_view R h (mt_name row, mt_tag row) = Some (mt_digest row)"
proof
  note C = children_iff [OF ownedD(1) [OF tags_invD(1) [OF inv]]]
  assume "row \<in> set (concat (map (rows_of R h \<circ> fst) (children h (tags_dir R))))"
  then obtain n t nd where r: "row = model_row n t (file_bytes h nd)"
    and l: "lookup h (tag_path R n t) = Some nd"
    by (auto simp: rows_of_def C tag_path_def)
  with tags_invD(4) [OF inv l] show "tag_view R h (mt_name row, mt_tag row) = Some (mt_digest row)"
    by (auto simp: tag_view_Some model_row_def file_bytes_def)
next
  note C = children_iff [OF ownedD(1) [OF tags_invD(1) [OF inv]]]
  assume "tag_view R h (mt_name row, mt_tag row) = Some (mt_digest row)"
  then obtain i where l: "lookup h (tag_path R (mt_name row) (mt_tag row)) = Some (File i)"
    and c: "content (inode h i) = mt_digest row" by (auto simp: tag_view_Some)
  have "tag_path R (mt_name row) (mt_tag row) \<noteq> []" by (simp add: tag_path_def)
  from fs_ok_lookupD(3) [OF ownedD(1) [OF tags_invD(1) [OF inv]] l this]
  have "lookup h (tags_dir R @ [mt_name row]) = Some Dir" by (simp only: tag_path_neq(4))
  then have "(mt_name row, Dir) \<in> set (children h (tags_dir R))" by (simp add: C)
  moreover have "row \<in> set (rows_of R h (mt_name row))"
    using l c C [of "mt_tag row" "File i" "tags_dir R @ [mt_name row]"]
    by (intro image_eqI [of _ _ "(mt_tag row, File i)", folded set_map] |
      simp add: rows_of_def tag_path_def model_row_def file_bytes_def)+
  ultimately show "row \<in> set (concat (map (rows_of R h \<circ> fst) (children h (tags_dir R))))"
    by force
qed

lemma rows_distinct:
  assumes inv: "tags_inv R h"
  shows "distinct (map (\<lambda>r. (mt_name r, mt_tag r)) (concat (map (rows_of R h \<circ> fst) (children h (tags_dir R)))))"
proof -
  note ok = ownedD(1) [OF tags_invD(1) [OF inv]]
  have one: "map (\<lambda>r. (mt_name r, mt_tag r)) (rows_of R h n) =
      map (Pair n) (map fst (children h (tags_dir R @ [n])))" for n
    by (simp add: rows_of_def model_row_def case_prod_beta comp_def)
  have "distinct (concat (map (\<lambda>n. map (Pair n) (map fst (children h (tags_dir R @ [n])))) ns))"
    if "distinct ns" for ns
    using that children_distinct [OF ok]
    by (induction ns) (auto simp: distinct_map inj_on_def)
  from this [OF children_distinct [OF ok]]
  show ?thesis by (simp add: map_concat one comp_def)
qed

text \<open>A registry with the tag \<^verbatim>\<open>m:v\<close> for the witnesses.\<close>

definition demo_digest :: string where
  "demo_digest = replicate 64 (CHR ''a'')"

definition demo_registry :: tag_registry where
  "demo_registry = \<lparr>tags_dir = [''t'']\<rparr>"

definition demo_tags :: host where
  "demo_tags = plain_host [([''t''], Dir), ([''t'', ''m''], Dir), ([''t'', ''m'', ''v''], File 0)]
     [(0, \<lparr>content = demo_digest, mtime = 0\<rparr>)]"

lemma demo_tags_lookup:
  "lookup demo_tags q = (if q = [] \<or> q = [''t''] \<or> q = [''t'', ''m''] then Some Dir
     else if q = [''t'', ''m'', ''v''] then Some (File 0) else None)"
  by (simp add: lookup_def demo_tags_def plain_host_def)

lemma demo_tags_inv: "tags_inv demo_registry demo_tags"
proof -
  have ok: "fs_ok demo_tags" by code_simp
  have seg: "tag_segment ''m''" "tag_segment ''v''" by code_simp+
  have "content (inode demo_tags 0) = demo_digest"
    by (simp add: demo_tags_def plain_host_def inode_def)
  moreover have "is_digest_format demo_digest" by code_simp
  moreover have "owned [''t''] demo_tags"
    unfolding owned_def plain_def demo_tags_lookup
    by (auto simp: ok path_ok_def is_segment_def) (simp add: demo_tags_def)
  ultimately show ?thesis
    using seg by (auto simp: tags_inv_def demo_registry_def tag_path_def demo_tags_lookup)
qed

definition ident_parts :: "string \<Rightarrow> string \<times> string" where
  "ident_parts s = (case split_once (CHR '':'') s of Some nt \<Rightarrow> nt | None \<Rightarrow> (s, ''latest''))"

section \<open>Properties of the registry\<close>

text \<open>
  C12. The registry is a map.  On a registry in order, any sequence of \<open>set_tag\<close> and \<open>remove_tag\<close>
  calls on accepted names leaves it in order, and \<open>get_tag\<close> then returns for every accepted
  \<open>name:tag\<close> what the same sequence of updates makes of the map it was before.
\<close>

theorem tags_refine_map:
  assumes "tags_inv R h" and "list_all (op_valid tag_key is_digest_format) ops"
    and "tag_segment n" and "tag_segment t"
  defines "h' \<equiv> run_store (\<lambda>(n, t) d h. snd (set_tag R n t d h))
      (\<lambda>(n, t) h. snd (remove_tag R n t h)) ops h"
  shows "tags_inv R h' \<and> get_tag R h' n t = Ok (run_map ops (tag_view R h) (n, t))"
proof
  show inv: "tags_inv R h'" unfolding h'_def by (rule tags.run_inv [OF assms(1,2)])
  have "tag_key (n, t)" using assms(3,4) by (simp add: tag_key_def)
  from tags.run_refines [OF assms(1,2) this]
  show "get_tag R h' n t = Ok (run_map ops (tag_view R h) (n, t))"
    using get_tag_view [OF inv assms(3,4)] unfolding h'_def by simp
qed

theorem tags_refine_map_witness:
  "get_tag demo_registry
     (run_store (\<lambda>(n, t) d h. snd (set_tag demo_registry n t d h))
        (\<lambda>(n, t) h. snd (remove_tag demo_registry n t h))
        [Put (''n'', ''w'') demo_digest, Del (''m'', ''v'')] demo_tags) ''n'' ''w'' = Ok (Some demo_digest)"
proof -
  have "list_all (op_valid tag_key is_digest_format) [Put (''n'', ''w'') demo_digest, Del (''m'', ''v'')]"
    and "tag_segment ''n''" and "tag_segment ''w''" by code_simp+
  from tags_refine_map [OF demo_tags_inv this] show ?thesis by simp
qed

lemma set_tag_refused:
  assumes "\<not> tag_segment n \<or> \<not> tag_segment t \<or> \<not> is_digest_format (trim d)" and "set_tag R n t d h = (r, h')"
  shows "h' = h \<and> (\<exists>m. r = Err (InvalidFormat m))"
proof -
  consider "\<not> tag_segment n" | "tag_segment n" "\<not> tag_segment t"
    | "tag_segment n" "tag_segment t" "\<not> is_digest_format (trim d)" using assms(1) by blast
  then show ?thesis
  proof cases
    case 1
    with assms(2) validate_not_segment [of n] show ?thesis by (auto simp: set_tag_def)
  next
    case 2
    with assms(2) validate_not_segment [of t] show ?thesis
      by (auto simp: set_tag_def validate_tag_segment_Ok [THEN iffD2])
  next
    case 3
    with assms(2) show ?thesis
      by (auto simp: set_tag_def validate_tag_segment_Ok [THEN iffD2] validate_digest_format_def)
  qed
qed

text \<open>Creating a file and writing to it touches this entry and its inode only.\<close>

lemma write_new_file:
  assumes "create_file p h = (r2, h2)" and "plain h p"
    and "h' = h2 \<or> (\<exists>i r3. r2 = Ok i \<and> write_all p i bs h2 = (r3, h'))"
  shows "(\<forall>q. q \<noteq> p \<longrightarrow> lookup h' q = lookup h q) \<and>
    (\<forall>j. lookup h p \<noteq> Some (File j) \<longrightarrow> j \<noteq> next_ino h \<longrightarrow> inode h' j = inode h j)"
proof (cases r2)
  case err: (Inl e)
  with assms create_file_Err [of p h e h2] show ?thesis by auto
next
  case ok: (Inr i)
  note F = create_file_Ok [OF assms(1) [unfolded ok] assms(2)] and L = create_file_lookup [OF assms(1) [unfolded ok] assms(2)]
  have "(\<forall>q. lookup h' q = lookup h2 q) \<and> (\<forall>j. j \<noteq> i \<longrightarrow> inode h' j = inode h2 j)"
    using assms(3)
  proof (elim disjE exE conjE)
    fix k r3 assume "r2 = Ok k" "write_all p k bs h2 = (r3, h')"
    then show ?thesis using ok by (cases r3) (auto dest!: write_all_Ok write_all_Err simp: fs_simps)
  qed simp
  then show ?thesis using F L(2,4) by (auto simp: fs_simps)
qed

text \<open>
  C21. Confinement.  Whatever strings the caller passes and whichever calls the kernel refuses:
  an identifier with a segment that is not a non-empty string over \<open>[A-Za-z0-9._+-]\<close> other than
  \<open>.\<close> and \<open>..\<close> is refused and changes nothing; with accepted segments, \<open>set_tag\<close> makes directories on
  the way to the model's directory, and apart from these the only entry and the only file it
  touches is the tag's own, as long as that is no symbolic link.
\<close>

theorem set_tag_confined:
  assumes "set_tag R n t d h = (r, h')"
  shows "(\<not> tag_segment n \<or> \<not> tag_segment t \<or> \<not> is_digest_format (trim d) \<longrightarrow>
       h' = h \<and> (\<exists>m. r = Err (InvalidFormat m))) \<and>
    (tag_segment n \<and> tag_segment t \<and> plain h (tag_path R n t) \<longrightarrow>
       (\<forall>q. q \<noteq> tag_path R n t \<longrightarrow> \<not> prefix q (tags_dir R @ [n]) \<longrightarrow> lookup h' q = lookup h q) \<and>
       (\<forall>q nd. q \<noteq> tag_path R n t \<longrightarrow> lookup h q = Some nd \<longrightarrow> lookup h' q = Some nd) \<and>
       (\<forall>j. lookup h (tag_path R n t) \<noteq> Some (File j) \<longrightarrow> j \<noteq> next_ino h \<longrightarrow> inode h' j = inode h j))"
proof (cases "tag_segment n \<and> tag_segment t \<and> is_digest_format (trim d)")
  case False
  then show ?thesis using set_tag_refused [OF _ assms] by auto
next
  case True
  let ?p = "tag_path R n t"
  obtain r1 h1 where c: "create_dir_all (tags_dir R @ [n]) h = (r1, h1)" by fastforce
  obtain r2 h2 where cr: "create_file ?p h1 = (r2, h2)" by fastforce
  note D = create_dir_all_adds_dirs [OF c]
  have ino1: "inode h1 j = inode h j" "next_ino h1 = next_ino h" for j
    using D by (simp_all add: adds_dirs_def same_files_def inode_def)
  have "h' = h1 \<or> h' = h2 \<or> (\<exists>i r3. r2 = Ok i \<and> write_all ?p i (trim d) h2 = (r3, h'))"
    using assms True c cr unfolding tag_path_def
    by (auto simp: set_tag_def validate_tag_segment_Ok [THEN iffD2] validate_digest_format_def join_tag Let_def
        split: sum.splits prod.splits)
  then have "(\<forall>q. q \<noteq> ?p \<longrightarrow> lookup h' q = lookup h1 q) \<and>
      (\<forall>j. lookup h1 ?p \<noteq> Some (File j) \<longrightarrow> j \<noteq> next_ino h \<longrightarrow> inode h' j = inode h1 j)" if "plain h ?p"
    using write_new_file [OF cr] adds_dirs_plain [OF D] that ino1 by (elim disjE) auto
  then show ?thesis
    using True ino1 adds_dirs_not_prefix [OF D] adds_dirs_lookup [OF D] adds_dirs_not_prefix [OF D, of ?p]
    by (auto simp: tag_path_def)
qed

theorem set_tag_confined_witness:
  "snd (set_tag demo_registry ''..'' ''x'' demo_digest demo_tags) = demo_tags"
proof -
  have "\<not> tag_segment ''..''" by code_simp
  with set_tag_confined [of demo_registry "''..''" "''x''" demo_digest demo_tags] show ?thesis
    by (metis prod.collapse)
qed

text \<open>
  C23. Listing.  On a registry in order, \<open>list_tags\<close> returns exactly the pairs of the map, each once,
  in increasing order of name and tag.
\<close>

theorem list_tags_complete:
  assumes "tags_inv R h"
  shows "\<exists>rows. list_tags R h = Ok rows \<and>
    (\<forall>row. row \<in> set rows \<longleftrightarrow> tag_view R h (mt_name row, mt_tag row) = Some (mt_digest row)) \<and>
    distinct (map (\<lambda>r. (mt_name r, mt_tag r)) rows) \<and>
    sorted (map (\<lambda>r. (mt_name r, mt_tag r)) rows)"
proof (intro exI conjI)
  let ?raw = "concat (map (rows_of R h \<circ> fst) (children h (tags_dir R)))"
  show "list_tags R h = Ok (tag_order ?raw)" by (rule list_tags_rows [OF assms])
  show "\<forall>row. row \<in> set (tag_order ?raw) \<longleftrightarrow> tag_view R h (mt_name row, mt_tag row) = Some (mt_digest row)"
    using rows_iff [OF assms] by (simp add: tag_order_def)
  show "sorted (map (\<lambda>r. (mt_name r, mt_tag r)) (tag_order ?raw))"
    by (simp only: tag_order_def sorted_sort_key)
  show "distinct (map (\<lambda>r. (mt_name r, mt_tag r)) (tag_order ?raw))"
    using rows_distinct [OF assms] by (simp add: tag_order_def distinct_map inj_on_def distinct_sort)
qed

theorem list_tags_complete_witness:
  "\<exists>rows. list_tags demo_registry demo_tags = Ok rows \<and>
     (\<forall>row. row \<in> set rows \<longleftrightarrow>
       tag_view demo_registry demo_tags (mt_name row, mt_tag row) = Some (mt_digest row))"
  using list_tags_complete [OF demo_tags_inv] by blast

text \<open>
  C22. Resolution.  On a registry in order, an identifier (spaces around it aside) that is a digest
  resolves to itself, whether or not any tag or blob exists; 64 hexadecimal digits with a capital
  among them are refused; otherwise the text before the first colon is the name and the rest the
  tag (\<open>latest\<close> without a colon), and the result is the map's, or a refusal of unsafe segments.
\<close>

theorem resolve_identifier:
  fixes x :: string
  assumes "tags_inv R h"
  defines "s \<equiv> trim x"
  shows "(is_digest_format s \<longrightarrow> resolve R h x = Ok (Some s)) \<and>
    (length s = 64 \<and> list_all is_ascii_hexdigit s \<and> \<not> is_digest_format s \<longrightarrow>
       (\<exists>m. resolve R h x = Err (InvalidFormat m))) \<and>
    (\<not> (length s = 64 \<and> list_all is_ascii_hexdigit s) \<longrightarrow>
       (if tag_key (ident_parts s) then resolve R h x = Ok (tag_view R h (ident_parts s))
        else (\<exists>m. resolve R h x = Err (InvalidFormat m))))"
proof -
  have hex: "is_digest_format s \<Longrightarrow> length s = 64 \<and> list_all is_ascii_hexdigit s"
    by (auto simp: is_digest_format_def DIGEST_LEN_def list_all_iff is_lower_hex_def is_ascii_hexdigit_def)
  obtain n t where nt: "ident_parts s = (n, t)" by fastforce
  then have parts: "(case split_once (CHR '':'') s of Some (n, t) \<Rightarrow> (n, t) | None \<Rightarrow> (s, ''latest'')) = (n, t)"
    by (auto simp: ident_parts_def split: option.splits)
  have "if tag_key (n, t) then resolve R h x = Ok (tag_view R h (n, t))
      else (\<exists>m. resolve R h x = Err (InvalidFormat m))"
    if "\<not> (length s = 64 \<and> list_all is_ascii_hexdigit s)"
  proof -
    have eq: "resolve R h x = (case validate_tag_segment n of Inl e \<Rightarrow> Err e | Inr u \<Rightarrow>
         (case validate_tag_segment t of Inl e \<Rightarrow> Err e | Inr u \<Rightarrow> get_tag R h n t))"
      by (simp only: resolve_def Let_def s_def [symmetric] parts that if_False prod.case)
    show ?thesis
      unfolding eq tag_key_def using get_tag_view [OF assms(1), of n t] validate_not_segment [of n]
        validate_not_segment [of t]
      by (cases "tag_segment n"; cases "tag_segment t") (auto simp: validate_tag_segment_Ok [THEN iffD2])
  qed
  then show ?thesis
    using hex nt by (auto simp: resolve_def Let_def s_def [symmetric] validate_digest_format_def)
qed

theorem resolve_identifier_witness:
  "resolve demo_registry demo_tags (''  m:v '') = Ok (Some demo_digest) \<and>
   (\<exists>m. resolve demo_registry demo_tags (replicate 64 (CHR ''A'')) = Err (InvalidFormat m))"
proof -
  have t: "trim (''  m:v '') = ''m:v''" "trim (replicate 64 (CHR ''A'')) = replicate 64 (CHR ''A'')"
    by code_simp+
  have p: "ident_parts ''m:v'' = (''m'', ''v'')" "tag_key (''m'', ''v'')" by code_simp+
  have u: "list_all is_ascii_hexdigit (replicate 64 (CHR ''A''))"
    "\<not> is_digest_format (replicate 64 (CHR ''A''))" by code_simp+
  have v: "tag_view demo_registry demo_tags (''m'', ''v'') = Some demo_digest" by code_simp
  show ?thesis
    using resolve_identifier [OF demo_tags_inv, of "''  m:v ''"] t p v u
      resolve_identifier [OF demo_tags_inv, of "replicate 64 (CHR ''A'')"] by simp
qed

end
