(* ===== verification/Eviction.thy ===== *)
theory Eviction
  imports Cas_Store Keyed_Store "HOL-Library.Multiset"
begin

text \<open>
  Pins and reclamation (\<^verbatim>\<open>cas/eviction.rs\<close>): a pin is an empty file named by a digest; \<open>prune\<close> collects
  the blobs, oldest first, and removes unpinned ones until the total is within the quota.  The lemmas
  show that pins are a set, that no pinned blob is touched whatever fails, and which blobs go.
\<close>

section \<open>Pins\<close>

record eviction_manager =
  pinned_dir :: path

definition EvictionManager_new :: "path \<Rightarrow> eviction_manager act" where
  "EvictionManager_new root h =
     (case create_dir_all (join root ''pinned'') h of
        (Inl e, h1) \<Rightarrow> (Err (Io e), h1)
      | (Inr u, h1) \<Rightarrow> (Ok \<lparr>pinned_dir = join root ''pinned''\<rparr>, h1))"

definition pin :: "eviction_manager \<Rightarrow> string \<Rightarrow> unit act" where
  "pin E digest h =
     (case validate_digest_format (trim digest) of Inl e \<Rightarrow> (Err e, h) | Inr u \<Rightarrow>
      (case create_file (join (pinned_dir E) (trim digest)) h of
         (Inl e, h1) \<Rightarrow> (Err (Io e), h1)
       | (Inr i, h1) \<Rightarrow> (Ok (), h1)))"

definition unpin :: "eviction_manager \<Rightarrow> string \<Rightarrow> bool act" where
  "unpin E digest h =
     (case validate_digest_format (trim digest) of Inl e \<Rightarrow> (Err e, h) | Inr u \<Rightarrow>
      (let pin_file = join (pinned_dir E) (trim digest) in
       if is_file h pin_file then
         (case remove_file pin_file h of
            (Inl e, h1) \<Rightarrow> (Err (Io e), h1)
          | (Inr u, h1) \<Rightarrow> (Ok True, h1))
       else (Ok False, h)))"

definition is_pinned :: "eviction_manager \<Rightarrow> host \<Rightarrow> string \<Rightarrow> bool" where
  "is_pinned E h digest =
     (if \<not> is_ok (validate_digest_format (trim digest)) then False
      else is_file h (join (pinned_dir E) (trim digest)))"

fun pinned_names :: "(string \<times> node) list \<Rightarrow> string list" where
  "pinned_names [] = []"
| "pinned_names ((f, nd) # es) =
     (case nd of File i \<Rightarrow> from_utf8_lossy f # pinned_names es | _ \<Rightarrow> pinned_names es)"

definition list_pinned :: "eviction_manager \<Rightarrow> host \<Rightarrow> string list res" where
  "list_pinned E h =
     (if \<not> is_dir h (pinned_dir E) then Ok []
      else (case read_dir h (pinned_dir E) of
              Inl e \<Rightarrow> Err (Io e)
            | Inr es \<Rightarrow> Ok (sort (pinned_names es))))"

section \<open>Pruning\<close>

text \<open>A row of the candidates: digest, size and modification time.\<close>

type_synonym blob_row = "string \<times> nat \<times> nat"

text \<open>The scan of the blobs directory, where an error ends the run.\<close>

fun scan_blobs :: "host \<Rightarrow> path \<Rightarrow> (string \<times> node) list \<Rightarrow> blob_row list \<Rightarrow> nat \<Rightarrow> (blob_row list \<times> nat) res" where
  "scan_blobs h dir [] rows tot = Ok (rows, tot)"
| "scan_blobs h dir ((f, nd) # es) rows tot =
     (case nd of
        File i \<Rightarrow>
          (case entry_metadata h (dir @ [f]) of
             Inl e \<Rightarrow> Err (Io e)
           | Inr m \<Rightarrow> scan_blobs h dir es (rows @ [(from_utf8_lossy f, m_len m, m_modified m)])
               (u64_add tot (m_len m)))
      | _ \<Rightarrow> scan_blobs h dir es rows tot)"

text \<open>The scan of the flat files, where errors skip an entry.\<close>

fun scan_flat :: "host \<Rightarrow> path \<Rightarrow> (string \<times> node) list \<Rightarrow> blob_row list \<Rightarrow> nat \<Rightarrow> blob_row list \<times> nat" where
  "scan_flat h dir [] rows tot = (rows, tot)"
| "scan_flat h dir ((f, nd) # es) rows tot =
     (case nd of
        File i \<Rightarrow>
          (case Option.bind (strip_prefix ''sha256-'' (from_utf8_lossy f)) (strip_suffix ''.gguf'') of
             Some digest \<Rightarrow>
               if list_ex (\<lambda>(d, s, m). d = digest) rows then scan_flat h dir es rows tot
               else (case entry_metadata h (dir @ [f]) of
                       Inr m \<Rightarrow> scan_flat h dir es (rows @ [(digest, m_len m, m_modified m)])
                         (u64_add tot (m_len m))
                     | Inl e \<Rightarrow> scan_flat h dir es rows tot)
           | None \<Rightarrow> scan_flat h dir es rows tot)
      | _ \<Rightarrow> scan_flat h dir es rows tot)"

definition prune_rows :: "cas_store \<Rightarrow> host \<Rightarrow> (blob_row list \<times> nat) res" where
  "prune_rows S h =
     (case (if is_dir h (blobs_dir S) then
              (case read_dir h (blobs_dir S) of
                 Inl e \<Rightarrow> Err (Io e)
               | Inr es \<Rightarrow> scan_blobs h (blobs_dir S) es [] 0)
            else Ok ([], 0)) of
        Inl e \<Rightarrow> Err e
      | Inr (rows, tot) \<Rightarrow>
          if is_dir h (cas_dir S) then
            (case read_dir h (cas_dir S) of
               Inr es \<Rightarrow> Ok (scan_flat h (cas_dir S) es rows tot)
             | Inl e \<Rightarrow> Ok (rows, tot))
          else Ok (rows, tot))"

fun prune_loop :: "eviction_manager \<Rightarrow> cas_store \<Rightarrow> nat \<Rightarrow> blob_row list \<Rightarrow> nat \<Rightarrow> nat \<Rightarrow> host \<Rightarrow> nat \<times> host" where
  "prune_loop E S max_bytes [] tot reclaimed h = (reclaimed, h)"
| "prune_loop E S max_bytes ((digest, sz, m) # rows) tot reclaimed h =
     (if tot \<le> max_bytes then (reclaimed, h)
      else if is_pinned E h digest then prune_loop E S max_bytes rows tot reclaimed h
      else
        (let (r1, h1) = remove_file (join (blobs_dir S) digest) h;
             (r2, h2) = remove_file (join (cas_dir S) (''sha256-'' @ digest @ ''.gguf'')) h1
         in if is_ok r1 \<or> is_ok r2
            then prune_loop E S max_bytes rows (tot - sz) (u64_add reclaimed sz) h2
            else prune_loop E S max_bytes rows tot reclaimed h2))"

definition prune :: "eviction_manager \<Rightarrow> cas_store \<Rightarrow> nat \<Rightarrow> nat act" where
  "prune E S max_bytes h =
     (case prune_rows S h of
        Inl e \<Rightarrow> (Err e, h)
      | Inr (rows, tot) \<Rightarrow>
          if tot \<le> max_bytes then (Ok 0, h)
          else (let (n, h') = prune_loop E S max_bytes (sort_key (\<lambda>(d, s, m). m) rows) tot 0 h
                in (Ok n, h')))"

section \<open>Pins as a set\<close>

definition pins_inv :: "eviction_manager \<Rightarrow> host \<Rightarrow> bool" where
  "pins_inv E h = (owned (pinned_dir E) h \<and>
     (\<forall>d. is_digest_format d \<longrightarrow> lookup h (pinned_dir E @ [d]) \<noteq> Some Dir))"

definition pin_view :: "eviction_manager \<Rightarrow> host \<Rightarrow> string \<Rightarrow> unit option" where
  "pin_view E h d = (case lookup h (pinned_dir E @ [d]) of Some (File i) \<Rightarrow> Some () | _ \<Rightarrow> None)"

lemma join_digest: "is_digest_format d \<Longrightarrow> join p d = p @ [d]"
  by (simp add: join_segment digest_format_segment)

lemma pin_path_ok:
  assumes "owned T h" and "is_digest_format d"
  shows "path_ok (T @ [d])" "nul_free (T @ [d])" "prefix T (T @ [d])"
  using ownedD(3,4) [OF assms(1)] assms(2)
  by (simp_all add: digest_format_no_nul digest_format_segment)

lemma pin_inv:
  assumes inv: "pins_inv E h" and d: "is_digest_format d"
  shows "\<exists>h'. pin E d h = (Ok (), h') \<and> pins_inv E h' \<and> pin_view E h' = (pin_view E h)(d \<mapsto> ())"
proof -
  let ?p = "pinned_dir E @ [d]"
  have O: "owned (pinned_dir E) h" and nd: "lookup h ?p \<noteq> Some Dir"
    using inv d by (auto simp: pins_inv_def)
  from write_owned [OF O pin_path_ok(3,1,2) [OF O d] _ nd, of "[]"] ownedD(5) [OF O]
  obtain i h1 where c: "create_file ?p h = (Ok i, h1)" and w: "written ?p [] h h1" and O1: "owned (pinned_dir E) h1"
    by auto
  have look: "lookup h1 q = lookup h q" if "q \<noteq> ?p" for q using w that by (simp add: written_def)
  have f: "\<exists>i. lookup h1 ?p = Some (File i)" using w by (auto simp: written_def)
  have "pins_inv E h1"
    using inv O1 f look by (auto simp: pins_inv_def) (metis node.distinct(1) option.inject)
  moreover have "pin_view E h1 = (pin_view E h)(d \<mapsto> ())"
    using f look by (intro ext) (auto simp: pin_view_def)
  moreover have "pin E d h = (Ok (), h1)"
    using d c by (simp add: pin_def digest_format_trim validate_digest_format_def join_digest)
  ultimately show ?thesis by blast
qed

lemma is_pinned_view:
  assumes inv: "pins_inv E h" and d: "is_digest_format d"
  shows "is_pinned E h d \<longleftrightarrow> pin_view E h d = Some ()"
proof -
  have O: "owned (pinned_dir E) h" using inv by (simp add: pins_inv_def)
  show ?thesis
    using d owned_is_file [OF O pin_path_ok(3,2) [OF O d]]
    by (auto simp: is_pinned_def digest_format_trim validate_digest_format_def join_digest pin_view_def
        split: option.split node.split)
qed

lemma pin_view_None: "pin_view E h d \<noteq> Some () \<Longrightarrow> pin_view E h d = None"
  by (cases "pin_view E h d") auto

lemma unpin_inv:
  assumes inv: "pins_inv E h" and d: "is_digest_format d"
  shows "\<exists>h'. unpin E d h = (Ok (is_pinned E h d), h') \<and> pins_inv E h' \<and>
     pin_view E h' = (pin_view E h)(d := None)"
proof -
  let ?p = "pinned_dir E @ [d]"
  have O: "owned (pinned_dir E) h" using inv by (simp add: pins_inv_def)
  have isf: "is_file h ?p \<longleftrightarrow> (\<exists>i. lookup h ?p = Some (File i))"
    by (rule owned_is_file [OF O pin_path_ok(3,2) [OF O d]])
  have un: "unpin E d h = (if is_file h ?p then
         (case remove_file ?p h of (Inl e, h1) \<Rightarrow> (Err (Io e), h1) | (Inr u, h1) \<Rightarrow> (Ok True, h1))
       else (Ok False, h))" and pd: "is_pinned E h d = is_file h ?p"
    using d by (simp_all add: unpin_def is_pinned_def digest_format_trim validate_digest_format_def
        join_digest Let_def)
  show ?thesis
  proof (cases "is_file h ?p")
    case True
    then obtain i where i: "lookup h ?p = Some (File i)" using isf by blast
    from remove_owned [OF O pin_path_ok(3) [OF O d] _ i] obtain h1
      where r: "remove_file ?p h = (Ok (), h1)" "owned (pinned_dir E) h1" "lookup h1 ?p = None"
        and look: "\<And>q. q \<noteq> ?p \<Longrightarrow> lookup h1 q = lookup h q" by auto
    have "pins_inv E h1"
      using inv r look by (auto simp: pins_inv_def) (metis option.distinct(1))
    moreover have "pin_view E h1 = (pin_view E h)(d := None)"
      using r look by (intro ext) (auto simp: pin_view_def)
    ultimately show ?thesis using un pd r True by simp
  next
    case False
    then have "pin_view E h d = None"
      using isf by (auto simp: pin_view_def split: option.split node.split)
    then show ?thesis using un pd False inv by (simp add: fun_upd_idem)
  qed
qed

interpretation pins: keyed_store "pins_inv E" is_digest_format "\<lambda>u. True" "pin_view E"
  "\<lambda>d u h. snd (pin E d h)" "\<lambda>d h. snd (unpin E d h)" for E
proof (unfold_locales, goal_cases)
  case (1 h d u)
  with pin_inv [of E h d] show ?case by auto
next
  case (2 h d)
  with unpin_inv [of E h d] show ?case by auto
next
  case (3 h d u d')
  with pin_inv [of E h d] show ?case by auto
next
  case (4 h d d')
  with unpin_inv [of E h d] show ?case by auto
qed

section \<open>What pruning touches\<close>

text \<open>The two names removed for one row.\<close>

definition prune_targets :: "cas_store \<Rightarrow> string \<Rightarrow> path set" where
  "prune_targets S d =
     {join (blobs_dir S) d, join (cas_dir S) (''sha256-'' @ d @ ''.gguf'')}"

definition no_slash :: "string \<Rightarrow> bool" where
  "no_slash s = (CHR ''/'' \<notin> set s)"

lemma prune_targets_eq:
  assumes "no_slash x" and "q \<in> prune_targets S x"
  shows "q = root_dir S @ [''cas'', ''blobs'', ''sha256'', x] \<or>
    q = root_dir S @ [''cas'', ''blobs'', ''sha256''] \<or> q = root_dir S @ [''cas'', ''blobs''] \<or>
    q = root_dir S @ [''cas'', ''sha256-'' @ x @ ''.gguf'']"
proof -
  have "is_segment (''sha256-'' @ x @ ''.gguf'')" using assms(1) by (simp add: is_segment_def no_slash_def)
  then have flat: "join (cas_dir S) (''sha256-'' @ x @ ''.gguf'') = root_dir S @ [''cas'', ''sha256-'' @ x @ ''.gguf'']"
    by (simp add: join_segment path_simps)
  show ?thesis
    using assms flat join_no_slash [of x "blobs_dir S"]
    by (auto simp: prune_targets_def no_slash_def path_simps butlast_append split: if_splits)
qed

lemma prune_targets_not_pin:
  "no_slash x \<Longrightarrow> q \<in> prune_targets S x \<Longrightarrow> q \<noteq> root_dir S @ [''pinned'', y]"
  by (drule (1) prune_targets_eq) auto

lemma gguf_not_safetensors: "x @ ''.gguf'' \<noteq> y @ ''.safetensors''"
proof
  assume "x @ ''.gguf'' = y @ ''.safetensors''"
  then have "last (x @ ''.gguf'') = last (y @ ''.safetensors'')" by (rule arg_cong)
  then show False by simp
qed

lemma prune_targets_blob:
  assumes "no_slash x" and "is_digest_format d" and "q \<in> prune_targets S x" and "q \<in> blob_paths S d"
  shows "x = d"
  using prune_targets_eq [OF assms(1,3)] assms(4) gguf_not_safetensors [of x d]
  by (auto simp: blob_paths_eq [OF assms(2)])

lemma from_utf8_lossy_chars:
  "c \<in> set (from_utf8_lossy s) \<Longrightarrow> c \<in> set s \<or> c \<in> set replacement_char"
proof (induction s rule: from_utf8_lossy.induct)
  case (1 s)
  show ?case
  proof (cases "s = []")
    case True
    with "1.prems" show ?thesis by (simp add: from_utf8_lossy.simps)
  next
    case False
    with "1.prems" have "c \<in> set (take (snd (utf8_step s)) s) \<or> c \<in> set replacement_char \<or>
        c \<in> set (from_utf8_lossy (drop (snd (utf8_step s)) s))"
      by (auto simp: from_utf8_lossy.simps [of s] split: if_splits)
    then show ?thesis using "1.IH" False by (auto dest: in_set_takeD in_set_dropD)
  qed
qed

lemma no_slash_lossy: "no_slash s \<Longrightarrow> no_slash (from_utf8_lossy s)"
  using from_utf8_lossy_chars by (fastforce simp: no_slash_def replacement_char_def)

lemma remove_file_any:
  "remove_file p h = (r, h') \<Longrightarrow> same_files h h' \<and> (\<forall>q. lookup h' q = lookup h q \<or> q = p \<and> lookup h' q = None)"
  using remove_file_lookup [of p h r h'] remove_file_same_files [of p h r h'] by auto

text \<open>Pins are decided by regular files that pruning does not reach.\<close>

definition pins_plain :: "eviction_manager \<Rightarrow> cas_store \<Rightarrow> host \<Rightarrow> bool" where
  "pins_plain E S h = (pinned_dir E = root_dir S @ [''pinned''] \<and> (\<forall>d. plain h (pinned_dir E @ [d])))"

lemma is_pinned_cong:
  assumes "\<And>y. lookup h' (pinned_dir E @ [y]) = lookup h (pinned_dir E @ [y])" and "fault h' = fault h"
    and "\<And>y. plain h (pinned_dir E @ [y])"
  shows "is_pinned E h' d = is_pinned E h d"
proof (cases "is_digest_format (trim d)")
  case True
  let ?p = "pinned_dir E @ [trim d]"
  have "plain h' ?p" using assms(1,3) by (simp add: plain_def)
  then have "stat h' ?p = stat h ?p" using assms(1,3) by (simp add: stat_plain)
  then have "is_file h' ?p = is_file h ?p"
    by (simp add: is_file_def refuse_cong [OF assms(2)])
  with True show ?thesis by (simp add: is_pinned_def join_digest)
next
  case False
  then show ?thesis by (simp add: is_pinned_def validate_digest_format_def)
qed

lemma prune_step_pins:
  assumes pp: "pins_plain E S h" and x: "no_slash x"
    and r1: "remove_file (join (blobs_dir S) x) h = (r1, h1)"
    and r2: "remove_file (join (cas_dir S) (''sha256-'' @ x @ ''.gguf'')) h1 = (r2, h2)"
  shows "same_files h h2" and "lookup h2 q = lookup h q \<or> q \<in> prune_targets S x \<and> lookup h2 q = None"
    and "pins_plain E S h2" and "is_pinned E h2 d = is_pinned E h d"
proof -
  note A = remove_file_any [OF r1] and B = remove_file_any [OF r2]
  show sf: "same_files h h2" using A B same_files_trans by blast
  show two: "lookup h2 q = lookup h q \<or> q \<in> prune_targets S x \<and> lookup h2 q = None" for q
    using A B unfolding prune_targets_def by (metis insertCI)
  have pin: "lookup h2 (pinned_dir E @ [y]) = lookup h (pinned_dir E @ [y])" for y
    using two [of "pinned_dir E @ [y]"] prune_targets_not_pin [OF x] pp by (auto simp: pins_plain_def)
  show "pins_plain E S h2" using pp pin by (auto simp: pins_plain_def plain_def)
  show "is_pinned E h2 d = is_pinned E h d"
    by (rule is_pinned_cong) (use pin sf pp in \<open>auto simp: same_files_def pins_plain_def\<close>)
qed

lemma prune_loop_effect:
  "prune_loop E S mx rows tot n h = (n', h') \<Longrightarrow> pins_plain E S h \<Longrightarrow>
   \<forall>(d, s, m) \<in> set rows. no_slash d \<Longrightarrow>
   same_files h h' \<and> pins_plain E S h' \<and> (\<forall>d. is_pinned E h' d = is_pinned E h d) \<and>
   (\<forall>q. lookup h' q = lookup h q \<or> lookup h' q = None \<and>
     (\<exists>(d, s, m) \<in> set rows. q \<in> prune_targets S d \<and> \<not> is_pinned E h d))"
proof (induction rows arbitrary: tot n h)
  case Nil
  then show ?case by simp
next
  case (Cons row rows)
  obtain d sz m where row: "row = (d, sz, m)" by (cases row)
  obtain r1 h1 where r1: "remove_file (join (blobs_dir S) d) h = (r1, h1)" by fastforce
  obtain r2 h2 where r2: "remove_file (join (cas_dir S) (''sha256-'' @ d @ ''.gguf'')) h1 = (r2, h2)"
    by fastforce
  have d: "no_slash d" and rows: "\<forall>(d, s, m) \<in> set rows. no_slash d" using Cons.prems(3) row by auto
  note st = prune_step_pins [OF Cons.prems(2) d r1 r2]
  consider (stop) "h' = h" | (skip) tot' n0 where "prune_loop E S mx rows tot' n0 h = (n', h')"
    | (remove) tot' n0 where "\<not> is_pinned E h d" "prune_loop E S mx rows tot' n0 h2 = (n', h')"
    using Cons.prems(1) row r1 r2 by (auto simp: Let_def split: if_splits)
  then show ?case
  proof cases
    case stop
    then show ?thesis using Cons.prems(2) by simp
  next
    case skip
    from Cons.IH [OF this Cons.prems(2) rows] show ?thesis by auto
  next
    case remove
    from Cons.IH [OF remove(2) st(3) rows] have rest: "same_files h2 h'" "pins_plain E S h'"
      "\<forall>d. is_pinned E h' d = is_pinned E h d"
      "lookup h' q = lookup h2 q \<or> lookup h' q = None \<and>
        (\<exists>(d, s, m) \<in> set rows. q \<in> prune_targets S d \<and> \<not> is_pinned E h d)" for q
      using st(4) by auto
    have "lookup h' q = lookup h q \<or> lookup h' q = None \<and>
        (\<exists>(d, s, m) \<in> set (row # rows). q \<in> prune_targets S d \<and> \<not> is_pinned E h d)" for q
      using rest(4) [of q] st(2) [of q] remove(1) row by auto
    then show ?thesis using rest(2,3) same_files_trans [OF st(1) rest(1)] by blast
  qed
qed

subsection \<open>The names among the candidates\<close>

lemma scan_blobs_no_slash:
  "scan_blobs h dir es rows tot = Ok (rows', tot') \<Longrightarrow> \<forall>(d, s, m) \<in> set rows. no_slash d \<Longrightarrow>
   \<forall>(f, nd) \<in> set es. no_slash f \<Longrightarrow> \<forall>(d, s, m) \<in> set rows'. no_slash d"
proof (induction h dir es rows tot rule: scan_blobs.induct)
  case (2 h dir f nd es rows tot)
  show ?case
  proof (cases nd)
    case (File i)
    with "2.prems"(1) obtain m where m: "entry_metadata h (dir @ [f]) = Inr m"
      and rest: "scan_blobs h dir es (rows @ [(from_utf8_lossy f, m_len m, m_modified m)])
        (u64_add tot (m_len m)) = Ok (rows', tot')" by (auto split: sum.splits)
    show ?thesis
      by (rule "2.IH"(2) [OF File m rest]) (use "2.prems" in \<open>auto simp: no_slash_lossy\<close>)
  next
    case Dir
    show ?thesis by (rule "2.IH"(1) [OF Dir]) (use "2.prems" Dir in simp_all)
  next
    case (Symlink t)
    show ?thesis by (rule "2.IH"(3) [OF Symlink]) (use "2.prems" Symlink in simp_all)
  qed
qed simp

lemma flat_name:
  "Option.bind (strip_prefix ''sha256-'' s) (strip_suffix ''.gguf'') = Some x \<longleftrightarrow>
   s = ''sha256-'' @ x @ ''.gguf''"
  by (auto simp: bind_eq_Some_conv strip_prefix_Some_iff strip_suffix_Some_iff)

lemma scan_flat_no_slash:
  "scan_flat h dir es rows tot = (rows', tot') \<Longrightarrow> \<forall>(d, s, m) \<in> set rows. no_slash d \<Longrightarrow>
   \<forall>(f, nd) \<in> set es. no_slash f \<Longrightarrow> \<forall>(d, s, m) \<in> set rows'. no_slash d"
proof (induction es arbitrary: rows tot)
  case (Cons e es)
  obtain f nd where e: "e = (f, nd)" by (cases e)
  have f: "no_slash f" and es: "\<forall>(f, nd) \<in> set es. no_slash f" using Cons.prems(3) e by auto
  have x: "no_slash x"
    if "Option.bind (strip_prefix ''sha256-'' (from_utf8_lossy f)) (strip_suffix ''.gguf'') = Some x" for x
    using no_slash_lossy [OF f] that unfolding flat_name by (simp add: no_slash_def)
  consider "scan_flat h dir es rows tot = (rows', tot')"
    | x s m t where "no_slash x" "scan_flat h dir es (rows @ [(x, s, m)]) t = (rows', tot')"
    using Cons.prems(1) e x by (fastforce split: node.splits option.splits if_splits sum.splits)
  then show ?case
  proof cases
    case 1
    then show ?thesis by (rule Cons.IH [OF _ Cons.prems(2) es])
  next
    case 2
    show ?thesis by (rule Cons.IH [OF 2(2) _ es]) (use 2(1) Cons.prems(2) in auto)
  qed
qed simp

lemma prune_rows_no_slash:
  assumes r: "prune_rows S h = Ok (rows, tot)" and ok: "fs_ok h"
  shows "\<forall>(d, s, m) \<in> set rows. no_slash d"
proof -
  have ch: "\<forall>(f, nd) \<in> set es. no_slash f" if "read_dir h p = Ok es" for p es
    using that children_segment [OF ok]
    by (fastforce simp: read_dir_def no_slash_def is_segment_def split: option.splits node.splits)
  obtain r0 t0 where first: "(if is_dir h (blobs_dir S) then
        (case read_dir h (blobs_dir S) of Inl e \<Rightarrow> Err (Io e)
         | Inr es \<Rightarrow> scan_blobs h (blobs_dir S) es [] 0) else Ok ([], 0)) = Inr (r0, t0)"
    using r by (auto simp: prune_rows_def split: sum.splits)
  have r0: "\<forall>(d, s, m) \<in> set r0. no_slash d"
    using first scan_blobs_no_slash [of h "blobs_dir S" _ "[]" 0 r0 t0] ch
    by (auto split: if_splits sum.splits)
  then show ?thesis
    using r first ch scan_flat_no_slash [of h "cas_dir S" _ r0 t0 rows tot]
    by (auto simp: prune_rows_def split: if_splits sum.splits)
qed

lemma prune_effect:
  assumes p: "prune E S mx h = (r, h')" and ok: "fs_ok h" and pp: "pins_plain E S h"
  shows "same_files h h' \<and> (\<forall>d. is_pinned E h' d = is_pinned E h d) \<and>
    (\<forall>q. lookup h' q = lookup h q \<or> lookup h' q = None \<and>
      (\<exists>d. no_slash d \<and> q \<in> prune_targets S d \<and> \<not> is_pinned E h d))"
proof (cases "prune_rows S h")
  case (Inl e)
  with p show ?thesis by (simp add: prune_def)
next
  case (Inr rt)
  then obtain rows tot where rt: "prune_rows S h = Ok (rows, tot)" by (cases rt) auto
  note names = prune_rows_no_slash [OF rt ok]
  show ?thesis
  proof (cases "tot \<le> mx")
    case True
    with p rt show ?thesis by (simp add: prune_def)
  next
    case False
    with p rt obtain n where l: "prune_loop E S mx (sort_key (\<lambda>(d, s, m). m) rows) tot 0 h = (n, h')"
      by (auto simp: prune_def split: prod.splits)
    from prune_loop_effect [OF l pp] names
    show ?thesis by (auto 4 4)
  qed
qed

section \<open>Which blobs go\<close>

text \<open>
  The candidates that are evicted, as a function on lists: walk the rows until the total is within
  the quota, taking each unpinned row.
\<close>

fun evict :: "(string \<Rightarrow> bool) \<Rightarrow> nat \<Rightarrow> blob_row list \<Rightarrow> nat \<Rightarrow> blob_row list" where
  "evict pinned mx [] tot = []"
| "evict pinned mx ((d, s, m) # rows) tot =
     (if tot \<le> mx then []
      else if pinned d then evict pinned mx rows tot
      else (d, s, m) # evict pinned mx rows (tot - s))"

definition row_size :: "blob_row \<Rightarrow> nat" where "row_size = (\<lambda>(d, s, m). s)"
definition row_time :: "blob_row \<Rightarrow> nat" where "row_time = (\<lambda>(d, s, m). m)"

definition rows_total :: "blob_row list \<Rightarrow> nat" where
  "rows_total rows = sum_list (map row_size rows)"

lemma row_simps [simp]:
  "row_size (d, s, m) = s" "row_time (d, s, m) = m"
  "rows_total [] = 0" "rows_total (r # rows) = row_size r + rows_total rows"
  "rows_total (rows @ rows') = rows_total rows + rows_total rows'"
  by (simp_all add: row_size_def row_time_def rows_total_def)

text \<open>The evicted rows are the unpinned ones of a prefix that ends as soon as the quota is met.\<close>

lemma evict_prefix:
  "\<exists>pre post. rows = pre @ post \<and> evict pinned mx rows tot = filter (\<lambda>r. \<not> pinned (fst r)) pre \<and>
     (post = [] \<or> tot - rows_total (evict pinned mx rows tot) \<le> mx) \<and>
     (evict pinned mx rows tot \<noteq> [] \<longrightarrow> mx < tot - rows_total (butlast (evict pinned mx rows tot)))"
proof (induction pinned mx rows tot rule: evict.induct)
  case (2 pinned mx d s m rows tot)
  consider (stop) "tot \<le> mx" | (skip) "\<not> tot \<le> mx" "pinned d" | (take) "\<not> tot \<le> mx" "\<not> pinned d"
    by blast
  then show ?case
  proof cases
    case stop
    then show ?thesis by (intro exI [of _ "[]"] exI [of _ "(d, s, m) # rows"]) simp
  next
    case skip
    then obtain pre post where P: "rows = pre @ post"
        "evict pinned mx rows tot = filter (\<lambda>r. \<not> pinned (fst r)) pre"
        "post = [] \<or> tot - rows_total (evict pinned mx rows tot) \<le> mx"
        "evict pinned mx rows tot \<noteq> [] \<longrightarrow> mx < tot - rows_total (butlast (evict pinned mx rows tot))"
      using "2.IH"(1) by blast
    show ?thesis
      by (intro exI [of _ "(d, s, m) # pre"] exI [of _ post]) (use skip P in simp)
  next
    case take
    then obtain pre post where P: "rows = pre @ post"
        "evict pinned mx rows (tot - s) = filter (\<lambda>r. \<not> pinned (fst r)) pre"
        "post = [] \<or> tot - s - rows_total (evict pinned mx rows (tot - s)) \<le> mx"
        "evict pinned mx rows (tot - s) \<noteq> [] \<longrightarrow>
           mx < tot - s - rows_total (butlast (evict pinned mx rows (tot - s)))"
      using "2.IH"(2) by blast
    show ?thesis
      by (intro exI [of _ "(d, s, m) # pre"] exI [of _ post]) (use take P in auto)
  qed
qed simp

lemma evict_subset: "set (evict pinned mx rows tot) \<subseteq> {r \<in> set rows. \<not> pinned (fst r)}"
  by (induction pinned mx rows tot rule: evict.induct) auto

text \<open>On rows in order of time: what stays is newer than what goes, and the quota is met.\<close>

lemma evict_lru:
  assumes srt: "sorted (map row_time rows)" and r: "r \<in> set rows" "r \<notin> set (evict pinned mx rows tot)"
    and "\<not> pinned (fst r)"
  shows "tot - rows_total (evict pinned mx rows tot) \<le> mx \<and>
    (\<forall>e \<in> set (evict pinned mx rows tot). row_time e \<le> row_time r)"
proof -
  obtain pre post where P: "rows = pre @ post"
      "evict pinned mx rows tot = filter (\<lambda>r. \<not> pinned (fst r)) pre"
      "post = [] \<or> tot - rows_total (evict pinned mx rows tot) \<le> mx"
    using evict_prefix [of rows pinned mx tot] by blast
  then have "r \<in> set post" using assms by auto
  with P srt show ?thesis by (auto simp: sorted_append)
qed

subsection \<open>The loop removes exactly the evicted rows\<close>

text \<open>A candidate as the scans find it: a digest with a file at one of its two names.\<close>

definition candidate :: "cas_store \<Rightarrow> host \<Rightarrow> string \<Rightarrow> bool" where
  "candidate S h d = (is_digest_format d \<and> (\<forall>p \<in> prune_targets S d. lookup h p \<noteq> Some Dir) \<and>
     (\<exists>p \<in> prune_targets S d. \<exists>i. lookup h p = Some (File i)))"

lemma prune_targets_digest:
  assumes "is_digest_format d"
  shows "prune_targets S d = {standard_path S d, flat_path S ''gguf'' d}"
proof -
  have "no_slash d" using digest_format_chars [OF assms] lower_hex_not_special by (auto simp: no_slash_def)
  then have "is_segment (''sha256-'' @ d @ ''.gguf'')" by (simp add: is_segment_def no_slash_def)
  then show ?thesis
    using assms by (simp add: prune_targets_def standard_path_eq flat_path_eq join_segment path_simps
        digest_format_segment)
qed

lemma prune_targets_nul_free:
  "is_digest_format d \<Longrightarrow> nul_free (root_dir S) \<Longrightarrow> p \<in> prune_targets S d \<Longrightarrow> nul_free p"
  using digest_format_no_nul [of d] by (auto simp: prune_targets_digest standard_path_eq flat_path_eq)

lemma prune_targets_disjoint:
  assumes "is_digest_format d" "is_digest_format d'" "d \<noteq> d'"
  shows "prune_targets S d \<inter> prune_targets S d' = {}"
  using blob_paths_disjoint [OF assms, of S] assms by (auto simp: prune_targets_digest blob_paths_def)

lemma remove_file_free:
  assumes "fault_free h" and "nul_free p" and "lookup h p \<noteq> Some Dir"
  shows "remove_file p h = (if lookup h p = None then (Err e_not_found, h) else (Ok (), del_ent p h))"
  using assms by (cases "lookup h p"; cases "the (lookup h p)") (auto simp: remove_file_def refuse_fault_free)

lemma remove_candidate:
  assumes c: "candidate S h d" and ff: "fault_free h" and nul: "nul_free (root_dir S)"
    and r1: "remove_file (join (blobs_dir S) d) h = (r1, h1)"
    and r2: "remove_file (join (cas_dir S) (''sha256-'' @ d @ ''.gguf'')) h1 = (r2, h2)"
  shows "(is_ok r1 \<or> is_ok r2) \<and> lookup h2 q = (if q \<in> prune_targets S d then None else lookup h q)"
proof -
  let ?a = "join (blobs_dir S) d" let ?b = "join (cas_dir S) (''sha256-'' @ d @ ''.gguf'')"
  have T: "prune_targets S d = {?a, ?b}" by (simp add: prune_targets_def)
  have d: "is_digest_format d" using c by (simp add: candidate_def)
  have N: "nul_free ?a" "nul_free ?b" using prune_targets_nul_free [OF d nul] T by auto
  have D: "lookup h ?a \<noteq> Some Dir" "lookup h ?b \<noteq> Some Dir" "lookup h ?a \<noteq> None \<or> lookup h ?b \<noteq> None"
    using c T by (auto simp: candidate_def)
  have ne: "?a \<noteq> []" "?b \<noteq> []" using D by auto
  have "?a = standard_path S d" "?b = flat_path S ''gguf'' d"
    by (simp_all add: standard_path_def flat_path_def)
  then have ab: "?a \<noteq> ?b" by (simp add: standard_path_eq [OF d] flat_path_eq [OF d])
  have "remove_file ?a h = (if lookup h ?a = None then (Err e_not_found, h) else (Ok (), del_ent ?a h))"
    by (rule remove_file_free [OF ff N(1) D(1)])
  with r1 have R1: "is_ok r1 \<longleftrightarrow> lookup h ?a \<noteq> None" "\<And>q. lookup h1 q = (if q = ?a then None else lookup h q)"
      "fault_free h1" using ff ne by (auto simp: fs_simps split: if_splits)
  then have "remove_file ?b h1 = (if lookup h1 ?b = None then (Err e_not_found, h1) else (Ok (), del_ent ?b h1))"
    using remove_file_free [OF R1(3) N(2)] D(2) ab by simp
  with r2 have R2: "is_ok r2 \<longleftrightarrow> lookup h1 ?b \<noteq> None" "\<And>q. lookup h2 q = (if q = ?b then None else lookup h1 q)"
    using ne by (auto simp: fs_simps split: if_splits)
  show ?thesis using R1(1,2) R2 D(3) ab unfolding T by auto
qed

lemma prune_loop_evict:
  "prune_loop E S mx rows tot n h = (n', h') \<Longrightarrow> pins_plain E S h \<Longrightarrow> fault_free h \<Longrightarrow>
   nul_free (root_dir S) \<Longrightarrow> \<forall>r \<in> set rows. candidate S h (fst r) \<Longrightarrow> distinct (map fst rows) \<Longrightarrow>
   n' = foldl u64_add n (map row_size (evict (is_pinned E h) mx rows tot)) \<and>
   (\<forall>q. lookup h' q = (if \<exists>r \<in> set (evict (is_pinned E h) mx rows tot). q \<in> prune_targets S (fst r)
      then None else lookup h q))"
proof (induction rows arbitrary: tot n h)
  case (Cons row rows)
  obtain d sz m where row: "row = (d, sz, m)" by (cases row)
  have c: "candidate S h d" and cs: "\<forall>r \<in> set rows. candidate S h (fst r)"
    and dist: "distinct (map fst rows)" "d \<notin> fst ` set rows" using Cons.prems row by auto
  have dg: "is_digest_format d" using c by (simp add: candidate_def)
  consider (stop) "tot \<le> mx" | (skip) "\<not> tot \<le> mx" "is_pinned E h d"
    | (remove) "\<not> tot \<le> mx" "\<not> is_pinned E h d" by blast
  then show ?case
  proof cases
    case stop
    then show ?thesis using Cons.prems(1) row by simp
  next
    case skip
    then have "prune_loop E S mx rows tot n h = (n', h')" using Cons.prems(1) row by simp
    from Cons.IH [OF this Cons.prems(2-4) cs dist(1)] show ?thesis using skip row by simp
  next
    case remove
    obtain r1 h1 where r1: "remove_file (join (blobs_dir S) d) h = (r1, h1)" by fastforce
    obtain r2 h2 where r2: "remove_file (join (cas_dir S) (''sha256-'' @ d @ ''.gguf'')) h1 = (r2, h2)"
      by fastforce
    have look: "lookup h2 q = (if q \<in> prune_targets S d then None else lookup h q)" for q
      using remove_candidate [OF c Cons.prems(3,4) r1 r2] by simp
    have "is_ok r1 \<or> is_ok r2" using remove_candidate [OF c Cons.prems(3,4) r1 r2] by simp
    then have l: "prune_loop E S mx rows (tot - sz) (u64_add n sz) h2 = (n', h')"
      using Cons.prems(1) row remove r1 r2 by simp
    have "no_slash d" using digest_format_chars [OF dg] lower_hex_not_special by (auto simp: no_slash_def)
    note st = prune_step_pins [OF Cons.prems(2) this r1 r2]
    have ff: "fault_free h2" using same_files_fault_free [OF st(1)] Cons.prems(3) by simp
    have pin: "is_pinned E h2 = is_pinned E h" using st(4) by blast
    have cs2: "\<forall>r \<in> set rows. candidate S h2 (fst r)"
    proof
      fix r assume r: "r \<in> set rows"
      then have cr: "candidate S h (fst r)" and "fst r \<noteq> d" using cs dist(2) by auto
      then have "prune_targets S (fst r) \<inter> prune_targets S d = {}"
        using prune_targets_disjoint dg by (simp add: candidate_def)
      then have "\<forall>p \<in> prune_targets S (fst r). lookup h2 p = lookup h p" using look by auto
      with cr show "candidate S h2 (fst r)" by (simp add: candidate_def)
    qed
    from Cons.IH [OF l st(3) ff Cons.prems(4) cs2 dist(1)] show ?thesis
      using remove row look by (simp add: pin)
  qed
qed simp

lemma digest_ascii: "is_digest_format d \<Longrightarrow> is_ascii d"
  using digest_format_chars by (fastforce simp: is_ascii_def list_all_iff char_class_defs)

subsection \<open>The candidates of a clean store\<close>

text \<open>
  A clean store: the directories are there, the regular files among the blobs and the flat \<open>gguf\<close>
  files are named by digests, no directory bears such a name, and the kernel refuses nothing.
\<close>

definition blobs_clean :: "cas_store \<Rightarrow> host \<Rightarrow> bool" where
  "blobs_clean S h = (fs_ok h \<and> fault_free h \<and> nul_free (root_dir S) \<and>
     lookup h (blobs_dir S) = Some Dir \<and> lookup h (cas_dir S) = Some Dir \<and>
     (\<forall>f i. lookup h (blobs_dir S @ [f]) = Some (File i) \<longrightarrow> is_digest_format f) \<and>
     (\<forall>f i x. lookup h (cas_dir S @ [f]) = Some (File i) \<longrightarrow>
        from_utf8_lossy f = ''sha256-'' @ x @ ''.gguf'' \<longrightarrow> f = from_utf8_lossy f \<and> is_digest_format x) \<and>
     (\<forall>d. is_digest_format d \<longrightarrow>
        lookup h (standard_path S d) \<noteq> Some Dir \<and> lookup h (flat_path S ''gguf'' d) \<noteq> Some Dir))"

text \<open>The file that a digest has at one of the two names, the standard one first.\<close>

definition held :: "cas_store \<Rightarrow> host \<Rightarrow> string \<Rightarrow> nat option" where
  "held S h d = (case lookup h (standard_path S d) of
     Some (File i) \<Rightarrow> Some i
   | _ \<Rightarrow> (case lookup h (flat_path S ''gguf'' d) of Some (File i) \<Rightarrow> Some i | _ \<Rightarrow> None))"

definition row_of :: "host \<Rightarrow> string \<Rightarrow> nat \<Rightarrow> blob_row" where
  "row_of h d i = (d, file_size h i, mtime (inode h i))"

definition good_row :: "cas_store \<Rightarrow> host \<Rightarrow> blob_row \<Rightarrow> bool" where
  "good_row S h r = (is_digest_format (fst r) \<and> (\<exists>i. held S h (fst r) = Some i \<and> r = row_of h (fst r) i))"

lemma blobs_cleanD:
  assumes "blobs_clean S h"
  shows "fs_ok h" "fault_free h" "nul_free (root_dir S)"
    "lookup h (blobs_dir S) = Some Dir" "lookup h (cas_dir S) = Some Dir"
    "lookup h (blobs_dir S @ [f]) = Some (File i) \<Longrightarrow> is_digest_format f"
    "lookup h (cas_dir S @ [f]) = Some (File i) \<Longrightarrow> from_utf8_lossy f = ''sha256-'' @ x @ ''.gguf'' \<Longrightarrow>
       f = ''sha256-'' @ x @ ''.gguf'' \<and> is_digest_format x"
    "is_digest_format d \<Longrightarrow> lookup h (standard_path S d) \<noteq> Some Dir \<and> lookup h (flat_path S ''gguf'' d) \<noteq> Some Dir"
proof -
  show "lookup h (blobs_dir S @ [f]) = Some (File i) \<Longrightarrow> is_digest_format f"
    using assms unfolding blobs_clean_def by blast
  show "lookup h (cas_dir S @ [f]) = Some (File i) \<Longrightarrow> from_utf8_lossy f = ''sha256-'' @ x @ ''.gguf'' \<Longrightarrow>
       f = ''sha256-'' @ x @ ''.gguf'' \<and> is_digest_format x"
    using assms unfolding blobs_clean_def by metis
qed (use assms in \<open>simp_all add: blobs_clean_def\<close>)

lemma entry_metadata_file:
  assumes "fs_ok h" "fault_free h" "lookup h p = Some (File i)"
  shows "entry_metadata h p = Ok \<lparr>m_node = File i, m_len = file_size h i, m_modified = mtime (inode h i)\<rparr>"
proof -
  have "p \<noteq> []" using assms(3) by auto
  from fs_ok_lookupD(2) [OF assms(1,3) this] show ?thesis
    using assms(2,3) by (simp add: entry_metadata_def refuse_fault_free node_metadata_def)
qed

lemma standard_path_child: "is_digest_format d \<Longrightarrow> standard_path S d = blobs_dir S @ [d]"
  by (simp add: standard_path_def join_digest)

lemma flat_path_child: "is_digest_format d \<Longrightarrow> flat_path S ''gguf'' d = cas_dir S @ [''sha256-'' @ d @ ''.gguf'']"
  by (simp add: flat_path_eq path_simps)

definition rows_good :: "cas_store \<Rightarrow> host \<Rightarrow> blob_row list \<Rightarrow> nat \<Rightarrow> bool" where
  "rows_good S h rows tot = (distinct (map fst rows) \<and> (\<forall>r \<in> set rows. good_row S h r) \<and>
     tot = foldl u64_add 0 (map row_size rows))"

lemma scan_blobs_good:
  assumes cl: "blobs_clean S h" and es: "\<forall>(f, nd) \<in> set es. lookup h (blobs_dir S @ [f]) = Some nd"
    and dist: "distinct (map fst rows @ map fst es)" and good: "rows_good S h rows tot"
  shows "\<exists>rows' tot'. scan_blobs h (blobs_dir S) es rows tot = Ok (rows', tot') \<and> rows_good S h rows' tot' \<and>
    (\<forall>d. d \<in> fst ` set rows' \<longleftrightarrow> d \<in> fst ` set rows \<or> (\<exists>i. (d, File i) \<in> set es))"
  using es dist good
proof (induction es arbitrary: rows tot)
  case (Cons e es)
  obtain f nd where e: "e = (f, nd)" by (cases e)
  show ?case
  proof (cases "\<exists>i. nd = File i")
    case False
    then have "scan_blobs h (blobs_dir S) (e # es) rows tot = scan_blobs h (blobs_dir S) es rows tot"
      using e by (cases nd) auto
    with Cons.IH [of rows tot] Cons.prems e False show ?thesis by auto
  next
    case True
    then obtain i where i: "nd = File i" by blast
    then have l: "lookup h (blobs_dir S @ [f]) = Some (File i)" using Cons.prems e by simp
    note D = blobs_cleanD [OF cl]
    have f: "is_digest_format f" using D(6) [OF l] .
    let ?row = "row_of h f i"
    have "held S h f = Some i" using l by (simp add: held_def standard_path_child f)
    then have "good_row S h ?row" using f by (simp add: good_row_def row_of_def)
    then have good': "rows_good S h (rows @ [?row]) (u64_add tot (file_size h i))"
      using Cons.prems(2,3) e by (simp add: rows_good_def row_of_def)
    have step: "scan_blobs h (blobs_dir S) (e # es) rows tot =
        scan_blobs h (blobs_dir S) es (rows @ [?row]) (u64_add tot (file_size h i))"
      by (simp add: e i entry_metadata_file [OF D(1,2) l] row_of_def
          from_utf8_lossy_ascii [OF digest_ascii [OF f]])
    have "\<exists>rows' tot'. scan_blobs h (blobs_dir S) es (rows @ [?row]) (u64_add tot (file_size h i)) = Ok (rows', tot') \<and>
        rows_good S h rows' tot' \<and>
        (\<forall>d. d \<in> fst ` set rows' \<longleftrightarrow> d \<in> fst ` set (rows @ [?row]) \<or> (\<exists>i. (d, File i) \<in> set es))"
      by (rule Cons.IH) (use Cons.prems e good' in \<open>auto simp: row_of_def\<close>)
    then show ?thesis unfolding step using e i by (auto simp: row_of_def)
  qed
qed auto

lemma scan_flat_good:
  assumes cl: "blobs_clean S h" and es: "\<forall>(f, nd) \<in> set es. lookup h (cas_dir S @ [f]) = Some nd"
    and good: "rows_good S h rows tot"
    and std: "\<forall>d i. is_digest_format d \<longrightarrow> lookup h (standard_path S d) = Some (File i) \<longrightarrow> d \<in> fst ` set rows"
  shows "\<exists>rows' tot'. scan_flat h (cas_dir S) es rows tot = (rows', tot') \<and> rows_good S h rows' tot' \<and>
    fst ` set rows \<subseteq> fst ` set rows' \<and>
    (\<forall>d i. is_digest_format d \<longrightarrow> (''sha256-'' @ d @ ''.gguf'', File i) \<in> set es \<longrightarrow> d \<in> fst ` set rows')"
  using es good std
proof (induction es arbitrary: rows tot)
  case (Cons e es)
  note D = blobs_cleanD [OF cl]
  obtain f nd where e: "e = (f, nd)" by (cases e)
  have es': "\<forall>(f, nd) \<in> set es. lookup h (cas_dir S @ [f]) = Some nd" using Cons.prems(1) by simp
  define x where "x = Option.bind (strip_prefix ''sha256-'' (from_utf8_lossy f)) (strip_suffix ''.gguf'')"
  consider (skip) "\<forall>i d. nd = File i \<longrightarrow> x \<noteq> Some d"
    | (dup) i d where "nd = File i" "x = Some d" "d \<in> fst ` set rows"
    | (new) i d where "nd = File i" "x = Some d" "d \<notin> fst ` set rows" by blast
  then show ?case
  proof cases
    case skip
    then have step: "scan_flat h (cas_dir S) (e # es) rows tot = scan_flat h (cas_dir S) es rows tot"
      using e by (cases nd; cases x) (auto simp: x_def)
    have "nd \<noteq> File i" if "f = ''sha256-'' @ d @ ''.gguf''" "is_digest_format d" for i d
    proof
      assume nd: "nd = File i"
      have "is_ascii f" using digest_ascii [OF that(2)] that(1) by (simp add: is_ascii_def byte_val_def)
      then have "x = Some d" using that(1) unfolding x_def flat_name by (simp add: from_utf8_lossy_ascii)
      with skip nd show False by blast
    qed
    then have "(''sha256-'' @ d @ ''.gguf'', File i) \<in> set (e # es) \<Longrightarrow> is_digest_format d \<Longrightarrow>
        (''sha256-'' @ d @ ''.gguf'', File i) \<in> set es" for d i using e by auto
    note sub = this
    from Cons.IH [OF es' Cons.prems(2,3)] obtain rows' tot' where
      R: "scan_flat h (cas_dir S) es rows tot = (rows', tot')" "rows_good S h rows' tot'"
        "fst ` set rows \<subseteq> fst ` set rows'"
      and R': "\<And>d i. is_digest_format d \<Longrightarrow> (''sha256-'' @ d @ ''.gguf'', File i) \<in> set es \<Longrightarrow> d \<in> fst ` set rows'"
      by blast
    show ?thesis unfolding step using R sub R' by (intro exI conjI allI impI) (assumption | blast)+
  next
    case dup
    then have ex: "list_ex (\<lambda>(a, s, m). a = d) rows" by (force simp: list_ex_iff)
    have step: "scan_flat h (cas_dir S) (e # es) rows tot = scan_flat h (cas_dir S) es rows tot"
      using dup ex e by (simp add: x_def [symmetric])
    have lf: "from_utf8_lossy f = ''sha256-'' @ d @ ''.gguf''" using dup(2) unfolding x_def flat_name .
    have "lookup h (cas_dir S @ [f]) = Some (File i)" using Cons.prems(1) e dup(1) by simp
    from D(7) [OF this lf] have f: "f = ''sha256-'' @ d @ ''.gguf''" by simp
    from Cons.IH [OF es' Cons.prems(2,3)] obtain rows' tot' where
      R: "scan_flat h (cas_dir S) es rows tot = (rows', tot')" "rows_good S h rows' tot'"
        "fst ` set rows \<subseteq> fst ` set rows'"
      and R': "\<And>d i. is_digest_format d \<Longrightarrow> (''sha256-'' @ d @ ''.gguf'', File i) \<in> set es \<Longrightarrow> d \<in> fst ` set rows'"
      by blast
    have "a \<in> fst ` set rows'" if "is_digest_format a" "(''sha256-'' @ a @ ''.gguf'', File j) \<in> set (e # es)" for a j
      using that R(3) R' dup(3) e f by auto
    then show ?thesis unfolding step using R by (intro exI conjI allI impI) (assumption | blast)+
  next
    case new
    then have ex: "\<not> list_ex (\<lambda>(a, s, m). a = d) rows" by (force simp: list_ex_iff)
    have l: "lookup h (cas_dir S @ [f]) = Some (File i)" using Cons.prems(1) e new(1) by simp
    have lf: "from_utf8_lossy f = ''sha256-'' @ d @ ''.gguf''" using new(2) unfolding x_def flat_name .
    from D(7) [OF l lf] have f: "f = ''sha256-'' @ d @ ''.gguf''" and d: "is_digest_format d" by auto
    let ?row = "row_of h d i"
    have step: "scan_flat h (cas_dir S) (e # es) rows tot =
        scan_flat h (cas_dir S) es (rows @ [?row]) (u64_add tot (file_size h i))"
      using new ex e entry_metadata_file [OF D(1,2) l] by (simp add: x_def [symmetric] row_of_def)
    have "lookup h (standard_path S d) \<noteq> Some (File j)" for j
      using Cons.prems(3) d new(3) by blast
    then have "held S h d = Some i"
      using l by (auto simp: held_def flat_path_child d f split: option.split node.split)
    then have "good_row S h ?row" using d by (simp add: good_row_def row_of_def)
    then have good': "rows_good S h (rows @ [?row]) (u64_add tot (file_size h i))"
      using Cons.prems(2) new(3) by (simp add: rows_good_def row_of_def)
    have "\<forall>d i. is_digest_format d \<longrightarrow> lookup h (standard_path S d) = Some (File i) \<longrightarrow> d \<in> fst ` set (rows @ [?row])"
      using Cons.prems(3) by simp
    from Cons.IH [OF es' good' this] obtain rows' tot' where
      R: "scan_flat h (cas_dir S) es (rows @ [?row]) (u64_add tot (file_size h i)) = (rows', tot')"
        "rows_good S h rows' tot'" "fst ` set (rows @ [?row]) \<subseteq> fst ` set rows'"
      and R': "\<And>d i. is_digest_format d \<Longrightarrow> (''sha256-'' @ d @ ''.gguf'', File i) \<in> set es \<Longrightarrow> d \<in> fst ` set rows'"
      by blast
    have sub: "d \<in> fst ` set rows'" "fst ` set rows \<subseteq> fst ` set rows'"
      using R(3) by (auto simp: row_of_def)
    have "a \<in> fst ` set rows'" if "is_digest_format a" "(''sha256-'' @ a @ ''.gguf'', File j) \<in> set (e # es)" for a j
      using that sub(1) R' e f by auto
    with sub(2) show ?thesis unfolding step using R(1,2) by (intro exI conjI allI impI) (assumption | blast)+
  qed
qed auto

lemma prune_rows_good:
  assumes cl: "blobs_clean S h"
  shows "\<exists>rows tot. prune_rows S h = Ok (rows, tot) \<and> rows_good S h rows tot \<and>
    (\<forall>d i. is_digest_format d \<longrightarrow> held S h d = Some i \<longrightarrow> row_of h d i \<in> set rows)"
proof -
  note D = blobs_cleanD [OF cl]
  have nul: "nul_free (blobs_dir S)" "nul_free (cas_dir S)" using D(3) by (simp_all add: path_simps)
  have dirs: "is_dir h (blobs_dir S)" "is_dir h (cas_dir S)"
    "read_dir h (blobs_dir S) = Ok (children h (blobs_dir S))"
    "read_dir h (cas_dir S) = Ok (children h (cas_dir S))"
    using D(2,4,5) nul
    by (simp_all add: is_dir_def read_dir_def refuse_fault_free stat_lookup resolve_plain plain_def)
  have ch: "\<forall>(f, nd) \<in> set (children h p). lookup h (p @ [f]) = Some nd" for p
    using children_iff [OF D(1)] by blast
  have "rows_good S h [] 0" by (simp add: rows_good_def)
  from scan_blobs_good [OF cl ch _ this] children_distinct [OF D(1)] obtain r0 t0
    where r0: "scan_blobs h (blobs_dir S) (children h (blobs_dir S)) [] 0 = Ok (r0, t0)"
      "rows_good S h r0 t0" and r0': "\<And>d. d \<in> fst ` set r0 \<longleftrightarrow> (\<exists>i. (d, File i) \<in> set (children h (blobs_dir S)))"
    by auto
  have std: "\<forall>d i. is_digest_format d \<longrightarrow> lookup h (standard_path S d) = Some (File i) \<longrightarrow> d \<in> fst ` set r0"
    using r0' children_iff [OF D(1)] by (simp add: standard_path_child)
  from scan_flat_good [OF cl ch r0(2) std] obtain rows tot
    where R: "scan_flat h (cas_dir S) (children h (cas_dir S)) r0 t0 = (rows, tot)" "rows_good S h rows tot"
      "fst ` set r0 \<subseteq> fst ` set rows"
      and R': "\<And>d i. is_digest_format d \<Longrightarrow> (''sha256-'' @ d @ ''.gguf'', File i) \<in> set (children h (cas_dir S)) \<Longrightarrow>
        d \<in> fst ` set rows" by blast
  have "row_of h d i \<in> set rows" if d: "is_digest_format d" and hd: "held S h d = Some i" for d i
  proof -
    have "(\<exists>j. lookup h (standard_path S d) = Some (File j)) \<or> lookup h (flat_path S ''gguf'' d) = Some (File i)"
      using hd by (auto simp: held_def split: option.splits node.splits)
    then have "d \<in> fst ` set rows"
      using std R(3) R' children_iff [OF D(1)] d by (auto simp: flat_path_child)
    then obtain r where r: "r \<in> set rows" "fst r = d" by auto
    then have "good_row S h r" using R(2) by (simp add: rows_good_def)
    with r hd show ?thesis by (auto simp: good_row_def)
  qed
  moreover have "prune_rows S h = Ok (rows, tot)"
    using r0(1) R(1) dirs by (simp add: prune_rows_def)
  ultimately show ?thesis using R(2) by blast
qed

subsection \<open>A store with blobs and a pin, for the witnesses\<close>

definition dg :: "nat \<Rightarrow> string" where
  "dg n = replicate 63 (CHR ''0'') @ [hex_char n]"

text \<open>Three blobs of 3, 2 and 1 bytes, the second pinned, the third with a flat safetensors link.\<close>

definition prune_host :: host where
  "prune_host = plain_host
     (demo_dirs @ [([''m'', ''pinned''], Dir), ([''m'', ''pinned'', dg 2], File 3),
       ([''m'', ''cas'', ''blobs'', ''sha256'', dg 1], File 0),
       ([''m'', ''cas'', ''blobs'', ''sha256'', dg 2], File 1),
       ([''m'', ''cas'', ''blobs'', ''sha256'', dg 3], File 2),
       ([''m'', ''cas'', ''sha256-'' @ dg 3 @ ''.safetensors''], File 2)])
     [(0, \<lparr>content = ''abc'', mtime = 30\<rparr>), (1, \<lparr>content = ''de'', mtime = 10\<rparr>),
      (2, \<lparr>content = ''f'', mtime = 20\<rparr>), (3, \<lparr>content = [], mtime = 0\<rparr>)]"

definition demo_evm :: eviction_manager where
  "demo_evm = \<lparr>pinned_dir = [''m'', ''pinned'']\<rparr>"

lemma dg_format: "is_digest_format (dg 1)" "is_digest_format (dg 2)" "is_digest_format (dg 3)"
  by code_simp+

lemma prune_host_fs_ok: "fs_ok prune_host"
  by code_simp

lemma prune_host_entries:
  "list_all (\<lambda>(p, nd). case nd of Symlink t \<Rightarrow> False | Dir \<Rightarrow> last p \<in> {''m'', ''cas'', ''incoming'', ''blobs'', ''sha256'', ''pinned''}
     | File i \<Rightarrow> butlast p = [''m'', ''pinned''] \<or> butlast p = blobs_dir demo_store \<and> is_digest_format (last p)
         \<or> p = [''m'', ''cas'', ''sha256-'' @ dg 3 @ ''.safetensors'']) (ents prune_host)"
  by code_simp

lemma prune_host_entry:
  assumes "lookup prune_host p = Some nd" and "p \<noteq> []"
  shows "nd = Dir \<Longrightarrow> last p \<in> {''m'', ''cas'', ''incoming'', ''blobs'', ''sha256'', ''pinned''}"
    and "nd = File i \<Longrightarrow> butlast p = [''m'', ''pinned''] \<or> butlast p = blobs_dir demo_store \<and> is_digest_format (last p)
         \<or> p = [''m'', ''cas'', ''sha256-'' @ dg 3 @ ''.safetensors'']"
    and "nd \<noteq> Symlink t"
  using prune_host_entries lookup_in_ents [OF assms(2,1)] by (auto simp: list_all_iff)

lemma prune_host_plain: "plain prune_host p"
  unfolding plain_def using prune_host_entry(3) [of p] by (cases "p = []") auto

lemma prune_host_pins_plain: "pins_plain demo_evm demo_store prune_host"
  by (simp add: pins_plain_def prune_host_plain demo_evm_def demo_store_def)

lemma prune_host_clean: "blobs_clean demo_store prune_host"
proof -
  have st: "root_dir demo_store = [''m'']" by (simp add: demo_store_def)
  have dirs: "lookup prune_host (blobs_dir demo_store) = Some Dir" "lookup prune_host (cas_dir demo_store) = Some Dir"
    by code_simp+
  have a: "is_digest_format f" if "lookup prune_host (blobs_dir demo_store @ [f]) = Some (File i)" for f i
    using prune_host_entry(2) [OF that] by (auto simp: path_simps st)
  have b: False if "lookup prune_host (cas_dir demo_store @ [f]) = Some (File i)"
    "from_utf8_lossy f = ''sha256-'' @ x @ ''.gguf''" for f i x
  proof -
    have f: "f = ''sha256-'' @ dg 3 @ ''.safetensors''"
      using prune_host_entry(2) [OF that(1)] by (auto simp: path_simps st)
    have "is_ascii (''sha256-'' @ dg 3 @ ''.safetensors'')" by code_simp
    with f that(2) gguf_not_safetensors [of x "dg 3"] show False by (simp add: from_utf8_lossy_ascii)
  qed
  have c: "lookup prune_host (standard_path demo_store d) \<noteq> Some Dir \<and>
      lookup prune_host (flat_path demo_store ''gguf'' d) \<noteq> Some Dir" if d: "is_digest_format d" for d
  proof -
    have "length d = 64" using d by (simp add: is_digest_format_def DIGEST_LEN_def)
    then show ?thesis
      using prune_host_entry(1) [of "standard_path demo_store d" Dir]
        prune_host_entry(1) [of "flat_path demo_store ''gguf'' d" Dir] d
      by (auto simp: standard_path_eq flat_path_eq st)
  qed
  show ?thesis
    unfolding blobs_clean_def
  proof (intro conjI allI impI)
    fix f i assume "lookup prune_host (blobs_dir demo_store @ [f]) = Some (File i)"
    then show "is_digest_format f" by (rule a)
  next
    fix f i x assume "lookup prune_host (cas_dir demo_store @ [f]) = Some (File i)"
      "from_utf8_lossy f = ''sha256-'' @ x @ ''.gguf''"
    then show "f = from_utf8_lossy f" "is_digest_format x" using b by blast+
  next
    fix d :: string assume "is_digest_format d"
    then show "lookup prune_host (standard_path demo_store d) \<noteq> Some Dir"
      "lookup prune_host (flat_path demo_store ''gguf'' d) \<noteq> Some Dir" using c by blast+
  qed (simp_all add: dirs prune_host_fs_ok st, simp add: prune_host_def)
qed

section \<open>Properties of pins and pruning\<close>

text \<open>
  Pins are a set.  On a registry of pins in order, after any sequence of \<open>pin\<close> and \<open>unpin\<close>
  calls on digests, \<open>is_pinned\<close> holds for exactly the digests whose last call was a \<open>pin\<close>, or that
  were pinned before and not named since.
\<close>

theorem pins_refine_set:
  assumes "pins_inv E h" and "list_all (op_valid is_digest_format (\<lambda>u. True)) ops"
    and "is_digest_format d"
  defines "h' \<equiv> run_store (\<lambda>d u h. snd (pin E d h)) (\<lambda>d h. snd (unpin E d h)) ops h"
  shows "pins_inv E h' \<and> (is_pinned E h' d \<longleftrightarrow>
    run_map ops (\<lambda>x. if is_digest_format x \<and> is_pinned E h x then Some () else None) d = Some ())"
proof
  show inv: "pins_inv E h'" unfolding h'_def by (rule pins.run_inv [OF assms(1,2)])
  have "pin_view E h' d = run_map ops (pin_view E h) d"
    unfolding h'_def by (rule pins.run_refines [OF assms(1-3)])
  also have "\<dots> = run_map ops (\<lambda>x. if is_digest_format x \<and> is_pinned E h x then Some () else None) d"
    by (rule pins.run_map_cong [OF _ assms(3)])
       (use is_pinned_view [OF assms(1)] in \<open>auto intro: pin_view_None\<close>)
  finally show "is_pinned E h' d \<longleftrightarrow>
      run_map ops (\<lambda>x. if is_digest_format x \<and> is_pinned E h x then Some () else None) d = Some ()"
    using is_pinned_view [OF inv assms(3)] by simp
qed


lemma foldl_u64_add: "n + sum_list xs < 2 ^ 64 \<Longrightarrow> foldl u64_add n xs = n + sum_list xs"
proof (induction xs arbitrary: n)
  case (Cons x xs)
  then have "foldl u64_add n (x # xs) = foldl u64_add (n + x) xs" by simp
  with Cons show ?case by simp
qed simp

lemma good_row_candidate:
  assumes "blobs_clean S h" and "good_row S h r"
  shows "candidate S h (fst r)"
proof -
  obtain i where d: "is_digest_format (fst r)" and hd: "held S h (fst r) = Some i"
    using assms(2) by (auto simp: good_row_def)
  have "\<exists>p \<in> prune_targets S (fst r). \<exists>i. lookup h p = Some (File i)"
    using hd by (auto simp: held_def prune_targets_digest [OF d] split: option.splits node.splits)
  then show ?thesis
    using d blobs_cleanD(8) [OF assms(1) d] by (auto simp: candidate_def prune_targets_digest [OF d])
qed

lemma evict_within: "tot \<le> mx \<Longrightarrow> evict pinned mx rows tot = []"
  by (cases "(pinned, mx, rows, tot)" rule: evict.cases) auto

lemma rows_total_filter: "rows_total (filter P xs) \<le> rows_total xs"
  by (induction xs) (auto simp: rows_total_def)

text \<open>What is removed and what is returned, in terms of the list the eviction yields.\<close>

lemma prune_evicts:
  fixes rows :: "blob_row list"
  defines "sorted_rows \<equiv> sort_key row_time rows"
  assumes "blobs_clean S h" and "pins_plain E S h" and "rows_good S h rows tot"
    and "prune_rows S h = Ok (rows, tot)" and "rows_total rows < 2 ^ 64"
  shows "\<exists>h'. prune E S mx h = (Ok (rows_total (evict (is_pinned E h) mx sorted_rows tot)), h') \<and>
    (\<forall>q. lookup h' q =
      (if \<exists>e \<in> set (evict (is_pinned E h) mx sorted_rows tot). q \<in> prune_targets S (fst e) then None else lookup h q))"
proof (cases "tot \<le> mx")
  case True
  then show ?thesis using assms(5) by (simp add: prune_def evict_within)
next
  case False
  let ?ev = "evict (is_pinned E h) mx sorted_rows tot"
  have key: "(\<lambda>(d, s, m). m) = row_time" by (simp add: row_time_def fun_eq_iff)
  obtain n h' where l: "prune_loop E S mx sorted_rows tot 0 h = (n, h')" by fastforce
  have "\<forall>r \<in> set sorted_rows. candidate S h (fst r)"
    using assms(4) good_row_candidate [OF assms(2)] by (simp add: rows_good_def sorted_rows_def)
  moreover have "distinct (map fst sorted_rows)"
    using assms(4) by (auto simp: rows_good_def distinct_map distinct_sort sorted_rows_def)
  ultimately have n: "n = foldl u64_add 0 (map row_size ?ev)"
    and look: "\<forall>q. lookup h' q = (if \<exists>e \<in> set ?ev. q \<in> prune_targets S (fst e) then None else lookup h q)"
    using prune_loop_evict [OF l assms(3) blobs_cleanD(2,3) [OF assms(2)]] by blast+
  obtain pre post where split: "sorted_rows = pre @ post" "?ev = filter (\<lambda>r. \<not> is_pinned E h (fst r)) pre"
    using evict_prefix [of sorted_rows "is_pinned E h" mx tot] by blast
  have "rows_total sorted_rows = rows_total rows"
    by (simp add: rows_total_def sorted_rows_def flip: sum_mset_sum_list)
  then have "rows_total pre \<le> rows_total rows" using split(1) by (simp add: rows_total_def)
  with rows_total_filter [of "\<lambda>r. \<not> is_pinned E h (fst r)" pre] have "rows_total ?ev \<le> rows_total rows"
    unfolding split(2) by (rule order_trans)
  then have "n = rows_total ?ev"
    using n assms(6) foldl_u64_add [of 0 "map row_size ?ev"] by (simp add: rows_total_def)
  then show ?thesis using l look False assms(5) by (simp add: prune_def key sorted_rows_def)
qed

text \<open>
  C10. Least recently used first.  On a clean store whose total is below \<open>2^64\<close>, \<open>prune\<close> succeeds.
  There is a list \<open>ev\<close> of evicted blobs such that exactly their names are removed; each is a blob
  of the store and unpinned; the result is the sum of their sizes; if an unpinned blob stays, the
  quota is met and no evicted blob was newer; and the quota was not met before the last eviction.
\<close>

theorem prune_lru:
  assumes "blobs_clean S h" and "pins_plain E S h"
    and "prune_rows S h = Ok (rows, tot)" and "rows_total rows < 2 ^ 64"
  shows "\<exists>ev h'. prune E S mx h = (Ok (rows_total ev), h') \<and>
    (\<forall>q. lookup h' q = (if \<exists>e \<in> set ev. q \<in> prune_targets S (fst e) then None else lookup h q)) \<and>
    (\<forall>e \<in> set ev. e \<in> set rows \<and> \<not> is_pinned E h (fst e)) \<and> distinct ev \<and>
    (\<forall>r. r \<in> set rows \<longleftrightarrow> (\<exists>d i. is_digest_format d \<and> held S h d = Some i \<and> r = row_of h d i)) \<and>
    (\<forall>r \<in> set rows - set ev. \<not> is_pinned E h (fst r) \<longrightarrow>
       rows_total rows - rows_total ev \<le> mx \<and> (\<forall>e \<in> set ev. row_time e \<le> row_time r)) \<and>
    (ev \<noteq> [] \<longrightarrow> mx < rows_total rows - rows_total (butlast ev))"
proof -
  obtain rows' tot' where P: "prune_rows S h = Ok (rows', tot')" "rows_good S h rows' tot'"
    "\<And>d i. is_digest_format d \<Longrightarrow> held S h d = Some i \<Longrightarrow> row_of h d i \<in> set rows'"
    using prune_rows_good [OF assms(1)] by blast
  then have eq: "rows' = rows" "tot' = tot" using assms(3) by auto
  note good = P(2) [unfolded eq] and all = P(3) [unfolded eq]
  let ?rows = "sort_key row_time rows"
  let ?ev = "evict (is_pinned E h) mx ?rows tot"
  note res = prune_evicts [OF assms(1,2) good assms(3,4), of mx]
  have tot: "tot = rows_total rows"
    using good assms(4) foldl_u64_add [of 0 "map row_size rows"] by (simp add: rows_good_def rows_total_def)
  obtain pre post where split: "?rows = pre @ post" "?ev = filter (\<lambda>r. \<not> is_pinned E h (fst r)) pre"
      "?ev \<noteq> [] \<longrightarrow> mx < tot - rows_total (butlast ?ev)"
    using evict_prefix [of ?rows "is_pinned E h" mx tot] by blast
  have "distinct ?rows" using good by (auto simp: rows_good_def distinct_map distinct_sort)
  then have dist_ev: "distinct ?ev" using split(1,2) by simp
  have srt: "sorted (map row_time ?rows)" by simp
  have "\<forall>r \<in> set rows - set ?ev. \<not> is_pinned E h (fst r) \<longrightarrow>
       rows_total rows - rows_total ?ev \<le> mx \<and> (\<forall>e \<in> set ?ev. row_time e \<le> row_time r)"
    using evict_lru [OF srt, of _ "is_pinned E h" mx tot] tot by auto
  moreover have "\<forall>e \<in> set ?ev. e \<in> set rows \<and> \<not> is_pinned E h (fst e)"
    using evict_subset [of "is_pinned E h" mx ?rows tot] by auto
  moreover have "\<forall>r. r \<in> set rows \<longleftrightarrow> (\<exists>d i. is_digest_format d \<and> held S h d = Some i \<and> r = row_of h d i)"
    using good all by (auto simp: rows_good_def good_row_def)
  moreover have "?ev \<noteq> [] \<longrightarrow> mx < rows_total rows - rows_total (butlast ?ev)" using split(3) tot by simp
  ultimately show ?thesis using res dist_ev by blast
qed

text \<open>
  What pruning leaves.  Whatever it reclaims, \<open>prune\<close> removes no flat \<^verbatim>\<open>.safetensors\<close> file: a
  digest with such a file keeps it, and \<open>has_blob\<close> still finds it.
\<close>

theorem prune_keeps_safetensors:
  assumes "prune E S mx h = (r, h')" and "fs_ok h" and "pins_plain E S h"
    and "is_digest_format d" and "lookup h (flat_path S ''safetensors'' d) = Some (File i)"
    and "fault_free h" and "nul_free (root_dir S)"
  shows "lookup h' (flat_path S ''safetensors'' d) = Some (File i) \<and> has_blob S h' d"
proof -
  let ?p = "flat_path S ''safetensors'' d"
  note E = prune_effect [OF assms(1-3)]
  have in_b: "?p \<in> blob_paths S d" by (simp add: blob_paths_def)
  have "?p \<notin> prune_targets S x" if "no_slash x" for x
  proof
    assume q: "?p \<in> prune_targets S x"
    from prune_targets_blob [OF that assms(4) q in_b] have "x = d" .
    with q assms(4) gguf_not_safetensors [of d d] show False
      by (auto simp: prune_targets_digest standard_path_eq flat_path_eq)
  qed
  then have l: "lookup h' ?p = Some (File i)" using E assms(5) by metis
  have nul: "nul_free ?p" by (rule nul_free_blob_paths [OF assms(7,4) in_b])
  have "fault_free h'" using E assms(6) same_files_fault_free by blast
  then have "is_file h' ?p" using nul l by (rule is_file_fault_free(1))
  then have "has_blob S h' d" by (simp add: has_blob_def blob_path_def Let_def)
  with l show ?thesis by blast
qed

lemma prune_host_root: "nul_free (root_dir demo_store)" "fault_free prune_host"
  by (simp_all add: demo_store_def prune_host_def)

theorem pins_refine_set_witness:
  "is_pinned demo_evm
     (run_store (\<lambda>d u h. snd (pin demo_evm d h)) (\<lambda>d h. snd (unpin demo_evm d h))
        [Put (dg 1) (), Del (dg 2)] prune_host) (dg 1) \<and>
   \<not> is_pinned demo_evm
     (run_store (\<lambda>d u h. snd (pin demo_evm d h)) (\<lambda>d h. snd (unpin demo_evm d h))
        [Put (dg 1) (), Del (dg 2)] prune_host) (dg 2)"
proof -
  have one: "p = [''m'', ''pinned'', dg 2]"
    if "prefix [''m'', ''pinned''] p" "lookup prune_host p = Some (File i)" for p i
  proof -
    have "p \<in> fst ` set (ents prune_host)" using that(2) lookup_in_ents [of p prune_host] by force
    moreover have "list_all (\<lambda>(p, nd). prefix [''m'', ''pinned''] p \<longrightarrow> p = [''m'', ''pinned''] \<or>
        p = [''m'', ''pinned'', dg 2]) (ents prune_host)" by code_simp
    ultimately have "p = [''m'', ''pinned''] \<or> p = [''m'', ''pinned'', dg 2]"
      using that(1) by (auto simp: list_all_iff)
    moreover have "lookup prune_host [''m'', ''pinned''] = Some Dir" by code_simp
    ultimately show ?thesis using that(2) by auto
  qed
  have three: "list_all (\<lambda>(p, nd). nd = File 3 \<longrightarrow> p = [''m'', ''pinned'', dg 2]) (ents prune_host)"
    by code_simp
  have inv: "pins_inv demo_evm prune_host"
    unfolding pins_inv_def owned_def
  proof (intro conjI allI impI)
    fix p q i assume pq: "prefix (pinned_dir demo_evm) p" "lookup prune_host p = Some (File i)"
      "lookup prune_host q = Some (File i)"
    then have p: "p = [''m'', ''pinned'', dg 2]" using one by (simp add: demo_evm_def)
    moreover have "lookup prune_host [''m'', ''pinned'', dg 2] = Some (File 3)" by code_simp
    ultimately have i: "i = 3" using pq(2) by simp
    have "q \<noteq> []" using pq(3) by auto
    from lookup_in_ents [OF this pq(3)] three show "p = q" by (auto simp: i p list_all_iff)
  next
    fix d assume "is_digest_format d"
    then have "length d = 64" by (simp add: is_digest_format_def DIGEST_LEN_def)
    then show "lookup prune_host (pinned_dir demo_evm @ [d]) \<noteq> Some Dir"
      using prune_host_entry(1) [of "pinned_dir demo_evm @ [d]" Dir] by auto
  next
    show "path_ok (pinned_dir demo_evm)" "lookup prune_host (pinned_dir demo_evm) = Some Dir" by code_simp+
  qed (simp_all add: prune_host_fs_ok prune_host_root prune_host_plain, simp add: demo_evm_def)
  have ops: "list_all (op_valid is_digest_format (\<lambda>u. True)) [Put (dg 1) (), Del (dg 2)]" by code_simp
  have "dg 1 \<noteq> dg 2" by code_simp
  then show ?thesis
    using pins_refine_set [OF inv ops dg_format(1)] pins_refine_set [OF inv ops dg_format(2)] by simp
qed


theorem prune_lru_witness:
  "\<exists>ev h'. prune demo_evm demo_store 5 prune_host = (Ok (rows_total ev), h') \<and>
    (\<forall>q. lookup h' q = (if \<exists>e \<in> set ev. q \<in> prune_targets demo_store (fst e) then None else lookup prune_host q))"
proof -
  have "prune_rows demo_store prune_host = Ok ([(dg 1, 3, 30), (dg 2, 2, 10), (dg 3, 1, 20)], 6)"
    by code_simp
  moreover have "rows_total [(dg 1, 3, 30), (dg 2, 2, 10), (dg 3, 1, 20)] < 2 ^ 64" by simp
  ultimately have "\<exists>ev h'. prune demo_evm demo_store 5 prune_host = (Ok (rows_total ev), h') \<and>
      (\<forall>q. lookup h' q = (if \<exists>e \<in> set ev. q \<in> prune_targets demo_store (fst e) then None else lookup prune_host q)) \<and>
      (\<forall>e \<in> set ev. e \<in> set [(dg 1, 3, 30), (dg 2, 2, 10), (dg 3, 1, 20)] \<and> \<not> is_pinned demo_evm prune_host (fst e)) \<and>
      distinct ev"
    using prune_lru [OF prune_host_clean prune_host_pins_plain, of _ _ 5] by iprover
  then show ?thesis by iprover
qed

theorem prune_keeps_safetensors_witness:
  "fst (prune demo_evm demo_store 5 prune_host) = Ok 1 \<and>
   has_blob demo_store (snd (prune demo_evm demo_store 5 prune_host)) (dg 3)"
proof
  show "fst (prune demo_evm demo_store 5 prune_host) = Ok 1" by code_simp
  have "lookup prune_host (flat_path demo_store ''safetensors'' (dg 3)) = Some (File 2)" by code_simp
  from prune_keeps_safetensors [OF _ prune_host_fs_ok prune_host_pins_plain dg_format(3) this
      prune_host_root(2,1), of 5]
  show "has_blob demo_store (snd (prune demo_evm demo_store 5 prune_host)) (dg 3)"
    by (metis prod.collapse)
qed

end
