(* ===== verification/Validator.thy ===== *)
theory Validator
  imports Digest
begin

text \<open>
  The format policy (\<^verbatim>\<open>format/validator.rs\<close>): the refusal of file extensions that pickle uses and the
  classification of the first bytes of a stream.  The lemmas characterise both decisions; one of them
  shows that a class of well-formed SafeTensors files is taken for pickles.
\<close>

section \<open>Extensions\<close>

definition BANNED_EXTENSIONS :: "string list" where
  "BANNED_EXTENSIONS = [''pt'', ''bin'', ''pkl'', ''pickle'', ''joblib'']"

text \<open>
  \<open>Path::extension\<close>: what follows the last dot of the file name, unless the dot is its first
  character; a path without a final name has none.
\<close>

definition path_file_name :: "string \<Rightarrow> string option" where
  "path_file_name p =
     (case rev (path_comps p) of [] \<Rightarrow> None | c # cs \<Rightarrow> if c = ''..'' then None else Some c)"

definition path_extension :: "string \<Rightarrow> string option" where
  "path_extension p =
     (case path_file_name p of None \<Rightarrow> None | Some f \<Rightarrow>
       (case split_once (CHR ''.'') (rev f) of
          None \<Rightarrow> None
        | Some (after, before) \<Rightarrow> if before = [] then None else Some (rev after)))"

text \<open>
  \<open>str::to_lowercase\<close> as far as a comparison with ASCII text can see it: the letters \<open>A\<close> to \<open>Z\<close>
  and the Kelvin sign (\<open>U+212A\<close>), the only other code point whose lower case is one ASCII letter.
\<close>

fun to_lowercase :: "string \<Rightarrow> string" where
  "to_lowercase (a # b # c # s) =
     (if a = CHR 0xE2 \<and> b = CHR 0x84 \<and> c = CHR 0xAA then CHR ''k'' # to_lowercase s
      else ascii_lower_char a # to_lowercase (b # c # s))"
| "to_lowercase s = map ascii_lower_char s"

definition validate_file_safety :: "string \<Rightarrow> unit res" where
  "validate_file_safety path =
     (case path_extension path of
        Some ext \<Rightarrow>
          if utf8_valid ext \<and> to_lowercase ext \<in> set BANNED_EXTENSIONS then
            Err (SecurityRejection (''File extension '' @ CHR 0x27 # ''.'' @ ext @ CHR 0x27 #
              '' may contain unsafe Python pickle bytecode''))
          else Ok ()
      | None \<Rightarrow> Ok ())"

section \<open>The first bytes\<close>

datatype safe_format = Gguf | SafeTensors | Onnx

instantiation safe_format :: linorder
begin
definition less_eq_safe_format :: "safe_format \<Rightarrow> safe_format \<Rightarrow> bool" where
  "less_eq_safe_format a b = (a = b \<or> a = Gguf \<or> b = Onnx)"
definition less_safe_format :: "safe_format \<Rightarrow> safe_format \<Rightarrow> bool" where
  "less_safe_format a b = (a \<noteq> b \<and> (a = Gguf \<or> b = Onnx))"
instance
  by intro_classes (auto simp: less_eq_safe_format_def less_safe_format_def, (metis safe_format.exhaust)+)
end

text \<open>One call of \<open>read\<close> with a buffer of \<open>n\<close> bytes, and what the stream still holds.\<close>

fun read_some :: "nat \<Rightarrow> read_event list \<Rightarrow> io_error + (bytes \<times> read_event list)" where
  "read_some n [] = Ok ([], [])"
| "read_some n (Read_Error e # rs) = Err e"
| "read_some n (Chunk b # rs) =
     (if n < length b then Ok (take n b, Chunk (drop n b) # rs) else Ok (b, rs))"

definition safetensors_head_byte :: "char \<Rightarrow> bool" where
  "safetensors_head_byte b =
     (b \<in> set ''{}'' \<or> b = CHR 0x22 \<or> b \<in> set '':, '' \<or> b = CHR 0x09 \<or> b = CHR 0x0A \<or> b = CHR 0x0D \<or>
      b \<in> set ''[].-+_/'' \<or> b = CHR 0x5C \<or> \<not> (byte_val b \<le> 0x1F \<or> byte_val b = 0x7F))"

definition looks_like_safetensors_json_head :: "bytes \<Rightarrow> bool" where
  "looks_like_safetensors_json_head bs = list_all safetensors_head_byte bs"

definition pad16 :: "bytes \<Rightarrow> bytes" where
  "pad16 b = b @ replicate (16 - length b) (CHR 0x00)"

definition classify_header :: "bytes \<Rightarrow> safe_format res" where
  "classify_header b =
     (let n = length b; header = pad16 b in
      if n < 4 then Err (InvalidFormat ''Stream too short for header'')
      else if take 4 header = ''GGUF'' then Ok Gguf
      else if byte_val (header ! 0) = 0x80 \<and> 2 \<le> byte_val (header ! 1) \<and> byte_val (header ! 1) \<le> 5 then
        Err (SecurityRejection ''Detected Python pickle protocol header opcode'')
      else if take 4 header = [CHR 0x50, CHR 0x4B, CHR 0x03, CHR 0x04] then
        Err (SecurityRejection ''Detected PyTorch PK zip header containing pickle bytecode'')
      else if 9 \<le> n \<and> 8 \<le> le_nat (take 8 header) \<and> le_nat (take 8 header) \<le> 8 * 1024 * 1024 \<and>
          header ! 8 = CHR ''{'' \<and> looks_like_safetensors_json_head (drop 8 (take n header)) then
        Ok SafeTensors
      else if byte_val (header ! 0) = 0x08 then Ok Onnx
      else Err (InvalidFormat ''Unrecognized or unsupported model format header''))"

definition detect_safe_format :: "read_event list \<Rightarrow> safe_format res \<times> read_event list" where
  "detect_safe_format reader =
     (case read_some 16 reader of
        Inl e \<Rightarrow> (Err (Io e), tl reader)
      | Inr (b, rest) \<Rightarrow> (classify_header b, rest))"

section \<open>Lemmas\<close>

lemma pad16_nth: "i < length b \<Longrightarrow> pad16 b ! i = b ! i"
  by (simp add: pad16_def nth_append)

lemma pad16_take: "k \<le> length b \<Longrightarrow> take k (pad16 b) = take k b"
  by (simp add: pad16_def)

lemma read_some_length: "read_some n rs = Inr (b, rs') \<Longrightarrow> length b \<le> n"
  by (cases "(n, rs)" rule: read_some.cases) (auto split: if_splits)

lemma to_lowercase_ascii: "is_ascii s \<Longrightarrow> to_lowercase s = to_ascii_lowercase s"
proof (induction s rule: to_lowercase.induct)
  case (1 a b c s)
  then have "a \<noteq> CHR 0xE2" by (auto simp: is_ascii_def byte_val_def)
  with 1 show ?case by (simp add: to_ascii_lowercase_def is_ascii_def)
qed (simp_all add: to_ascii_lowercase_def)

lemma path_file_name_plain:
  assumes "CHR ''/'' \<notin> set f" and "f \<noteq> []" and "f \<noteq> ''.''" and "f \<noteq> ''..''"
  shows "path_file_name f = Some f"
    and "path_file_name (d @ ''/'' @ f) = Some f"
proof -
  show "path_file_name f = Some f"
    using assms by (simp add: path_file_name_def path_comps_def split_on_no_sep)
  have "split_on (CHR ''/'') (d @ ''/'' @ f) = split_on (CHR ''/'') d @ [f]"
  proof (induction d)
    case Nil
    show ?case using assms(1) by (simp add: split_on_no_sep)
  next
    case (Cons c d)
    then show ?case by (auto simp: split_on_not_Nil split: list.splits)
  qed
  then show "path_file_name (d @ ''/'' @ f) = Some f"
    using assms(2-4) by (simp add: path_file_name_def path_comps_def)
qed

lemma path_extension_name:
  assumes "path_file_name p = Some (b @ ''.'' @ e)" and "b \<noteq> []" and "CHR ''.'' \<notin> set e"
  shows "path_extension p = Some e"
proof -
  have "split_once (CHR ''.'') (rev (b @ ''.'' @ e)) = Some (rev e, rev b)"
    using assms(3) by simp
  with assms(1,2) show ?thesis by (simp add: path_extension_def)
qed

section \<open>Properties\<close>

text \<open>
  Extensions.  For a path whose last component is a base name, a dot and an extension without
  a dot, in ASCII: \<open>validate_file_safety\<close> refuses it exactly if the extension, in any letter case,
  is one of the five banned ones, and the refusal is a security rejection.
\<close>

theorem banned_extensions_refused:
  assumes "CHR ''/'' \<notin> set b" and "CHR ''/'' \<notin> set e" and "CHR ''.'' \<notin> set e"
    and "b \<noteq> []" and "b @ ''.'' @ e \<noteq> ''..''" and "is_ascii e"
  shows "(if to_ascii_lowercase e \<in> set BANNED_EXTENSIONS
          then (\<exists>m. validate_file_safety (d @ ''/'' @ b @ ''.'' @ e) = Err (SecurityRejection m) \<and>
                 validate_file_safety (b @ ''.'' @ e) = Err (SecurityRejection m))
          else validate_file_safety (d @ ''/'' @ b @ ''.'' @ e) = Ok () \<and>
            validate_file_safety (b @ ''.'' @ e) = Ok ())"
proof -
  have f: "CHR ''/'' \<notin> set (b @ ''.'' @ e)" "b @ ''.'' @ e \<noteq> []" "b @ ''.'' @ e \<noteq> ''.''"
    using assms by (auto simp: append_eq_Cons_conv)
  have "path_extension (d @ ''/'' @ b @ ''.'' @ e) = Some e" "path_extension (b @ ''.'' @ e) = Some e"
    using path_extension_name [OF path_file_name_plain(2) [OF f assms(5)] assms(4,3)]
      path_extension_name [OF path_file_name_plain(1) [OF f assms(5)] assms(4,3)] by auto
  then show ?thesis
    using assms(6) by (auto simp: validate_file_safety_def to_lowercase_ascii ascii_utf8_valid)
qed

theorem banned_extensions_refused_witness:
  "\<exists>m. validate_file_safety (''/srv'' @ ''/'' @ ''model.v1'' @ ''.'' @ ''PKL'') = Err (SecurityRejection m)"
proof -
  have e: "is_ascii ''PKL''" "to_ascii_lowercase ''PKL'' \<in> set BANNED_EXTENSIONS" by code_simp+
  show ?thesis using banned_extensions_refused [of "''model.v1''" "''PKL''" "''/srv''"] e by auto
qed

text \<open>
  C27. Classification.  What the first read delivers decides: an accepted stream starts with
  \<open>GGUF\<close>, or with a plausible SafeTensors length and \<open>{\<close>, or with the byte \<open>0x08\<close>; and nothing
  that starts with a pickle opcode of protocol 2 to 5 or with a zip header is ever accepted.
\<close>

theorem detect_safe_format_sound:
  assumes "read_some 16 rs = Ok (b, rest)"
  shows "(fst (detect_safe_format rs) = Ok Gguf \<longleftrightarrow> 4 \<le> length b \<and> take 4 b = ''GGUF'') \<and>
    (fst (detect_safe_format rs) = Ok SafeTensors \<longrightarrow> 9 \<le> length b \<and> b ! 8 = CHR ''{'' \<and>
       8 \<le> le_nat (take 8 b) \<and> le_nat (take 8 b) \<le> 8388608 \<and> list_all safetensors_head_byte (drop 8 b)) \<and>
    (fst (detect_safe_format rs) = Ok Onnx \<longrightarrow> 4 \<le> length b \<and> byte_val (b ! 0) = 8) \<and>
    (4 \<le> length b \<and> (byte_val (b ! 0) = 128 \<and> 2 \<le> byte_val (b ! 1) \<and> byte_val (b ! 1) \<le> 5 \<or>
        take 4 b = [CHR 0x50, CHR 0x4B, CHR 0x03, CHR 0x04]) \<longrightarrow>
       (\<exists>m. fst (detect_safe_format rs) = Err (SecurityRejection m)))"
proof -
  have eq: "fst (detect_safe_format rs) = classify_header b" using assms by (simp add: detect_safe_format_def)
  have n: "length b \<le> 16" using read_some_length [OF assms] .
  have t: "4 \<le> length b \<Longrightarrow> take 4 (pad16 b) = take 4 b" "9 \<le> length b \<Longrightarrow> take 8 (pad16 b) = take 8 b"
    "take (length b) (pad16 b) = b"
    "4 \<le> length b \<Longrightarrow> pad16 b ! 0 = b ! 0" "4 \<le> length b \<Longrightarrow> pad16 b ! 1 = b ! 1"
    "9 \<le> length b \<Longrightarrow> pad16 b ! 8 = b ! 8"
    by (auto simp: pad16_take intro!: pad16_nth)
  have first: "take 4 b = CHR ''G'' # xs \<Longrightarrow> byte_val (b ! 0) \<noteq> 128" for xs
    by (cases b) (auto simp: byte_val_def)
  show ?thesis
    unfolding eq classify_header_def Let_def looks_like_safetensors_json_head_def
    using t first by (auto split: if_splits)
qed

theorem detect_safe_format_sound_witness:
  "fst (detect_safe_format [Chunk ''GGUF....''] ) = Ok Gguf \<and>
   (\<exists>m. fst (detect_safe_format [Chunk [CHR 0x80, CHR 0x04, CHR 0x95, CHR 0x00]]) = Err (SecurityRejection m))"
proof -
  have "byte_val (CHR 0x80) = 128" "byte_val (CHR 0x04) = 4" by (simp_all add: byte_val_def)
  then show ?thesis
    using detect_safe_format_sound [of "[Chunk ''GGUF....'']" "''GGUF....''" "[]"]
      detect_safe_format_sound [of "[Chunk [CHR 0x80, CHR 0x04, CHR 0x95, CHR 0x00]]"
        "[CHR 0x80, CHR 0x04, CHR 0x95, CHR 0x00]" "[]"] by simp
qed

text \<open>
  A false alarm.  A SafeTensors file whose header length is, modulo \<open>2^16\<close>, between
  \<open>0x0280\<close> and \<open>0x0580\<close> with low byte \<open>0x80\<close> (640, 896, 1152 or 1408 bytes among others, all
  multiples of 8 as writers pad them) is refused as a Python pickle, whatever its JSON.
\<close>

theorem safetensors_taken_for_pickle:
  assumes "n < 2 ^ 64" and "n mod 2 ^ 16 \<in> {0x280, 0x380, 0x480, 0x580}" and "length json = 8"
  shows "\<exists>m. fst (detect_safe_format [Chunk (le_bytes 8 n @ json)]) = Err (SecurityRejection m)"
proof -
  let ?b = "le_bytes 8 n @ json"
  have le: "le_bytes 8 n = char_of (n mod 256) # char_of (n div 256 mod 256) # le_bytes 6 (n div 65536)"
  proof -
    have eight: "(8 :: nat) = Suc (Suc 6)" by simp
    show ?thesis unfolding eight le_bytes.simps by (simp add: div_mult2_eq [symmetric])
  qed
  have "n mod 2 ^ 16 = 256 * (n div 256 mod 256) + n mod 256"
    using mod_mult2_eq [of n 256 256] by simp
  then have "n mod 256 = (n mod 2 ^ 16) mod 256" "n div 256 mod 256 = (n mod 2 ^ 16) div 256"
    by simp_all
  then have "n mod 256 = 128" "n div 256 mod 256 \<in> {2, 3, 4, 5}" using assms(2) by auto
  then have "byte_val (?b ! 0) = 128" "byte_val (?b ! 1) \<in> {2, 3, 4, 5}"
    by (simp_all add: le byte_val_def)
  then show ?thesis
    using detect_safe_format_sound [of "[Chunk ?b]" ?b "[]"] assms(3) by auto
qed

theorem safetensors_taken_for_pickle_witness:
  "\<exists>m. fst (detect_safe_format [Chunk (le_bytes 8 640 @ ''{\"w\":{\"d'')]) = Err (SecurityRejection m)"
  using safetensors_taken_for_pickle [of 640 "''{\"w\":{\"d''"] by simp

end
