(* ===== verification/Float_Text.thy ===== *)
theory Float_Text
  imports Prelude
begin

text \<open>
  IEEE 754 numbers as the code prints and computes with them: decoding of \<open>f32\<close> and \<open>f64\<close> bit
  patterns, the \<open>{:.4}\<close> form, and the \<open>f64\<close> arithmetic that budgets need, all in exact integers.
  Standard library and hardware behaviour only; nothing here maps to source lines.
\<close>

section \<open>Rounding\<close>

text \<open>The quotient \<open>a / b\<close> rounded to the nearest integer, ties to even.\<close>

definition round_div :: "nat \<Rightarrow> nat \<Rightarrow> nat" where
  "round_div a b =
     (let q = a div b; r = a mod b in
      if 2 * r > b \<or> 2 * r = b \<and> odd q then q + 1 else q)"

lemma round_div_exact [simp]: "b > 0 \<Longrightarrow> round_div (q * b) b = q"
  by (simp add: round_div_def)

lemma round_div_parts:
  "r < b \<Longrightarrow> round_div (q * b + r) b = (if 2 * r > b \<or> 2 * r = b \<and> odd q then q + 1 else q)"
  by (simp add: round_div_def Let_def)

lemma round_div_bounds:
  assumes "b > 0"
  shows "2 * (round_div a b * b) \<le> 2 * a + b" "2 * a \<le> 2 * (round_div a b * b) + b"
proof -
  define q r where "q = a div b" and "r = a mod b"
  then have a: "a = q * b + r" and r: "r < b" using assms by simp_all
  show "2 * (round_div a b * b) \<le> 2 * a + b" "2 * a \<le> 2 * (round_div a b * b) + b"
    using r unfolding a round_div_parts [OF r] by (auto simp: algebra_simps)
qed

section \<open>Bit patterns\<close>

text \<open>A finite number is a sign, a mantissa and a power of two.\<close>

datatype float_num = Fin bool nat int | Inf bool | NaN

definition float_of_bits :: "nat \<Rightarrow> nat \<Rightarrow> nat \<Rightarrow> float_num" where
  "float_of_bits ebits mbits w =
     (let sign = odd (w div 2 ^ (ebits + mbits)); ex = w div 2 ^ mbits mod 2 ^ ebits; fr = w mod 2 ^ mbits;
          bias = 2 ^ (ebits - 1) - 1 + int mbits in
      if ex = 2 ^ ebits - 1 then (if fr = 0 then Inf sign else NaN)
      else if ex = 0 then Fin sign fr (1 - bias)
      else Fin sign (fr + 2 ^ mbits) (int ex - bias))"

definition f32_of_bits :: "nat \<Rightarrow> float_num" where "f32_of_bits = float_of_bits 8 23"
definition f64_of_bits :: "nat \<Rightarrow> float_num" where "f64_of_bits = float_of_bits 11 52"

definition pad_left :: "nat \<Rightarrow> char \<Rightarrow> string \<Rightarrow> string" where
  "pad_left n c s = replicate (n - length s) c @ s"

text \<open>The \<open>{:.p}\<close> form: the exact value rounded to \<open>p\<close> decimals, ties to even.\<close>

definition show_fixed :: "nat \<Rightarrow> float_num \<Rightarrow> string" where
  "show_fixed p x = (case x of
     NaN \<Rightarrow> ''NaN''
   | Inf s \<Rightarrow> (if s then ''-inf'' else ''inf'')
   | Fin s m e \<Rightarrow>
       (let n = (if e \<ge> 0 then m * 10 ^ p * 2 ^ nat e else round_div (m * 10 ^ p) (2 ^ nat (- e))) in
        (if s then ''-'' else []) @ show_nat (n div 10 ^ p) @
        (if p = 0 then [] else ''.'' @ pad_left p (CHR ''0'') (show_nat (n mod 10 ^ p)))))"

section \<open>Unsigned integers through \<open>f64\<close>\<close>

text \<open>
  \<open>round_53 n\<close> is \<open>n as f64\<close> for an integer \<open>n\<close>: 53 significant bits, ties to even, again an
  integer.  \<open>f64_mul_floor n a k\<close> is \<open>(n as f64 * x) as u64\<close> for the constant \<open>x = a / 2^k\<close>: the
  exact product is rounded to 53 bits, and the cast truncates and saturates.
\<close>

fun bit_len :: "nat \<Rightarrow> nat" where
  "bit_len n = (if n = 0 then 0 else Suc (bit_len (n div 2)))"

declare bit_len.simps [simp del]

definition round_53 :: "nat \<Rightarrow> nat" where
  "round_53 n =
     (let s = bit_len n - 53 in if s = 0 then n else round_div n (2 ^ s) * 2 ^ s)"

definition f64_mul_floor :: "nat \<Rightarrow> nat \<Rightarrow> nat \<Rightarrow> nat" where
  "f64_mul_floor n a k = min u64_max (round_53 (round_53 n * a) div 2 ^ k)"

lemma bit_len_bounds: "n < 2 ^ bit_len n" "n > 0 \<Longrightarrow> 2 ^ (bit_len n - 1) \<le> n"
proof -
  show "n < 2 ^ bit_len n"
  proof (induction n rule: bit_len.induct)
    case (1 n)
    then show ?case by (cases "n = 0") (auto simp: bit_len.simps [of n] split: if_splits)
  qed
  show "n > 0 \<Longrightarrow> 2 ^ (bit_len n - 1) \<le> n"
  proof (induction n rule: bit_len.induct)
    case (1 n)
    show ?case
    proof (cases "n div 2 = 0")
      case True
      with 1 show ?thesis by (simp add: bit_len.simps [of n] bit_len.simps [of 0])
    next
      case False
      then have "2 ^ (bit_len (n div 2) - 1) \<le> n div 2" using 1 by simp
      moreover have "bit_len (n div 2) > 0" using False by (simp add: bit_len.simps [of "n div 2"])
      ultimately have "2 ^ bit_len (n div 2) \<le> 2 * (n div 2)" by (cases "bit_len (n div 2)") auto
      with 1 show ?thesis by (simp add: bit_len.simps [of n])
    qed
  qed
qed

text \<open>The relative error of one rounding is at most \<open>2^-53\<close>.\<close>

lemma round_53_error: "2 ^ 53 * round_53 n \<le> (2 ^ 53 + 1) * n" "(2 ^ 53 - 1) * n \<le> 2 ^ 53 * round_53 n"
proof -
  define s where "s = bit_len n - 53"
  have eq: "round_53 n = (if s = 0 then n else round_div n (2 ^ s) * 2 ^ s)"
    by (simp add: round_53_def s_def Let_def)
  have big: "2 ^ 52 * 2 ^ s \<le> n" if "s \<noteq> 0"
  proof -
    from that have b: "bit_len n = s + 53" by (simp add: s_def)
    then have "n > 0" by (cases "n = 0") (simp_all add: bit_len.simps)
    from bit_len_bounds(2) [OF this] show ?thesis by (simp add: b power_add mult.commute)
  qed
  have "2 * (round_div n (2 ^ s) * 2 ^ s) \<le> 2 * n + 2 ^ s" "2 * n \<le> 2 * (round_div n (2 ^ s) * 2 ^ s) + 2 ^ s"
    using round_div_bounds [of "2 ^ s" n] by simp_all
  with big show "2 ^ 53 * round_53 n \<le> (2 ^ 53 + 1) * n" "(2 ^ 53 - 1) * n \<le> 2 ^ 53 * round_53 n"
    unfolding eq by (auto split: if_splits)
qed

lemma round_53_small: "n < 2 ^ 53 \<Longrightarrow> round_53 n = n"
proof -
  assume n: "n < 2 ^ 53"
  have "bit_len n \<le> 53"
  proof (rule ccontr)
    assume "\<not> bit_len n \<le> 53"
    then have "53 \<le> bit_len n - 1" "n > 0" by (simp_all add: bit_len.simps [of n] split: if_splits)
    then have "(2 :: nat) ^ 53 \<le> 2 ^ (bit_len n - 1)" by (intro power_increasing) simp_all
    with bit_len_bounds(2) [OF \<open>n > 0\<close>] n show False by simp
  qed
  then show ?thesis by (simp add: round_53_def)
qed

end
