(* ===== verification/Std_Text.thy ===== *)
theory Std_Text
  imports Host_FS Float_Text
begin

text \<open>
  Further standard library text functions: the error of \<open>str::from_utf8\<close>, \<open>lines\<close>,
  \<open>split_whitespace\<close>; and a seekable byte reader.  Nothing here maps to source lines.
\<close>

section \<open>\<open>from_utf8\<close>\<close>

text \<open>
  The \<open>Display\<close> of \<open>Utf8Error\<close>: the index of the first byte of the first ill-formed sequence, and
  its length unless the input ends inside a sequence that could go on.
\<close>

definition utf8_truncated :: "bytes \<Rightarrow> bool" where
  "utf8_truncated bs = (snd (utf8_step bs) = length bs \<and>
     (case utf8_lead (byte_val (hd bs)) of None \<Rightarrow> False | Some (lo, hi, n) \<Rightarrow> length bs < n))"

function utf8_error_text :: "nat \<Rightarrow> bytes \<Rightarrow> string" where
  "utf8_error_text i bs =
     (if bs = [] then []
      else if fst (utf8_step bs) then utf8_error_text (i + snd (utf8_step bs)) (drop (snd (utf8_step bs)) bs)
      else if utf8_truncated bs then ''incomplete utf-8 byte sequence from index '' @ show_nat i
      else ''invalid utf-8 sequence of '' @ show_nat (snd (utf8_step bs)) @ '' bytes from index '' @ show_nat i)"
  by pat_completeness auto
termination
  by (relation "measure (\<lambda>(i, bs). length bs)") (auto simp: utf8_step_pos intro!: diff_less)

declare utf8_error_text.simps [simp del]

definition from_utf8 :: "bytes \<Rightarrow> string + string" where
  "from_utf8 bs = (if utf8_valid bs then Ok bs else Err (utf8_error_text 0 bs))"

section \<open>Lines and words\<close>

definition strip_cr :: "string \<Rightarrow> string" where
  "strip_cr l = (case strip_suffix [CHR 0x0D] l of Some r \<Rightarrow> r | None \<Rightarrow> l)"

definition str_lines :: "string \<Rightarrow> string list" where
  "str_lines s = (let ls = split_on (CHR 0x0A) s in map strip_cr (if last ls = [] then butlast ls else ls))"

text \<open>Words separated by white space, on texts whose white space is ASCII.\<close>

definition ascii_space :: "char \<Rightarrow> bool" where
  "ascii_space c = (c = CHR '' '' \<or> in_range 9 13 c)"

fun words_acc :: "string \<Rightarrow> string \<Rightarrow> string list" where
  "words_acc w [] = (if w = [] then [] else [w])"
| "words_acc w (c # s) =
     (if ascii_space c then (if w = [] then words_acc [] s else w # words_acc [] s)
      else words_acc (w @ [c]) s)"

definition split_whitespace :: "string \<Rightarrow> string list" where
  "split_whitespace s = words_acc [] s"

section \<open>A seekable reader\<close>

text \<open>
  The bytes of a file and a position.  \<open>max_pos\<close> is the largest offset the reader can seek to:
  \<open>2^63 - 1\<close> for a file, \<open>2^64 - 1\<close> for a cursor.  Reading the bytes themselves never fails.
\<close>

record seek_reader =
  r_data :: bytes
  r_pos :: nat
  r_max :: nat

type_synonym 'a rd = "seek_reader \<Rightarrow> io_error + ('a \<times> seek_reader)"

definition e_eof :: io_error where
  "e_eof = Io_Error K_UnexpectedEof ''failed to fill whole buffer''"

definition e_inval :: io_error where
  "e_inval = Io_Error K_InvalidInput ''Invalid argument (os error 22)''"

definition invalid_data :: "string \<Rightarrow> io_error" where
  "invalid_data msg = Io_Error K_InvalidData msg"

definition read_exact :: "nat \<Rightarrow> bytes rd" where
  "read_exact n r =
     (if n = 0 then Ok ([], r)
      else if r_pos r + n \<le> length (r_data r)
      then Ok (take n (drop (r_pos r) (r_data r)), r\<lparr>r_pos := r_pos r + n\<rparr>)
      else Err e_eof)"

definition seek_to :: "nat \<Rightarrow> unit rd" where
  "seek_to p r = (if p \<le> r_max r then Ok ((), r\<lparr>r_pos := p\<rparr>) else Err e_inval)"

definition bind_rd :: "'a rd \<Rightarrow> ('a \<Rightarrow> 'b rd) \<Rightarrow> 'b rd" where
  "bind_rd f g r = (case f r of Inl e \<Rightarrow> Err e | Inr (a, r') \<Rightarrow> g a r')"

definition return_rd :: "'a \<Rightarrow> 'a rd" where "return_rd a r = Ok (a, r)"

definition fail_rd :: "io_error \<Rightarrow> 'a rd" where "fail_rd e r = Err e"

definition map_rd :: "('a \<Rightarrow> 'b) \<Rightarrow> 'a rd \<Rightarrow> 'b rd" where
  "map_rd g f = bind_rd f (\<lambda>a. return_rd (g a))"

definition file_reader :: "bytes \<Rightarrow> seek_reader" where
  "file_reader bs = \<lparr>r_data = bs, r_pos = 0, r_max = 2 ^ 63 - 1\<rparr>"

text \<open>A reader that never moves back and keeps its bytes.\<close>

definition forward :: "seek_reader \<Rightarrow> nat \<Rightarrow> seek_reader \<Rightarrow> bool" where
  "forward r n r' = (r_data r' = r_data r \<and> r_max r' = r_max r \<and> r_pos r + n \<le> r_pos r')"

lemma forward_refl [simp]: "forward r 0 r"
  by (simp add: forward_def)

lemma forward_trans: "forward r a r1 \<Longrightarrow> forward r1 b r2 \<Longrightarrow> forward r (a + b) r2"
  by (simp add: forward_def)

lemma forward_mono: "forward r a r1 \<Longrightarrow> b \<le> a \<Longrightarrow> forward r b r1"
  by (simp add: forward_def)

lemma read_exact_forward: "read_exact n r = Inr (bs, r') \<Longrightarrow> forward r n r' \<and> length bs = n"
  by (auto simp: read_exact_def forward_def split: if_splits)

lemma bind_rd_Inr:
  "bind_rd f g r = Inr x \<longleftrightarrow> (\<exists>a r'. f r = Inr (a, r') \<and> g a r' = Inr x)"
  by (auto simp: bind_rd_def split: sum.splits)

lemma map_rd_Inr:
  "map_rd g f r = Inr (b, r') \<longleftrightarrow> (\<exists>a. f r = Inr (a, r') \<and> b = g a)"
  by (auto simp: map_rd_def bind_rd_Inr return_rd_def)

text \<open>Reading from the middle of a known text.\<close>

lemma read_exact_at:
  assumes "r_data r = pre @ bs @ post" and "r_pos r = length pre" and "length bs = n"
  shows "read_exact n r = Ok (bs, r\<lparr>r_pos := length (pre @ bs)\<rparr>)"
proof (cases "n = 0")
  case True
  with assms show ?thesis by (cases r) (simp add: read_exact_def)
qed (use assms in \<open>simp add: read_exact_def\<close>)

end
