(* ===== verification/Gguf.thy ===== *)
theory Gguf
  imports Std_Text Core_Errors
begin

text \<open>
  The GGUF metadata parser (\<^verbatim>\<open>format/gguf.rs\<close>).  Values are read and printed as the code does; the
  recursion of nested arrays is bounded by a fuel that stands for the depth of the call stack, and
  \<open>None\<close> is a stack that was not deep enough.  The lemmas show that a depth in proportion to the
  bytes left is always enough, what encoded headers parse to, and that no smaller bound works.
\<close>

section \<open>Scalars\<close>

definition read_le :: "nat \<Rightarrow> nat rd" where
  "read_le n = map_rd le_nat (read_exact n)"

definition read_u8 :: "nat rd" where "read_u8 = read_le 1"
definition read_u16_le :: "nat rd" where "read_u16_le = read_le 2"
definition read_u32_le :: "nat rd" where "read_u32_le = read_le 4"
definition read_u64_le :: "nat rd" where "read_u64_le = read_le 8"

text \<open>A cast to the signed type of the same width.\<close>

definition as_signed :: "nat \<Rightarrow> nat \<Rightarrow> int" where
  "as_signed b n = (if n < 2 ^ (b - 1) then int n else int n - 2 ^ b)"

definition read_i8 :: "int rd" where "read_i8 = map_rd (as_signed 8) read_u8"
definition read_i16_le :: "int rd" where "read_i16_le = map_rd (as_signed 16) (read_le 2)"
definition read_i32_le :: "int rd" where "read_i32_le = map_rd (as_signed 32) (read_le 4)"
definition read_i64_le :: "int rd" where "read_i64_le = map_rd (as_signed 64) (read_le 8)"
definition read_f32_le :: "float_num rd" where "read_f32_le = map_rd f32_of_bits (read_le 4)"
definition read_f64_le :: "float_num rd" where "read_f64_le = map_rd f64_of_bits (read_le 8)"

definition read_string :: "string rd" where
  "read_string = bind_rd read_u64_le (\<lambda>len.
     if 1024 < len then fail_rd (invalid_data ''Key string exceeds limit'')
     else bind_rd (read_exact len) (\<lambda>buf.
       case from_utf8 buf of Inl e \<Rightarrow> fail_rd (invalid_data e) | Inr s \<Rightarrow> return_rd s))"

definition item_byte_size :: "nat \<Rightarrow> nat option" where
  "item_byte_size item_type =
     (if item_type \<in> {0, 1, 7} then Some 1
      else if item_type \<in> {2, 3} then Some 2
      else if 4 \<le> item_type \<and> item_type \<le> 6 then Some 4
      else if 10 \<le> item_type \<and> item_type \<le> 12 then Some 8
      else None)"

section \<open>Values\<close>

text \<open>Every type but the array.\<close>

definition read_scalar :: "nat \<Rightarrow> string rd" where
  "read_scalar val_type =
     (if val_type = 0 then map_rd show_nat read_u8
      else if val_type = 1 then map_rd show_int read_i8
      else if val_type = 2 then map_rd show_nat read_u16_le
      else if val_type = 3 then map_rd show_int read_i16_le
      else if val_type = 4 then map_rd show_nat read_u32_le
      else if val_type = 5 then map_rd show_int read_i32_le
      else if val_type = 6 then map_rd (show_fixed 4) read_f32_le
      else if val_type = 7 then map_rd (\<lambda>b. show_bool (b \<noteq> 0)) read_u8
      else if val_type = 8 then read_string
      else if val_type = 10 then map_rd show_nat read_u64_le
      else if val_type = 11 then map_rd show_int read_i64_le
      else if val_type = 12 then map_rd (show_fixed 4) read_f64_le
      else fail_rd (invalid_data ''Unknown GGUF type''))"

definition array_text :: "nat \<Rightarrow> string" where
  "array_text n = ''[array: '' @ show_nat n @ '' items]''"

text \<open>The seek over an array of \<open>count\<close> items of fixed width.\<close>

definition skip_payload :: "nat \<Rightarrow> nat \<Rightarrow> string rd" where
  "skip_payload width count r =
     (case checked_mul count width of
        None \<Rightarrow> Err (invalid_data ''GGUF array length overflows u64'')
      | Some payload_size \<Rightarrow>
          (case checked_add (r_pos r) payload_size of
             None \<Rightarrow> Err (invalid_data ''GGUF array seek end overflows u64'')
           | Some pos \<Rightarrow> bind_rd (seek_to pos) (\<lambda>u. return_rd (array_text count)) r))"

fun skip_or_read_value :: "nat \<Rightarrow> nat \<Rightarrow> seek_reader \<Rightarrow> (io_error + (string \<times> seek_reader)) option"
  and skip_items :: "nat \<Rightarrow> nat \<Rightarrow> nat \<Rightarrow> seek_reader \<Rightarrow> (io_error + (unit \<times> seek_reader)) option" where
  "skip_or_read_value 0 val_type r = None"
| "skip_or_read_value (Suc d) val_type r =
     (if val_type \<noteq> 9 then Some (read_scalar val_type r)
      else (case read_u32_le r of Inl e \<Rightarrow> Some (Err e) | Inr (item_type, r1) \<Rightarrow>
       (case read_u64_le r1 of Inl e \<Rightarrow> Some (Err e) | Inr (count, r2) \<Rightarrow>
        (case item_byte_size item_type of
           Some width \<Rightarrow> Some (skip_payload width count r2)
         | None \<Rightarrow>
             (let max_iter = min count (64 * 1024) in
              case skip_items d item_type max_iter r2 of
                None \<Rightarrow> None
              | Some (Inl e) \<Rightarrow> Some (Err e)
              | Some (Inr (u, r3)) \<Rightarrow>
                  if max_iter < count
                  then Some (Err (invalid_data ''GGUF array exceeds safety skip cap; refusing to skip''))
                  else Some (Ok (array_text count, r3)))))))"
| "skip_items d item_type 0 r = Some (Ok ((), r))"
| "skip_items d item_type (Suc n) r =
     (case skip_or_read_value d item_type r of
        None \<Rightarrow> None
      | Some (Inl e) \<Rightarrow> Some (Err e)
      | Some (Inr (s, r1)) \<Rightarrow> skip_items d item_type n r1)"

section \<open>The header\<close>

record gguf_metadata =
  gg_version :: nat
  gg_tensor_count :: nat
  gg_architecture :: "string option"
  gg_context_length :: "nat option"
  gg_file_type :: "nat option"
  gg_attributes :: "(string \<times> string) list"

text \<open>The hash map of attributes is an association list; an insertion replaces the value in place.\<close>

definition gguf_insert :: "string \<Rightarrow> string \<Rightarrow> gguf_metadata \<Rightarrow> gguf_metadata" where
  "gguf_insert key val_str m =
     (let m1 = (if key = ''general.architecture'' then m\<lparr>gg_architecture := Some val_str\<rparr>
                else if ends_with key ''.context_length'' then m\<lparr>gg_context_length := parse_uint 64 val_str\<rparr>
                else if key = ''general.file_type'' then m\<lparr>gg_file_type := parse_uint 32 val_str\<rparr>
                else m)
      in m1\<lparr>gg_attributes := AList.update key val_str (gg_attributes m1)\<rparr>)"

fun read_kvs :: "nat \<Rightarrow> nat \<Rightarrow> gguf_metadata \<Rightarrow> seek_reader \<Rightarrow> (gguf_metadata res \<times> seek_reader) option" where
  "read_kvs d 0 m r = Some (Ok m, r)"
| "read_kvs d (Suc n) m r =
     (case read_string r of Inl e \<Rightarrow> Some (Err (Io e), r) | Inr (key, r1) \<Rightarrow>
      (case read_u32_le r1 of Inl e \<Rightarrow> Some (Err (Io e), r1) | Inr (val_type, r2) \<Rightarrow>
       (case skip_or_read_value d val_type r2 of
          None \<Rightarrow> None
        | Some (Inl e) \<Rightarrow> Some (Err (Io e), r2)
        | Some (Inr (val_str, r3)) \<Rightarrow> read_kvs d n (gguf_insert key val_str m) r3)))"

definition parse_gguf_header :: "nat \<Rightarrow> seek_reader \<Rightarrow> gguf_metadata res option" where
  "parse_gguf_header d r =
     (case read_exact 4 r of Inl e \<Rightarrow> Some (Err (Io e)) | Inr (magic, r1) \<Rightarrow>
      if magic \<noteq> ''GGUF'' then Some (Err (InvalidFormat ''Missing GGUF magic bytes''))
      else (case read_u32_le r1 of Inl e \<Rightarrow> Some (Err (Io e)) | Inr (version, r2) \<Rightarrow>
        if \<not> (2 \<le> version \<and> version \<le> 3)
        then Some (Err (InvalidFormat (''Unsupported GGUF version: '' @ show_nat version)))
        else (case read_u64_le r2 of Inl e \<Rightarrow> Some (Err (Io e)) | Inr (tensor_count, r3) \<Rightarrow>
          (case read_u64_le r3 of Inl e \<Rightarrow> Some (Err (Io e)) | Inr (metadata_kv_count, r4) \<Rightarrow>
            if 4096 < metadata_kv_count
            then Some (Err (InvalidFormat ''GGUF metadata count exceeds safe threshold''))
            else map_option fst (read_kvs d metadata_kv_count
              \<lparr>gg_version = version, gg_tensor_count = tensor_count, gg_architecture = None,
               gg_context_length = None, gg_file_type = None, gg_attributes = []\<rparr> r4)))))"

section \<open>The reader only moves forward\<close>

lemma read_le_forward: "read_le n r = Inr (v, r') \<Longrightarrow> forward r n r' \<and> v < 256 ^ n"
  by (auto simp: read_le_def map_rd_Inr dest!: read_exact_forward) (metis le_nat_bound)

lemmas read_uint_defs = read_u8_def read_u16_le_def read_u32_le_def read_u64_le_def
lemmas read_num_defs = read_uint_defs read_i8_def read_i16_le_def read_i32_le_def read_i64_le_def
  read_f32_le_def read_f64_le_def

lemma read_string_forward: "read_string r = Inr (s, r') \<Longrightarrow> forward r 8 r' \<and> length s \<le> 1024 \<and> utf8_valid s"
  unfolding read_string_def read_u64_le_def bind_rd_Inr
  by (auto simp: fail_rd_def return_rd_def bind_rd_Inr from_utf8_def split: if_splits sum.splits
      dest!: read_le_forward read_exact_forward intro: forward_mono forward_trans)

lemma read_scalar_forward: "read_scalar ty r = Inr (s, r') \<Longrightarrow> forward r 1 r'"
  unfolding read_scalar_def read_num_defs
  by (auto simp: map_rd_Inr fail_rd_def split: if_splits dest!: read_le_forward read_string_forward
      intro: forward_mono)

lemma skip_payload_forward: "skip_payload w c r = Inr (s, r') \<Longrightarrow> forward r 0 r'"
  by (auto simp: skip_payload_def checked_add_def bind_rd_Inr seek_to_def return_rd_def forward_def
      split: option.splits if_splits)

lemma skip_array:
  assumes "read_u32_le r = Inr (it, r1)" and "read_u64_le r1 = Inr (count, r2)" and "item_byte_size it = None"
  shows "skip_or_read_value (Suc d) 9 r =
    (case skip_items d it (min count (64 * 1024)) r2 of
       None \<Rightarrow> None
     | Some (Inl e) \<Rightarrow> Some (Err e)
     | Some (Inr (u, r3)) \<Rightarrow>
         if min count (64 * 1024) < count
         then Some (Err (invalid_data ''GGUF array exceeds safety skip cap; refusing to skip''))
         else Some (Ok (array_text count, r3)))"
  by (simp only: skip_or_read_value.simps Let_def assms sum.case prod.case option.case simp_thms if_False)

lemma skip_array_Ok:
  "(case X of None \<Rightarrow> None | Some (Inl e) \<Rightarrow> Some (Err e)
     | Some (Inr (u, r3)) \<Rightarrow> if b then Some (Err e0) else Some (Ok (t, r3))) = Some (Inr (s, r')) \<Longrightarrow>
   \<exists>u. X = Some (Inr (u, r'))"
  by (auto split: option.splits sum.splits if_splits)

lemma skip_forward:
  "skip_or_read_value d ty r = Some (Inr (s, r')) \<Longrightarrow> forward r 1 r'"
  "skip_items d ty n r = Some (Inr (u, r')) \<Longrightarrow> forward r 0 r'"
proof (induction d ty r and d ty n r arbitrary: s r' and u r' rule: skip_or_read_value_skip_items.induct)
  case (2 d ty r)
  show ?case
  proof (cases "ty = 9")
    case False
    with "2.prems" read_scalar_forward [of ty r s r'] show ?thesis by simp
  next
    case True
    with "2.prems" obtain it r1 count r2 where R: "read_u32_le r = Inr (it, r1)" "read_u64_le r1 = Inr (count, r2)"
      by (auto split: sum.splits)
    then have f: "forward r 12 r2"
      by (auto simp: read_uint_defs dest!: read_le_forward dest: forward_trans)
    have "forward r2 0 r'"
    proof (cases "item_byte_size it")
      case (Some w)
      with "2.prems" True R show ?thesis by (auto dest: skip_payload_forward)
    next
      case None
      have "\<exists>u. skip_items d it (min count (64 * 1024)) r2 = Some (Inr (u, r'))"
        using "2.prems" unfolding True skip_array [OF R None] by (rule skip_array_Ok)
      then obtain u where "skip_items d it (min count (64 * 1024)) r2 = Some (Inr (u, r'))" by blast
      from "2.IH" [OF _ R(1) refl R(2) refl None refl this] True show ?thesis by simp
    qed
    with f show ?thesis by (simp add: forward_def)
  qed
next
  case (4 d ty n r)
  then obtain s r1 where a: "skip_or_read_value d ty r = Some (Inr (s, r1))"
    and b: "skip_items d ty n r1 = Some (Inr (u, r'))"
    by (auto split: option.splits sum.splits)
  from "4.IH"(1) [OF a] "4.IH"(2) [OF a refl refl b] show ?case by (simp add: forward_def)
qed simp_all

section \<open>The depth of the stack\<close>

lemma array_header_forward:
  "read_u32_le r = Inr (it, r1) \<Longrightarrow> read_u64_le r1 = Inr (count, r2) \<Longrightarrow>
   forward r 12 r2 \<and> r_pos r + 12 \<le> length (r_data r)"
  by (auto simp: read_uint_defs read_le_def map_rd_Inr read_exact_def forward_def split: if_splits)

text \<open>Each nested array takes twelve bytes, so the bytes left bound the depth.\<close>

lemma skip_enough:
  "length (r_data r) < r_pos r + 12 * d \<Longrightarrow> 0 < d \<Longrightarrow> skip_or_read_value d ty r \<noteq> None"
  "length (r_data r) < r_pos r + 12 * d \<Longrightarrow> 0 < d \<Longrightarrow> skip_items d ty n r \<noteq> None"
proof (induction d ty r and d ty n r rule: skip_or_read_value_skip_items.induct)
  case (2 d ty r)
  show ?case
  proof (cases "\<exists>it r1 count r2. ty = 9 \<and> read_u32_le r = Inr (it, r1) \<and> read_u64_le r1 = Inr (count, r2) \<and>
      item_byte_size it = None")
    case False
    then show ?thesis by (auto split: sum.splits option.splits)
  next
    case True
    then obtain it r1 count r2 where R: "ty = 9" "read_u32_le r = Inr (it, r1)"
      "read_u64_le r1 = Inr (count, r2)" "item_byte_size it = None" by blast
    note f = array_header_forward [OF R(2,3)]
    then have "length (r_data r2) < r_pos r2 + 12 * d" "0 < d"
      using "2.prems"(1) by (auto simp: forward_def)
    then have "skip_items d it (min count (64 * 1024)) r2 \<noteq> None"
      using "2.IH" [OF _ R(2) refl R(3) refl R(4) refl] R(1) by simp
    then show ?thesis unfolding R(1) skip_array [OF R(2-4)] by (auto split: sum.splits)
  qed
next
  case (4 d ty n r)
  show ?case
  proof (cases "\<exists>s r1. skip_or_read_value d ty r = Some (Inr (s, r1))")
    case False
    with "4.IH"(1) [OF "4.prems"] show ?thesis by (auto split: sum.splits)
  next
    case True
    then obtain s r1 where a: "skip_or_read_value d ty r = Some (Inr (s, r1))" by blast
    have "length (r_data r1) < r_pos r1 + 12 * d"
      using skip_forward(1) [OF a] "4.prems"(1) by (simp add: forward_def)
    from "4.IH"(2) [OF a refl _ this "4.prems"(2)] a show ?thesis by simp
  qed
qed simp_all

text \<open>A deeper stack does not change a result.\<close>

lemma skip_more:
  "skip_or_read_value d ty r = Some x \<Longrightarrow> skip_or_read_value (Suc d) ty r = Some x"
  "skip_items d ty n r = Some y \<Longrightarrow> skip_items (Suc d) ty n r = Some y"
proof (induction d ty r and d ty n r arbitrary: x and y rule: skip_or_read_value_skip_items.induct)
  case (2 d ty r)
  show ?case
  proof (cases "\<exists>it r1 count r2. ty = 9 \<and> read_u32_le r = Inr (it, r1) \<and> read_u64_le r1 = Inr (count, r2) \<and>
      item_byte_size it = None")
    case False
    with "2.prems" show ?thesis by (auto split: sum.splits option.splits)
  next
    case True
    then obtain it r1 count r2 where R: "ty = 9" "read_u32_le r = Inr (it, r1)"
      "read_u64_le r1 = Inr (count, r2)" "item_byte_size it = None" by blast
    from "2.prems" obtain y where y: "skip_items d it (min count (64 * 1024)) r2 = Some y"
      unfolding R(1) skip_array [OF R(2-4)] by (auto split: option.splits)
    from "2.IH" [OF _ R(2) refl R(3) refl R(4) refl y] R(1)
    have "skip_items (Suc d) it (min count (64 * 1024)) r2 = Some y" by simp
    with "2.prems" y show ?thesis unfolding R(1) skip_array [OF R(2-4)] by simp
  qed
next
  case (4 d ty n r)
  then obtain z where z: "skip_or_read_value d ty r = Some z" by (auto split: option.splits)
  from "4.IH"(1) [OF z] have z': "skip_or_read_value (Suc d) ty r = Some z" .
  show ?case
  proof (cases z)
    case (Inl e)
    with "4.prems" z z' show ?thesis by simp
  next
    case (Inr sr)
    obtain s r1 where sr: "sr = (s, r1)" by (cases sr)
    with "4.prems" z Inr have "skip_items d ty n r1 = Some y" by simp
    from "4.IH"(2) [OF z Inr sr [symmetric] this] z' Inr sr show ?thesis by simp
  qed
qed simp_all

lemma skip_mono: "d \<le> d' \<Longrightarrow> skip_or_read_value d ty r = Some x \<Longrightarrow> skip_or_read_value d' ty r = Some x"
  by (induction d' rule: nat_induct_at_least) (auto simp: skip_more(1) simp del: skip_or_read_value.simps)

lemma skip_stable:
  assumes "length (r_data r) < r_pos r + 12 * d" and "0 < d" and "d \<le> d'"
  shows "skip_or_read_value d' ty r = skip_or_read_value d ty r"
proof -
  obtain x where "skip_or_read_value d ty r = Some x" using skip_enough(1) [OF assms(1,2)] by blast
  with skip_mono [OF assms(3)] show ?thesis by simp
qed

lemma read_kvs_total:
  "length (r_data r) < r_pos r + 12 * d \<Longrightarrow> 0 < d \<Longrightarrow> read_kvs d n m r \<noteq> None"
proof (induction n arbitrary: m r)
  case (Suc n)
  show ?case
  proof (cases "\<exists>key r1 ty r2 s r3. read_string r = Inr (key, r1) \<and> read_u32_le r1 = Inr (ty, r2) \<and>
      skip_or_read_value d ty r2 = Some (Inr (s, r3))")
    case True
    then obtain key r1 ty r2 s r3 where R: "read_string r = Inr (key, r1)" "read_u32_le r1 = Inr (ty, r2)"
      "skip_or_read_value d ty r2 = Some (Inr (s, r3))" by blast
    have "forward r 8 r1" "forward r1 4 r2" "forward r2 1 r3"
      using read_string_forward [OF R(1)] read_le_forward [OF R(2) [unfolded read_u32_le_def]]
        skip_forward(1) [OF R(3)] by auto
    then have "length (r_data r3) < r_pos r3 + 12 * d" using Suc.prems(1) by (simp add: forward_def)
    from Suc.IH [OF this Suc.prems(2)] R show ?thesis by simp
  next
    case False
    show ?thesis
    proof (cases "\<exists>key r1 ty r2. read_string r = Inr (key, r1) \<and> read_u32_le r1 = Inr (ty, r2)")
      case True
      then obtain key r1 ty r2 where R: "read_string r = Inr (key, r1)" "read_u32_le r1 = Inr (ty, r2)"
        by blast
      have "forward r 8 r1" "forward r1 4 r2"
        using read_string_forward [OF R(1)] read_le_forward [OF R(2) [unfolded read_u32_le_def]] by auto
      then have "length (r_data r2) < r_pos r2 + 12 * d" using Suc.prems(1) by (simp add: forward_def)
      from skip_enough(1) [OF this Suc.prems(2)] obtain x where x: "skip_or_read_value d ty r2 = Some x"
        by blast
      with False R show ?thesis by (cases x) auto
    qed (auto split: sum.splits)
  qed
qed simp

lemma read_kvs_mono:
  "d \<le> d' \<Longrightarrow> read_kvs d n m r = Some x \<Longrightarrow> read_kvs d' n m r = Some x"
proof (induction n arbitrary: m r)
  case (Suc n)
  then show ?case
    by (auto split: sum.splits option.splits prod.splits dest: skip_mono [OF \<open>d \<le> d'\<close>])
qed simp

section \<open>Encoded headers\<close>

datatype gguf_value =
    G_u8 nat | G_u16 nat | G_u32 nat | G_u64 nat | G_bool bool | G_str string
  | G_arr nat nat bytes \<comment> \<open>item type, count, payload\<close>

fun value_type :: "gguf_value \<Rightarrow> nat" where
  "value_type (G_u8 n) = 0"
| "value_type (G_u16 n) = 2"
| "value_type (G_u32 n) = 4"
| "value_type (G_u64 n) = 10"
| "value_type (G_bool b) = 7"
| "value_type (G_str s) = 8"
| "value_type (G_arr t n p) = 9"

definition encode_string :: "string \<Rightarrow> bytes" where
  "encode_string s = le_bytes 8 (length s) @ s"

fun encode_value :: "gguf_value \<Rightarrow> bytes" where
  "encode_value (G_u8 n) = le_bytes 1 n"
| "encode_value (G_u16 n) = le_bytes 2 n"
| "encode_value (G_u32 n) = le_bytes 4 n"
| "encode_value (G_u64 n) = le_bytes 8 n"
| "encode_value (G_bool b) = [if b then CHR 0x01 else CHR 0x00]"
| "encode_value (G_str s) = encode_string s"
| "encode_value (G_arr t n p) = le_bytes 4 t @ le_bytes 8 n @ p"

fun value_ok :: "gguf_value \<Rightarrow> bool" where
  "value_ok (G_u8 n) = (n < 2 ^ 8)"
| "value_ok (G_u16 n) = (n < 2 ^ 16)"
| "value_ok (G_u32 n) = (n < 2 ^ 32)"
| "value_ok (G_u64 n) = (n < 2 ^ 64)"
| "value_ok (G_bool b) = True"
| "value_ok (G_str s) = (length s \<le> 1024 \<and> utf8_valid s)"
| "value_ok (G_arr t n p) = (case item_byte_size t of None \<Rightarrow> False
     | Some w \<Rightarrow> n < 2 ^ 64 \<and> length p = n * w)"

fun value_text :: "gguf_value \<Rightarrow> string" where
  "value_text (G_u8 n) = show_nat n"
| "value_text (G_u16 n) = show_nat n"
| "value_text (G_u32 n) = show_nat n"
| "value_text (G_u64 n) = show_nat n"
| "value_text (G_bool b) = show_bool b"
| "value_text (G_str s) = s"
| "value_text (G_arr t n p) = array_text n"

definition encode_kv :: "string \<times> gguf_value \<Rightarrow> bytes" where
  "encode_kv = (\<lambda>(k, v). encode_string k @ le_bytes 4 (value_type v) @ encode_value v)"

definition encode_gguf :: "nat \<Rightarrow> nat \<Rightarrow> (string \<times> gguf_value) list \<Rightarrow> bytes" where
  "encode_gguf version tensors kvs = ''GGUF'' @ le_bytes 4 version @ le_bytes 8 tensors @
     le_bytes 8 (length kvs) @ concat (map encode_kv kvs)"

definition empty_gguf :: "nat \<Rightarrow> nat \<Rightarrow> gguf_metadata" where
  "empty_gguf version tensors = \<lparr>gg_version = version, gg_tensor_count = tensors, gg_architecture = None,
     gg_context_length = None, gg_file_type = None, gg_attributes = []\<rparr>"

definition decoded_gguf :: "nat \<Rightarrow> nat \<Rightarrow> (string \<times> gguf_value) list \<Rightarrow> gguf_metadata" where
  "decoded_gguf version tensors kvs =
     fold (\<lambda>(k, v). gguf_insert k (value_text v)) kvs (empty_gguf version tensors)"

text \<open>\<open>at r pre rest\<close>: the reader stands between \<open>pre\<close> and \<open>rest\<close> of a file.\<close>

definition at :: "seek_reader \<Rightarrow> bytes \<Rightarrow> bytes \<Rightarrow> bool" where
  "at r pre rest = (r_data r = pre @ rest \<and> r_pos r = length pre \<and> length (r_data r) \<le> r_max r \<and>
     r_max r < 2 ^ 64)"

lemma at_read_exact: "at r pre (bs @ rest) \<Longrightarrow> length bs = n \<Longrightarrow>
  \<exists>r'. read_exact n r = Ok (bs, r') \<and> at r' (pre @ bs) rest"
  using read_exact_at [of r pre bs rest n] by (auto simp: at_def)

lemma at_read_le: "at r pre (le_bytes k n @ rest) \<Longrightarrow> n < 256 ^ k \<Longrightarrow>
  \<exists>r'. read_le k r = Ok (n, r') \<and> at r' (pre @ le_bytes k n) rest"
  using at_read_exact [of r pre "le_bytes k n" rest k]
  by (auto simp: read_le_def map_rd_def bind_rd_def return_rd_def le_nat_le_bytes)

lemma at_map_le: "at r pre (le_bytes k n @ rest) \<Longrightarrow> n < 256 ^ k \<Longrightarrow>
  \<exists>r'. map_rd g (read_le k) r = Ok (g n, r') \<and> at r' (pre @ le_bytes k n) rest"
  using at_read_le [of r pre k n rest] by (auto simp: map_rd_def bind_rd_def return_rd_def)

lemma at_read_string:
  assumes "at r pre (encode_string s @ rest)" and "length s \<le> 1024" and "utf8_valid s"
  shows "\<exists>r'. read_string r = Ok (s, r') \<and> at r' (pre @ encode_string s) rest"
proof -
  have "at r pre (le_bytes 8 (length s) @ s @ rest)" using assms(1) by (simp add: encode_string_def)
  from at_read_le [OF this] assms(2) obtain r1 where r1: "read_le 8 r = Ok (length s, r1)"
    and a1: "at r1 (pre @ le_bytes 8 (length s)) (s @ rest)" by auto
  from at_read_exact [OF a1 refl] r1 assms(2,3) show ?thesis
    by (auto simp: read_string_def read_u64_le_def bind_rd_def return_rd_def from_utf8_def encode_string_def)
qed

lemma le_bytes_1: "[if b then CHR 0x01 else CHR 0x00] = le_bytes 1 (if b then 1 else 0)"
proof -
  have one: "(1 :: nat) = Suc 0" by simp
  show ?thesis unfolding one le_bytes.simps by (cases b) (simp_all add: char_of_def bit_0)
qed

lemma at_skip_payload:
  assumes "at r pre (p @ rest)" and "length p = n * w"
  shows "\<exists>r'. skip_payload w n r = Ok (array_text n, r') \<and> at r' (pre @ p) rest"
proof -
  have "n * w < 2 ^ 64" "r_pos r + n * w < 2 ^ 64" "r_pos r + n * w \<le> r_max r"
    using assms by (auto simp: at_def)
  with assms show ?thesis
    by (auto simp: skip_payload_def checked_mul_def checked_add_def bind_rd_def seek_to_def return_rd_def at_def)
qed

lemma at_read_value:
  assumes "at r pre (encode_value v @ rest)" and "value_ok v"
  shows "\<exists>r'. skip_or_read_value (Suc d) (value_type v) r = Some (Ok (value_text v, r')) \<and>
    at r' (pre @ encode_value v) rest"
proof (cases v)
  case (G_arr t n p)
  then obtain w where w: "item_byte_size t = Some w" "n < 2 ^ 64" "length p = n * w"
    using assms(2) by (auto split: option.splits)
  then have t: "t < 256 ^ 4" by (auto simp: item_byte_size_def split: if_splits)
  have "at r pre (le_bytes 4 t @ le_bytes 8 n @ p @ rest)" using assms(1) G_arr by simp
  from at_read_le [OF this t] obtain r1 where r1: "read_le 4 r = Ok (t, r1)"
    "at r1 (pre @ le_bytes 4 t) (le_bytes 8 n @ p @ rest)" by blast
  from at_read_le [OF r1(2)] w(2) obtain r2 where r2: "read_le 8 r1 = Ok (n, r2)"
    "at r2 ((pre @ le_bytes 4 t) @ le_bytes 8 n) (p @ rest)" by auto
  from at_skip_payload [OF r2(2) w(3)] r1(1) r2(1) w(1) G_arr show ?thesis
    by (auto simp: read_uint_defs)
next
  case (G_str s)
  with assms at_read_string [of r pre s rest] show ?thesis by (simp add: read_scalar_def)
next
  case (G_bool b)
  with assms(1) have "at r pre (le_bytes 1 (if b then 1 else 0) @ rest)"
    by (simp only: encode_value.simps le_bytes_1)
  from at_read_le [OF this] G_bool show ?thesis
    unfolding G_bool encode_value.simps le_bytes_1
    by (auto simp: read_scalar_def read_uint_defs map_rd_def bind_rd_def return_rd_def)
next
  case (G_u8 n)
  with assms at_map_le [of r pre 1 n rest show_nat] show ?thesis by (simp add: read_scalar_def read_uint_defs)
next
  case (G_u16 n)
  with assms at_map_le [of r pre 2 n rest show_nat] show ?thesis by (simp add: read_scalar_def read_uint_defs)
next
  case (G_u32 n)
  with assms at_map_le [of r pre 4 n rest show_nat] show ?thesis by (simp add: read_scalar_def read_uint_defs)
next
  case (G_u64 n)
  with assms at_map_le [of r pre 8 n rest show_nat] show ?thesis by (simp add: read_scalar_def read_uint_defs)
qed

lemma value_type_bound: "value_type v < 256 ^ 4"
  by (cases v) auto

lemma at_read_kvs:
  assumes "at r pre (concat (map encode_kv kvs) @ rest)"
    and "\<forall>(k, v) \<in> set kvs. length k \<le> 1024 \<and> utf8_valid k \<and> value_ok v"
  shows "\<exists>r'. read_kvs (Suc d) (length kvs) m r =
    Some (Ok (fold (\<lambda>(k, v). gguf_insert k (value_text v)) kvs m), r')"
  using assms
proof (induction kvs arbitrary: m r pre)
  case (Cons kv kvs)
  obtain k v where kv: "kv = (k, v)" by (cases kv)
  have ok: "length k \<le> 1024" "utf8_valid k" "value_ok v" using Cons.prems(2) kv by auto
  have "at r pre (encode_string k @ le_bytes 4 (value_type v) @ encode_value v @ concat (map encode_kv kvs) @ rest)"
    using Cons.prems(1) kv by (simp add: encode_kv_def)
  from at_read_string [OF this ok(1,2)] obtain r1 where r1: "read_string r = Ok (k, r1)"
    "at r1 (pre @ encode_string k) (le_bytes 4 (value_type v) @ encode_value v @ concat (map encode_kv kvs) @ rest)"
    by blast
  from at_read_le [OF r1(2) value_type_bound] obtain r2 where r2: "read_le 4 r1 = Ok (value_type v, r2)"
    "at r2 ((pre @ encode_string k) @ le_bytes 4 (value_type v)) (encode_value v @ concat (map encode_kv kvs) @ rest)"
    by blast
  from at_read_value [OF r2(2) ok(3)] obtain r3 where r3:
    "skip_or_read_value (Suc d) (value_type v) r2 = Some (Ok (value_text v, r3))"
    "at r3 (((pre @ encode_string k) @ le_bytes 4 (value_type v)) @ encode_value v) (concat (map encode_kv kvs) @ rest)"
    by blast
  from Cons.IH [OF r3(2), of "gguf_insert k (value_text v) m"] Cons.prems(2) r1(1) r2(1) r3(1) kv
  show ?case by (simp add: read_u32_le_def del: skip_or_read_value.simps)
qed simp

section \<open>Nested arrays\<close>

text \<open>An array of one array of one array and so on, \<open>k\<close> levels above an empty array of bytes.\<close>

fun nested :: "nat \<Rightarrow> bytes" where
  "nested 0 = le_bytes 4 0 @ le_bytes 8 0"
| "nested (Suc k) = le_bytes 4 9 @ le_bytes 8 1 @ nested k"

lemma length_nested [simp]: "length (nested k) = 12 * (k + 1)"
  by (induction k) auto

lemma item_byte_size_9 [simp]: "item_byte_size 9 = None" and item_byte_size_0 [simp]: "item_byte_size 0 = Some 1"
  by (simp_all add: item_byte_size_def)

lemma nested_depth:
  "at r pre (nested k @ rest) \<Longrightarrow>
   (if d \<le> k then skip_or_read_value d 9 r = None
    else \<exists>s r'. skip_or_read_value d 9 r = Some (Ok (s, r')) \<and> at r' (pre @ nested k) rest)"
proof (induction k arbitrary: d r pre)
  case 0
  show ?case
  proof (cases d)
    case (Suc d')
    have "at r pre (encode_value (G_arr 0 0 []) @ rest)" using "0.prems" by simp
    from at_read_value [OF this, of d'] Suc show ?thesis by auto
  qed simp
next
  case (Suc k)
  show ?case
  proof (cases d)
    case d: (Suc d')
    have "at r pre (le_bytes 4 9 @ le_bytes 8 1 @ nested k @ rest)" using Suc.prems by simp
    from at_read_le [OF this] obtain r1 where r1: "read_le 4 r = Ok (9, r1)"
      "at r1 (pre @ le_bytes 4 9) (le_bytes 8 1 @ nested k @ rest)" by auto
    from at_read_le [OF r1(2)] obtain r2 where r2: "read_le 8 r1 = Ok (1, r2)"
      "at r2 ((pre @ le_bytes 4 9) @ le_bytes 8 1) (nested k @ rest)" by auto
    have m: "min 1 (64 * 1024) = (1 :: nat)" by simp
    have step: "skip_or_read_value d 9 r = (case skip_items d' 9 1 r2 of None \<Rightarrow> None
       | Some (Inl e) \<Rightarrow> Some (Err e) | Some (Inr (u, r3)) \<Rightarrow> Some (Ok (array_text 1, r3)))"
      unfolding d skip_array [OF r1(1) [folded read_u32_le_def] r2(1) [folded read_u64_le_def] item_byte_size_9] m
      by (simp only: less_irrefl if_False)
    have one: "skip_items d' 9 1 r2 = (case skip_or_read_value d' 9 r2 of None \<Rightarrow> None
       | Some (Inl e) \<Rightarrow> Some (Err e) | Some (Inr (s, r1)) \<Rightarrow> Some (Ok ((), r1)))"
      unfolding One_nat_def skip_items.simps ..
    show ?thesis using Suc.IH [OF r2(2), of d'] d unfolding step one by auto
  qed simp
qed

text \<open>A file whose only entry holds such a value.\<close>

definition nested_file :: "nat \<Rightarrow> bytes" where
  "nested_file k = ''GGUF'' @ le_bytes 4 3 @ le_bytes 8 0 @ le_bytes 8 1 @
     encode_string ''k'' @ le_bytes 4 9 @ nested k"

lemma at_start: "length bs < 2 ^ 63 \<Longrightarrow> at (file_reader bs) [] bs"
  by (simp add: at_def file_reader_def)

lemma parse_header_at:
  assumes "at r [] (''GGUF'' @ le_bytes 4 v @ le_bytes 8 t @ le_bytes 8 n @ rest)"
    and "v = 2 \<or> v = 3" and "t < 2 ^ 64" and "n \<le> 4096"
  shows "\<exists>r' pre. at r' pre rest \<and>
    (\<forall>d. parse_gguf_header d r = map_option fst (read_kvs d n (empty_gguf v t) r'))"
proof -
  have "length ''GGUF'' = 4" by simp
  from at_read_exact [OF assms(1) this] obtain r1 where r1: "read_exact 4 r = Ok (''GGUF'', r1)"
    "at r1 ([] @ ''GGUF'') (le_bytes 4 v @ le_bytes 8 t @ le_bytes 8 n @ rest)" by auto
  from at_read_le [OF r1(2)] assms(2) obtain r2 where r2: "read_le 4 r1 = Ok (v, r2)"
    "at r2 (([] @ ''GGUF'') @ le_bytes 4 v) (le_bytes 8 t @ le_bytes 8 n @ rest)" by auto
  from at_read_le [OF r2(2)] assms(3) obtain r3 where r3: "read_le 8 r2 = Ok (t, r3)"
    "at r3 ((([] @ ''GGUF'') @ le_bytes 4 v) @ le_bytes 8 t) (le_bytes 8 n @ rest)" by auto
  from at_read_le [OF r3(2)] assms(4) obtain r4 where r4: "read_le 8 r3 = Ok (n, r4)"
    "at r4 (((([] @ ''GGUF'') @ le_bytes 4 v) @ le_bytes 8 t) @ le_bytes 8 n) rest" by auto
  have "parse_gguf_header d r = map_option fst (read_kvs d n (empty_gguf v t) r4)" for d
    using r1(1) r2(1) r3(1) r4(1) assms(2,4)
    by (auto simp: parse_gguf_header_def read_u32_le_def read_u64_le_def empty_gguf_def)
  then show ?thesis using r4(2) by blast
qed

section \<open>Properties\<close>



text \<open>
  C26. What is written is read.  A version 2 or 3 header with at most 4096 entries, whose keys and
  strings are UTF-8 of at most 1024 bytes and whose numbers, strings and fixed-width arrays are
  encoded as the format says, parses to exactly those entries, in order, whatever follows it; the
  payload of an array is skipped, never read.
\<close>

theorem gguf_roundtrip:
  assumes "v = 2 \<or> v = 3" and "t < 2 ^ 64" and "length kvs \<le> 4096"
    and "\<forall>(k, x) \<in> set kvs. length k \<le> 1024 \<and> utf8_valid k \<and> value_ok x"
    and "length (encode_gguf v t kvs @ rest) < 2 ^ 63"
  shows "parse_gguf_header (Suc d) (file_reader (encode_gguf v t kvs @ rest)) =
    Some (Ok (decoded_gguf v t kvs))"
proof -
  let ?r = "file_reader (encode_gguf v t kvs @ rest)"
  have "at ?r [] (''GGUF'' @ le_bytes 4 v @ le_bytes 8 t @ le_bytes 8 (length kvs) @ concat (map encode_kv kvs) @ rest)"
    using at_start [OF assms(5)] by (simp add: encode_gguf_def)
  from parse_header_at [OF this assms(1-3)] obtain r' pre
    where r': "at r' pre (concat (map encode_kv kvs) @ rest)"
      "parse_gguf_header (Suc d) ?r = map_option fst (read_kvs (Suc d) (length kvs) (empty_gguf v t) r')" by blast
  from at_read_kvs [OF r'(1) assms(4), of d "empty_gguf v t"] r'(2) show ?thesis
    by (auto simp: decoded_gguf_def)
qed

theorem gguf_roundtrip_witness:
  "parse_gguf_header 1 (file_reader (encode_gguf 3 7
      [(''general.architecture'', G_str ''llama''), (''llama.context_length'', G_u32 8192),
       (''x'', G_arr 5 2 ''12345678'')] @ ''tensors'')) =
   Some (Ok \<lparr>gg_version = 3, gg_tensor_count = 7, gg_architecture = Some ''llama'',
     gg_context_length = Some 8192, gg_file_type = None,
     gg_attributes = [(''general.architecture'', ''llama''), (''llama.context_length'', ''8192''),
       (''x'', ''[array: 2 items]'')]\<rparr>)"
proof -
  let ?kvs = "[(''general.architecture'', G_str ''llama''), (''llama.context_length'', G_u32 8192),
       (''x'', G_arr 5 2 ''12345678'')]"
  have "list_all (\<lambda>(k, x). length k \<le> 1024 \<and> utf8_valid k \<and> value_ok x) ?kvs" by code_simp
  then have ok: "\<forall>(k, x) \<in> set ?kvs. length k \<le> 1024 \<and> utf8_valid k \<and> value_ok x"
    by (simp only: list_all_iff)
  have len: "length (encode_gguf 3 7 ?kvs @ ''tensors'') < 2 ^ 63"
    by (simp add: encode_gguf_def encode_kv_def encode_string_def)
  have dec: "decoded_gguf 3 7 ?kvs = \<lparr>gg_version = 3, gg_tensor_count = 7, gg_architecture = Some ''llama'',
     gg_context_length = Some 8192, gg_file_type = None,
     gg_attributes = [(''general.architecture'', ''llama''), (''llama.context_length'', ''8192''),
       (''x'', ''[array: 2 items]'')]\<rparr>" by code_simp
  show ?thesis using gguf_roundtrip [OF _ _ _ ok len, of 0] dec by simp
qed

text \<open>
  No stack is deep enough.  For every depth \<open>d\<close> there is a well-formed file of \<open>12 d + 49\<close>
  bytes whose nested arrays need a deeper stack: it parses at depth \<open>d + 1\<close>, and not at \<open>d\<close>.
\<close>

theorem gguf_depth_unbounded:
  assumes "12 * d + 49 < 2 ^ 63"
  shows "length (nested_file d) = 12 * d + 49 \<and>
    parse_gguf_header d (file_reader (nested_file d)) = None \<and>
    (\<exists>m. parse_gguf_header (d + 1) (file_reader (nested_file d)) = Some (Ok m))"
proof -
  have len: "length (nested_file d) = 12 * d + 49" by (simp add: nested_file_def encode_string_def)
  have "length (nested_file d) < 2 ^ 63" using assms len by simp
  from at_start [OF this]
  have "at (file_reader (nested_file d)) [] (''GGUF'' @ le_bytes 4 3 @ le_bytes 8 0 @ le_bytes 8 1 @
     encode_string ''k'' @ le_bytes 4 9 @ nested d)" by (simp add: nested_file_def)
  from parse_header_at [OF this] obtain r1 pre where r1: "at r1 pre (encode_string ''k'' @ le_bytes 4 9 @ nested d)"
    and p: "\<And>d'. parse_gguf_header d' (file_reader (nested_file d)) =
      map_option fst (read_kvs d' 1 (empty_gguf 3 0) r1)" by auto
  have "utf8_valid ''k''" by code_simp
  with at_read_string [OF r1] obtain r2 where r2: "read_string r1 = Ok (''k'', r2)"
    "at r2 (pre @ encode_string ''k'') (le_bytes 4 9 @ nested d)" by auto
  from at_read_le [OF r2(2)] obtain r3 where r3: "read_le 4 r2 = Ok (9, r3)"
    "at r3 ((pre @ encode_string ''k'') @ le_bytes 4 9) (nested d @ [])" by auto
  have kv: "read_kvs d' 1 m r1 = (case skip_or_read_value d' 9 r3 of None \<Rightarrow> None
      | Some (Inl e) \<Rightarrow> Some (Err (Io e), r3) | Some (Inr (s, r4)) \<Rightarrow> Some (Ok (gguf_insert ''k'' s m), r4))" for d' m
    using r2(1) r3(1) unfolding One_nat_def read_kvs.simps read_u32_le_def by (simp only: sum.case prod.case)
  show ?thesis
    using nested_depth [OF r3(2), of d] nested_depth [OF r3(2), of "d + 1"] len unfolding p kv by auto
qed

theorem gguf_depth_unbounded_witness:
  "\<exists>bs. length bs = 1200000049 \<and> parse_gguf_header 100000000 (file_reader bs) = None"
  using gguf_depth_unbounded [of 100000000] by auto

end
