(* ===== verification/Json.thy ===== *)
theory Json
  imports Core_Errors "HOL-Library.Multiset"
begin

text \<open>
  JSON values as \<^verbatim>\<open>serde_json::Value\<close> has them, and the accessors the code calls.  The parser and the
  printer of \<^verbatim>\<open>serde_json\<close> are parameters of the definitions that use them.  An object is the list of
  its members in the order of the map's iteration, with one entry per key; a number that is not an
  integer is kept as the text it prints as.
\<close>

datatype json_number = PosInt nat | NegInt int | FloatNum string

datatype json =
    J_null
  | J_bool bool
  | J_num json_number
  | J_str string
  | J_arr "json list"
  | J_obj "(string \<times> json) list"

fun as_object :: "json \<Rightarrow> (string \<times> json) list option" where
  "as_object (J_obj ms) = Some ms"
| "as_object _ = None"

fun as_array :: "json \<Rightarrow> json list option" where
  "as_array (J_arr xs) = Some xs"
| "as_array _ = None"

fun as_str :: "json \<Rightarrow> string option" where
  "as_str (J_str s) = Some s"
| "as_str _ = None"

fun as_bool :: "json \<Rightarrow> bool option" where
  "as_bool (J_bool b) = Some b"
| "as_bool _ = None"

fun as_u64 :: "json \<Rightarrow> nat option" where
  "as_u64 (J_num (PosInt n)) = Some n"
| "as_u64 _ = None"

text \<open>\<open>Value::get\<close> with a string index.\<close>

definition json_get :: "json \<Rightarrow> string \<Rightarrow> json option" where
  "json_get v k = Option.bind (as_object v) (\<lambda>ms. map_of ms k)"

definition get_str :: "json \<Rightarrow> string \<Rightarrow> string option" where
  "get_str v k = Option.bind (json_get v k) as_str"

definition get_u64 :: "json \<Rightarrow> string \<Rightarrow> nat option" where
  "get_u64 v k = Option.bind (json_get v k) as_u64"

definition get_array :: "json \<Rightarrow> string \<Rightarrow> json list option" where
  "get_array v k = Option.bind (json_get v k) as_array"

definition opt_or :: "'a option \<Rightarrow> 'a \<Rightarrow> 'a" where
  "opt_or x d = (case x of Some a \<Rightarrow> a | None \<Rightarrow> d)"

definition or_else :: "'a option \<Rightarrow> 'a option \<Rightarrow> 'a option" where
  "or_else x y = (case x of Some a \<Rightarrow> Some a | None \<Rightarrow> y)"

lemma opt_simps [simp]:
  "opt_or (Some a) d = a" "opt_or None d = d" "or_else (Some a) y = Some a" "or_else None y = y"
  by (simp_all add: opt_or_def or_else_def)

fun show_json_number :: "json_number \<Rightarrow> string" where
  "show_json_number (PosInt n) = show_nat n"
| "show_json_number (NegInt i) = show_int i"
| "show_json_number (FloatNum s) = s"

text \<open>
  \<^verbatim>\<open>serde_json\<close> as a parameter: parsing a byte slice, or the text of its error, and printing a value
  in compact form.
\<close>

record json_lib =
  jl_parse :: "bytes \<Rightarrow> string + json"
  jl_show :: "json \<Rightarrow> string"

text \<open>What the crate documents: printing and parsing a value gives the value back.\<close>

definition json_roundtrips :: "json_lib \<Rightarrow> json \<Rightarrow> bool" where
  "json_roundtrips J v = (jl_parse J (jl_show J v) = Inr v)"

text \<open>
  The \<open>json!\<close> macro: the members of an object are kept sorted by key.  Keys are distinct wherever the
  code uses it.
\<close>

definition json_object :: "(string \<times> json) list \<Rightarrow> json" where
  "json_object ms = J_obj (sort_key fst ms)"

definition jnat :: "nat \<Rightarrow> json" where
  "jnat n = J_num (PosInt n)"

lemma map_of_same_set:
  assumes "distinct (map fst xs)" "distinct (map fst ys)" "set xs = set ys"
  shows "map_of xs = map_of ys"
proof
  fix k
  show "map_of xs k = map_of ys k"
  proof (cases "map_of ys k")
    case None
    then have "map_of xs k = None" using assms(3) by (simp add: map_of_eq_None_iff)
    with None show ?thesis by simp
  next
    case (Some v)
    then have "map_of xs k = Some v" using assms map_of_SomeD by fastforce
    with Some show ?thesis by simp
  qed
qed

lemma json_get_object: "distinct (map fst ms) \<Longrightarrow> json_get (json_object ms) k = map_of ms k"
proof -
  assume d: "distinct (map fst ms)"
  have "mset (map fst (sort_key fst ms)) = mset (map fst ms)" by (metis mset_map mset_sort)
  then have "distinct (map fst (sort_key fst ms))" using d by (metis mset_eq_imp_distinct_iff)
  then have "map_of (sort_key fst ms) = map_of ms" using d by (intro map_of_same_set) simp_all
  then show ?thesis by (simp add: json_get_def json_object_def)
qed

lemma json_get_obj [simp]: "json_get (J_obj ms) k = map_of ms k"
  by (simp add: json_get_def)

end
