(* ===== verification/Safetensors.thy ===== *)
theory Safetensors
  imports Std_Text Json
begin

text \<open>
  The SafeTensors header parser (\<^verbatim>\<open>format/safetensors.rs\<close>): the length prefix with its cap, and the sums
  over the JSON header.  The lemmas give the counts in closed form and the refusals.
\<close>

record safetensors_metadata =
  st_tensor_count :: nat
  st_parameter_count :: nat
  st_architecture :: "string option"
  st_attributes :: "(string \<times> string) list"

definition MAX_SAFETENSORS_HEADER :: nat where
  "MAX_SAFETENSORS_HEADER = 8 * 1024 * 1024"

section \<open>The members of the header\<close>

fun metadata_text :: "json_lib \<Rightarrow> json \<Rightarrow> string" where
  "metadata_text J (J_str s) = s"
| "metadata_text J (J_num n) = show_json_number n"
| "metadata_text J (J_bool b) = show_bool b"
| "metadata_text J other = jl_show J other"

text \<open>The product over a shape: members that are no \<open>u64\<close> are passed over.\<close>

fun shape_product :: "json list \<Rightarrow> nat \<Rightarrow> nat" where
  "shape_product [] acc = acc"
| "shape_product (d # ds) acc =
     shape_product ds (case as_u64 d of Some n \<Rightarrow> sat_mul acc n | None \<Rightarrow> acc)"

text \<open>Tensor count, parameter count and attributes after each member.\<close>

type_synonym header_sums = "nat \<times> nat \<times> (string \<times> string) list"

fun add_member :: "json_lib \<Rightarrow> string \<times> json \<Rightarrow> header_sums \<Rightarrow> header_sums" where
  "add_member J (k, v) (tc, pc, attrs) =
     (if k = ''__metadata__'' then
        (case as_object v of
           Some ms \<Rightarrow> (tc, pc, fold (\<lambda>(mk, mv). AList.update mk (metadata_text J mv)) ms attrs)
         | None \<Rightarrow> (tc, pc, attrs))
      else
        (let pc' = (case as_object v of
              Some _ \<Rightarrow> (case get_array v ''shape'' of
                 Some shape \<Rightarrow> sat_add pc (shape_product shape 1) | None \<Rightarrow> pc)
            | None \<Rightarrow> pc)
         in (tc + 1, pc', AList.update k ''tensor'' attrs)))"

definition detect_architecture :: "(string \<times> string) list \<Rightarrow> string option" where
  "detect_architecture attrs =
     or_else (map_of attrs ''architecture'')
       (or_else (map_of attrs ''models.model_type'')
         (or_else (map_of attrs ''model_type'') (map_of attrs ''general.architecture'')))"

section \<open>The parser\<close>

definition parse_safetensors_header :: "json_lib \<Rightarrow> seek_reader \<Rightarrow> safetensors_metadata res" where
  "parse_safetensors_header J r =
     (case read_exact 8 r of Inl e \<Rightarrow> Err (Io e) | Inr (len_buf, r1) \<Rightarrow>
      (let header_len = le_nat len_buf in
       if header_len = 0 then Err (InvalidFormat ''SafeTensors header length is zero'')
       else if MAX_SAFETENSORS_HEADER < header_len then
         Err (InvalidFormat (''SafeTensors header length '' @ show_nat header_len @ '' exceeds '' @
           show_nat MAX_SAFETENSORS_HEADER @ '' byte safety cap''))
       else (case read_exact header_len r1 of Inl e \<Rightarrow> Err (Io e) | Inr (json_buf, r2) \<Rightarrow>
        (case jl_parse J json_buf of
           Inl e \<Rightarrow> Err (InvalidFormat (''Malformed SafeTensors JSON: '' @ e))
         | Inr parsed \<Rightarrow>
             (case as_object parsed of
                None \<Rightarrow> Err (InvalidFormat ''SafeTensors header is not a JSON object'')
              | Some obj \<Rightarrow>
                  (case fold (add_member J) obj (0, 0, []) of (tc, pc, attrs) \<Rightarrow>
                     Ok \<lparr>st_tensor_count = tc, st_parameter_count = pc,
                         st_architecture = detect_architecture attrs, st_attributes = attrs\<rparr>))))))"

section \<open>Closed forms\<close>

definition dims :: "json list \<Rightarrow> nat list" where
  "dims shape = List.map_filter as_u64 shape"

definition member_params :: "string \<times> json \<Rightarrow> nat" where
  "member_params = (\<lambda>(k, v). if k = ''__metadata__'' then 0
     else (case get_array v ''shape'' of Some shape \<Rightarrow> prod_list (dims shape) | None \<Rightarrow> 0))"

lemma sat_mul_min: "sat_mul (min u64_max p) n = min u64_max (p * n)"
proof (cases "p \<le> u64_max")
  case False
  then show ?thesis by (cases n) (auto simp: sat_mul_def min_def dest: mult_le_mono)
qed (simp add: sat_mul_def)

lemma sat_add_min: "sat_add (min u64_max p) (min u64_max q) = min u64_max (p + q)"
  by (auto simp: sat_add_def min_def)

lemma shape_product_min:
  "shape_product shape (min u64_max p) = min u64_max (p * prod_list (dims shape))"
proof (induction shape arbitrary: p)
  case Nil
  show ?case by (simp add: dims_def)
next
  case (Cons d shape)
  show ?case
    by (cases "as_u64 d")
       (simp_all add: sat_mul_min Cons.IH [simplified] dims_def mult.assoc)
qed

lemma shape_product_1: "shape_product shape 1 = min u64_max (prod_list (dims shape))"
proof -
  have "min u64_max 1 = 1" by (simp add: u64_max_def)
  then show ?thesis using shape_product_min [of shape 1] by simp
qed

lemma get_array_object: "get_array v k = Some xs \<Longrightarrow> as_object v \<noteq> None"
  by (auto simp: get_array_def json_get_def bind_eq_Some_conv)

lemma fold_add_member:
  assumes "fold (add_member J) obj (tc, min u64_max pc, attrs) = (tc', pc', attrs')"
  shows "tc' = tc + length (filter (\<lambda>(k, v). k \<noteq> ''__metadata__'') obj) \<and>
    pc' = min u64_max (pc + sum_list (map member_params obj))"
  using assms
proof (induction obj arbitrary: tc pc attrs)
  case (Cons m obj)
  obtain k v where m: "m = (k, v)" by (cases m)
  show ?case
  proof (cases "k = ''__metadata__''")
    case True
    then obtain a where "fold (add_member J) obj (tc, min u64_max pc, a) = (tc', pc', attrs')"
      using Cons.prems m by (auto split: option.splits)
    from Cons.IH [OF this] m True show ?thesis by (simp add: member_params_def)
  next
    case False
    have p: "(case as_object v of Some x \<Rightarrow> (case get_array v ''shape'' of
          Some shape \<Rightarrow> sat_add (min u64_max pc) (shape_product shape 1) | None \<Rightarrow> min u64_max pc)
        | None \<Rightarrow> min u64_max pc) = min u64_max (pc + member_params m)"
      using get_array_object [of v "''shape''"] False m
      by (auto simp: member_params_def shape_product_1 [simplified] sat_add_min split: option.split)
    have "add_member J m (tc, min u64_max pc, attrs) =
        (tc + 1, min u64_max (pc + member_params m), AList.update k ''tensor'' attrs)"
      unfolding p [symmetric] using False m by (simp add: Let_def)
    with Cons.prems have "fold (add_member J) obj (tc + 1, min u64_max (pc + member_params m),
        AList.update k ''tensor'' attrs) = (tc', pc', attrs')" by simp
    from Cons.IH [OF this] m False show ?thesis by (simp add: add.assoc)
  qed
qed simp

section \<open>Properties\<close>

text \<open>
  What is counted.  When \<open>parse_safetensors_header\<close> succeeds, the file starts with a length of
  1 to 8388608 bytes and a JSON object of that length; the tensor count is the number of its
  members other than \<^verbatim>\<open>__metadata__\<close>, and the parameter count is the sum over them of the products of
  their shapes, cut off at the largest \<open>u64\<close>, never wrapped around.
\<close>

theorem safetensors_counts:
  assumes "parse_safetensors_header J (file_reader bs) = Ok m"
  shows "\<exists>n obj. n = le_nat (take 8 bs) \<and> 0 < n \<and> n \<le> 8388608 \<and> 8 + n \<le> length bs \<and>
    jl_parse J (take n (drop 8 bs)) = Ok (J_obj obj) \<and>
    st_tensor_count m = length (filter (\<lambda>(k, v). k \<noteq> ''__metadata__'') obj) \<and>
    st_parameter_count m = min u64_max (sum_list (map member_params obj))"
proof -
  obtain b1 r1 where r1: "read_exact 8 (file_reader bs) = Inr (b1, r1)"
    using assms by (auto simp: parse_safetensors_header_def split: sum.splits)
  then have b1: "b1 = take 8 bs" "8 \<le> length bs" "r_data r1 = bs" "r_pos r1 = 8"
    by (auto simp: read_exact_def file_reader_def split: if_splits)
  let ?n = "le_nat b1"
  have n: "?n \<noteq> 0" "?n \<le> MAX_SAFETENSORS_HEADER"
    using assms r1 by (auto simp: parse_safetensors_header_def Let_def split: if_splits)
  with assms r1 obtain b2 r2 where r2: "read_exact ?n r1 = Inr (b2, r2)"
    by (auto simp: parse_safetensors_header_def Let_def split: sum.splits if_splits)
  then have b2: "b2 = take ?n (drop 8 bs)" "8 + ?n \<le> length bs"
    using n(1) b1 by (auto simp: read_exact_def split: if_splits)
  from assms r1 r2 n obtain v obj where v: "jl_parse J b2 = Inr v" "as_object v = Some obj"
    and m: "(case fold (add_member J) obj (0, 0, []) of (tc, pc, attrs) \<Rightarrow>
       Ok \<lparr>st_tensor_count = tc, st_parameter_count = pc,
          st_architecture = detect_architecture attrs, st_attributes = attrs\<rparr>) = (Ok m :: safetensors_metadata res)"
    by (auto simp: parse_safetensors_header_def Let_def split: sum.splits option.splits)
  have "v = J_obj obj" using v(2) by (cases v) auto
  moreover obtain tc pc attrs where f: "fold (add_member J) obj (0, 0, []) = (tc, pc, attrs)"
    by (metis prod_cases3)
  moreover have "fold (add_member J) obj (0, min u64_max 0, []) = (tc, pc, attrs)" using f by simp
  note fold_add_member [OF this]
  ultimately show ?thesis
    using m b1 b2 n v(1) by (auto simp: MAX_SAFETENSORS_HEADER_def)
qed

text \<open>A parser that knows one text, for the witnesses.\<close>

definition demo_json :: json where
  "demo_json = J_obj [(''__metadata__'', J_obj [(''format'', J_str ''pt'')]),
     (''w'', J_obj [(''shape'', J_arr [J_num (PosInt 64), J_num (PosInt 64)])])]"

definition demo_json_lib :: json_lib where
  "demo_json_lib = \<lparr>jl_parse = (\<lambda>bs. if bs = ''{...}'' then Ok demo_json else Err ''expected value''),
     jl_show = (\<lambda>v. ''{...}'')\<rparr>"

theorem safetensors_counts_witness:
  "\<exists>m. parse_safetensors_header demo_json_lib (file_reader (le_bytes 8 5 @ ''{...}'')) = Ok m \<and>
     st_tensor_count m = 1 \<and> st_parameter_count m = 4096"
proof -
  have "is_ok (parse_safetensors_header demo_json_lib (file_reader (le_bytes 8 5 @ ''{...}'')))"
    by code_simp
  then obtain m where m: "parse_safetensors_header demo_json_lib (file_reader (le_bytes 8 5 @ ''{...}'')) = Ok m"
    by (auto simp: is_ok_iff)
  from safetensors_counts [OF this] obtain obj where "jl_parse demo_json_lib ''{...}'' = Ok (J_obj obj)"
    "st_tensor_count m = length (filter (\<lambda>(k, v). k \<noteq> ''__metadata__'') obj)"
    "st_parameter_count m = min u64_max (sum_list (map member_params obj))"
    by (auto simp: le_nat_le_bytes)
  moreover have "min u64_max (sum_list (map member_params [(''__metadata__'', J_obj [(''format'', J_str ''pt'')]),
     (''w'', J_obj [(''shape'', J_arr [J_num (PosInt 64), J_num (PosInt 64)])])])) = 4096" by code_simp
  ultimately show ?thesis using m by (auto simp: demo_json_lib_def demo_json_def)
qed

end
