(* ===== verification/Visual_Meta.thy ===== *)
theory Visual_Meta
  imports Safetensors "HOL-Library.Multiset"
begin

text \<open>
  The inspection of diffusion models (\<^verbatim>\<open>format/visual_meta.rs\<close>).  The attributes come from a hash map, so
  the list the loop runs over is in an arbitrary order; the lemmas say what does and what does not
  depend on it.  \<open>f64\<close> and its parser are parameters: a type \<open>'f\<close>, the number one and \<open>parse_f64\<close>.
\<close>

datatype diffusion_architecture = Unet | Dit | Unknown_Arch

datatype 'f visual_model_kind =
    BaseModel diffusion_architecture nat
  | Lora nat 'f diffusion_architecture
  | Unknown_Kind

record 'f visual_model_metadata =
  vm_kind :: "'f visual_model_kind"
  vm_tensor_count :: nat
  vm_parameter_count :: nat

text \<open>The variables of the loop.\<close>

record 'f visual_scan =
  is_lora :: bool
  detected_rank :: nat
  detected_alpha :: 'f
  is_dit :: bool
  is_unet :: bool
  latent_channels :: nat

definition dit_key :: "string \<Rightarrow> bool" where
  "dit_key lk = (contains_str lk ''double_blocks'' \<or> contains_str lk ''single_blocks'' \<or>
     contains_str lk ''transformer_blocks'' \<or> contains_str lk ''joint_blocks'')"

definition unet_key :: "string \<Rightarrow> bool" where
  "unet_key lk = (contains_str lk ''down_blocks'' \<or> contains_str lk ''up_blocks'' \<or>
     contains_str lk ''input_blocks'' \<or> contains_str lk ''middle_block'')"

definition lora_key :: "string \<Rightarrow> bool" where
  "lora_key lk = (contains_str lk ''lora_down'' \<or> contains_str lk ''lora_up'' \<or>
     contains_str lk ''lora_a'' \<or> contains_str lk ''lora_b'')"

text \<open>The four tests of the loop body, in their order.\<close>

definition scan_blocks :: "string \<Rightarrow> 'f visual_scan \<Rightarrow> 'f visual_scan" where
  "scan_blocks lk s =
     (if dit_key lk then s\<lparr>is_dit := True, latent_channels := 16\<rparr>
      else if unet_key lk then s\<lparr>is_unet := True\<rparr> else s)"

definition set_alpha :: "'f option \<Rightarrow> 'f visual_scan \<Rightarrow> 'f visual_scan" where
  "set_alpha x s = (case x of Some a \<Rightarrow> s\<lparr>detected_alpha := a\<rparr> | None \<Rightarrow> s)"

definition scan_lora :: "(string \<Rightarrow> 'f option) \<Rightarrow> string \<Rightarrow> string \<Rightarrow> 'f visual_scan \<Rightarrow> 'f visual_scan" where
  "scan_lora parse_f64 lk v s =
     (if lora_key lk then
        (let t = s\<lparr>is_lora := True\<rparr> in if ends_with lk ''.alpha'' then set_alpha (parse_f64 v) t else t)
      else s)"

definition scan_rank :: "string \<Rightarrow> string \<Rightarrow> 'f visual_scan \<Rightarrow> 'f visual_scan" where
  "scan_rank lk v s =
     (if contains_str lk ''rank'' \<or> contains_str lk ''network_dim'' then
        (case parse_uint 64 v of Some r \<Rightarrow> s\<lparr>detected_rank := r\<rparr> | None \<Rightarrow> s)
      else s)"

definition scan_alpha :: "(string \<Rightarrow> 'f option) \<Rightarrow> string \<Rightarrow> string \<Rightarrow> 'f visual_scan \<Rightarrow> 'f visual_scan" where
  "scan_alpha parse_f64 lk v s =
     (if contains_str lk ''network_alpha'' then set_alpha (parse_f64 v) s else s)"

definition scan_attribute :: "(string \<Rightarrow> 'f option) \<Rightarrow> string \<times> string \<Rightarrow> 'f visual_scan \<Rightarrow> 'f visual_scan" where
  "scan_attribute parse_f64 = (\<lambda>(k, v) s.
     let lk = to_ascii_lowercase k in
     scan_alpha parse_f64 lk v (scan_rank lk v (scan_lora parse_f64 lk v (scan_blocks lk s))))"

definition analyze_visual_attributes ::
    "'f \<Rightarrow> (string \<Rightarrow> 'f option) \<Rightarrow> (string \<times> string) list \<Rightarrow> nat \<Rightarrow> nat \<Rightarrow> 'f visual_model_metadata" where
  "analyze_visual_attributes one parse_f64 attrs tensor_count parameter_count =
     (let s = fold (scan_attribute parse_f64) attrs
            \<lparr>is_lora = False, detected_rank = 0, detected_alpha = one, is_dit = False, is_unet = False,
             latent_channels = 4\<rparr>;
          arch = (if is_dit s then Dit else if is_unet s then Unet else Unknown_Arch);
          kind = (if is_lora s then
                    Lora (if detected_rank s = 0 then 16 else detected_rank s) (detected_alpha s) arch
                  else if arch \<noteq> Unknown_Arch then BaseModel arch (latent_channels s)
                  else Unknown_Kind)
      in \<lparr>vm_kind = kind, vm_tensor_count = tensor_count, vm_parameter_count = parameter_count\<rparr>)"

definition inspect_visual_metadata ::
    "'f \<Rightarrow> (string \<Rightarrow> 'f option) \<Rightarrow> json_lib \<Rightarrow> seek_reader \<Rightarrow> 'f visual_model_metadata res" where
  "inspect_visual_metadata one parse_f64 J r =
     (case parse_safetensors_header J r of
        Inl e \<Rightarrow> Err e
      | Inr raw \<Rightarrow> Ok (analyze_visual_attributes one parse_f64 (st_attributes raw)
          (st_tensor_count raw) (st_parameter_count raw)))"

section \<open>The flags after the loop\<close>

definition some_key :: "(string \<Rightarrow> bool) \<Rightarrow> (string \<times> string) list \<Rightarrow> bool" where
  "some_key P attrs = list_ex (\<lambda>(k, v). P (to_ascii_lowercase k)) attrs"

lemma scan_step_flags:
  "is_dit (scan_blocks lk s) = (is_dit s \<or> dit_key lk)"
  "is_unet (scan_blocks lk s) = (is_unet s \<or> unet_key lk \<and> \<not> dit_key lk)"
  "is_lora (scan_blocks lk s) = is_lora s"
  "latent_channels (scan_blocks lk s) = (if dit_key lk then 16 else latent_channels s)"
  "is_dit (scan_lora p lk v s) = is_dit s" "is_unet (scan_lora p lk v s) = is_unet s"
  "is_lora (scan_lora p lk v s) = (is_lora s \<or> lora_key lk)"
  "latent_channels (scan_lora p lk v s) = latent_channels s"
  "is_dit (scan_rank lk v s) = is_dit s" "is_unet (scan_rank lk v s) = is_unet s"
  "is_lora (scan_rank lk v s) = is_lora s" "latent_channels (scan_rank lk v s) = latent_channels s"
  "is_dit (scan_alpha p lk v s) = is_dit s" "is_unet (scan_alpha p lk v s) = is_unet s"
  "is_lora (scan_alpha p lk v s) = is_lora s" "latent_channels (scan_alpha p lk v s) = latent_channels s"
  by (auto simp: scan_blocks_def scan_lora_def scan_rank_def scan_alpha_def set_alpha_def Let_def
      split: option.split)

lemma scan_attribute_flags:
  "is_dit (scan_attribute p (k, v) s) = (is_dit s \<or> dit_key (to_ascii_lowercase k))"
  "is_unet (scan_attribute p (k, v) s) =
     (is_unet s \<or> unet_key (to_ascii_lowercase k) \<and> \<not> dit_key (to_ascii_lowercase k))"
  "is_lora (scan_attribute p (k, v) s) = (is_lora s \<or> lora_key (to_ascii_lowercase k))"
  "latent_channels (scan_attribute p (k, v) s) =
     (if dit_key (to_ascii_lowercase k) then 16 else latent_channels s)"
  by (simp_all add: scan_attribute_def Let_def scan_step_flags)

lemma fold_scan_flags:
  "is_dit (fold (scan_attribute p) attrs s) = (is_dit s \<or> some_key dit_key attrs)"
  "is_unet (fold (scan_attribute p) attrs s) = (is_unet s \<or> some_key (\<lambda>k. unet_key k \<and> \<not> dit_key k) attrs)"
  "is_lora (fold (scan_attribute p) attrs s) = (is_lora s \<or> some_key lora_key attrs)"
  "latent_channels (fold (scan_attribute p) attrs s) =
     (if some_key dit_key attrs then 16 else latent_channels s)"
  by (induction attrs arbitrary: s) (auto simp: scan_attribute_flags some_key_def)

lemma analyze_kind:
  "\<exists>rank alpha. vm_kind (analyze_visual_attributes one p attrs tc pc) =
     (let arch = (if some_key dit_key attrs then Dit
                  else if some_key unet_key attrs then Unet else Unknown_Arch)
      in if some_key lora_key attrs then Lora rank alpha arch
         else if arch = Unknown_Arch then Unknown_Kind
         else BaseModel arch (if some_key dit_key attrs then 16 else 4)) \<and> 0 < rank"
proof -
  have eq: "some_key (\<lambda>k. unet_key k \<and> \<not> dit_key k) attrs = some_key unet_key attrs"
    if "\<not> some_key dit_key attrs"
    using that by (auto simp: some_key_def list_ex_iff)
  define s0 :: "'a visual_scan" where "s0 = \<lparr>is_lora = False, detected_rank = 0, detected_alpha = one,
    is_dit = False, is_unet = False, latent_channels = 4\<rparr>"
  define s where "s = fold (scan_attribute p) attrs s0"
  have flags: "is_dit s = some_key dit_key attrs" "is_lora s = some_key lora_key attrs"
    "is_unet s = some_key (\<lambda>k. unet_key k \<and> \<not> dit_key k) attrs"
    "latent_channels s = (if some_key dit_key attrs then 16 else 4)"
    by (simp_all add: s_def fold_scan_flags s0_def)
  have arch: "(if is_dit s then Dit else if is_unet s then Unet else Unknown_Arch) =
      (if some_key dit_key attrs then Dit else if some_key unet_key attrs then Unet else Unknown_Arch)"
    using eq by (simp add: flags)
  let ?rank = "if detected_rank s = 0 then 16 else detected_rank s"
  have "vm_kind (analyze_visual_attributes one p attrs tc pc) =
     (let arch = (if some_key dit_key attrs then Dit
                  else if some_key unet_key attrs then Unet else Unknown_Arch)
      in if some_key lora_key attrs then Lora ?rank (detected_alpha s) arch
         else if arch = Unknown_Arch then Unknown_Kind
         else BaseModel arch (if some_key dit_key attrs then 16 else 4))"
    unfolding analyze_visual_attributes_def Let_def s0_def [symmetric] s_def [symmetric] arch flags(2,4)
    by simp
  moreover have "0 < ?rank" by simp
  ultimately show ?thesis by (intro exI conjI)
qed

lemma some_key_mset: "mset attrs = mset attrs' \<Longrightarrow> some_key P attrs = some_key P attrs'"
  using mset_eq_setD [of attrs attrs'] by (simp add: some_key_def list_ex_iff)

text \<open>The rank is what the last parsable rank key says.\<close>

definition rank_step :: "string \<times> string \<Rightarrow> nat \<Rightarrow> nat" where
  "rank_step = (\<lambda>(k, v) r. if contains_str (to_ascii_lowercase k) ''rank'' \<or>
       contains_str (to_ascii_lowercase k) ''network_dim''
     then opt_or (parse_uint 64 v) r else r)"

lemma fold_scan_rank:
  "detected_rank (fold (scan_attribute p) attrs s) = fold rank_step attrs (detected_rank s)"
proof (induction attrs arbitrary: s)
  case (Cons kv attrs)
  have "detected_rank (scan_attribute p kv s) = rank_step kv (detected_rank s)"
    by (cases kv) (auto simp: rank_step_def scan_attribute_def Let_def scan_alpha_def scan_rank_def
        scan_lora_def scan_blocks_def set_alpha_def opt_or_def split: option.split)
  then show ?case using Cons.IH by simp
qed simp

lemma analyze_lora:
  assumes "some_key lora_key attrs" "fold rank_step attrs 0 = Suc r"
  shows "\<exists>a b. vm_kind (analyze_visual_attributes one p attrs tc pc) = Lora (Suc r) a b"
  using assms by (simp add: analyze_visual_attributes_def Let_def fold_scan_flags fold_scan_rank)

section \<open>Properties\<close>

text \<open>
  What the keys decide.  Whatever order the hash map yields its entries in, the kind of the
  model, its architecture and its latent channels are decided by which keys occur: any LoRA key
  makes a LoRA, any DiT key a DiT with 16 channels, else any UNet key a UNet with 4.
\<close>

theorem visual_kind_by_keys:
  assumes "mset attrs' = mset attrs"
  shows "\<exists>rank alpha. vm_kind (analyze_visual_attributes one p attrs' tc pc) =
     (let arch = (if some_key dit_key attrs then Dit
                  else if some_key unet_key attrs then Unet else Unknown_Arch)
      in if some_key lora_key attrs then Lora rank alpha arch
         else if arch = Unknown_Arch then Unknown_Kind
         else BaseModel arch (if some_key dit_key attrs then 16 else 4)) \<and> 0 < rank"
  using analyze_kind [of one p attrs' tc pc] unfolding some_key_mset [OF assms] .

theorem visual_kind_by_keys_witness:
  "vm_kind (analyze_visual_attributes (1 :: nat) (\<lambda>s. None)
     [(''up_blocks.0.w'', ''tensor''), (''w'', ''tensor'')] 2 9) = BaseModel Unet 4"
proof -
  have "\<not> some_key dit_key [(''w'', ''tensor''), (''up_blocks.0.w'', ''tensor'')]"
    "\<not> some_key lora_key [(''w'', ''tensor''), (''up_blocks.0.w'', ''tensor'')]"
    "some_key unet_key [(''w'', ''tensor''), (''up_blocks.0.w'', ''tensor'')]" by code_simp+
  then show ?thesis
    using visual_kind_by_keys [of "[(''up_blocks.0.w'', ''tensor''), (''w'', ''tensor'')]"
        "[(''w'', ''tensor''), (''up_blocks.0.w'', ''tensor'')]" "1 :: nat" "\<lambda>s. None" 2 9] by auto
qed

text \<open>
  What the order decides.  The keys of a Stable Diffusion UNet, whose blocks hold
  \<^verbatim>\<open>transformer_blocks\<close>, are taken for a DiT with 16 latent channels; and the rank reported for a LoRA
  with two rank keys depends on the order of the hash map.
\<close>

theorem visual_kind_misread:
  "vm_kind (analyze_visual_attributes one p
      [(''down_blocks.0.attentions.0.transformer_blocks.0.attn1.to_q.weight'', ''tensor''),
       (''up_blocks.1.resnets.0.conv1.weight'', ''tensor'')] tc pc) = BaseModel Dit 16 \<and>
   (\<exists>a b. vm_kind (analyze_visual_attributes one p
      [(''x.lora_down.weight'', ''tensor''), (''network_dim'', ''32''), (''lora_rank'', ''8'')] tc pc) = Lora 8 a b) \<and>
   (\<exists>a b. vm_kind (analyze_visual_attributes one p
      [(''x.lora_down.weight'', ''tensor''), (''lora_rank'', ''8''), (''network_dim'', ''32'')] tc pc) = Lora 32 a b)"
proof -
  let ?sd = "[(''down_blocks.0.attentions.0.transformer_blocks.0.attn1.to_q.weight'', ''tensor''),
       (''up_blocks.1.resnets.0.conv1.weight'', ''tensor'')]"
  have sd: "some_key dit_key ?sd" "\<not> some_key lora_key ?sd" by code_simp+
  let ?l1 = "[(''x.lora_down.weight'', ''tensor''), (''network_dim'', ''32''), (''lora_rank'', ''8'')]"
  let ?l2 = "[(''x.lora_down.weight'', ''tensor''), (''lora_rank'', ''8''), (''network_dim'', ''32'')]"
  have lora: "some_key lora_key ?l1" "some_key lora_key ?l2"
    "fold rank_step ?l1 0 = Suc 7" "fold rank_step ?l2 0 = Suc 31" by code_simp+
  have "\<exists>a b. vm_kind (analyze_visual_attributes one p ?l1 tc pc) = Lora 8 a b"
    using analyze_lora [OF lora(1,3)] by simp
  moreover have "\<exists>a b. vm_kind (analyze_visual_attributes one p ?l2 tc pc) = Lora 32 a b"
    using analyze_lora [OF lora(2,4)] by simp
  moreover have "vm_kind (analyze_visual_attributes one p ?sd tc pc) = BaseModel Dit 16"
    using analyze_kind [of one p ?sd tc pc] sd by (auto simp: Let_def)
  ultimately show ?thesis by (intro conjI)
qed

end
