(* ===== verification/Config.thy ===== *)
theory Config
  imports Std_Text Core_Errors
begin

text \<open>
  The daemon's configuration (\<^verbatim>\<open>config/modeld_config.rs\<close>): the default locations and quota, the record,
  and the loading of the file.  Paths are kept as the strings they are written as; the TOML parser
  is a parameter that yields a whole record or the text of an error.
\<close>

definition DEFAULT_CONFIG_PATH :: string where "DEFAULT_CONFIG_PATH = ''/etc/syntrop/modeld.conf''"
definition DEFAULT_STORAGE_PATH :: string where "DEFAULT_STORAGE_PATH = ''/var/lib/models''"
definition DEFAULT_SOCKET_PATH :: string where "DEFAULT_SOCKET_PATH = ''/run/syntrop/io.syntrop.Model1''"

definition DEFAULT_INFERENCE_SOCKET_PATH :: string where
  "DEFAULT_INFERENCE_SOCKET_PATH = ''/run/syntrop/io.syntrop.Inference1''"

definition DEFAULT_MAX_STORAGE_BYTES :: nat where
  "DEFAULT_MAX_STORAGE_BYTES = 64 * 1024 * 1024 * 1024"

record modeld_config =
  storage_path :: string
  max_storage_bytes :: nat
  socket_path :: string
  allow_remote_pulls :: bool
  enforce_safety_policy :: bool

definition default_config :: modeld_config where
  "default_config =
     \<lparr>storage_path = DEFAULT_STORAGE_PATH, max_storage_bytes = DEFAULT_MAX_STORAGE_BYTES,
      socket_path = DEFAULT_SOCKET_PATH, allow_remote_pulls = True, enforce_safety_policy = True\<rparr>"

text \<open>The path a string names, for a process whose working directory is the root.\<close>

definition abs_path :: "string \<Rightarrow> path" where
  "abs_path s = join [] s"

definition load_or_default ::
    "(string \<Rightarrow> string + modeld_config) \<Rightarrow> host \<Rightarrow> string \<Rightarrow> modeld_config res" where
  "load_or_default toml h p =
     (if \<not> path_exists h (abs_path p) then Ok default_config
      else (case read_to_string h (abs_path p) of
          Inl e \<Rightarrow> Err (Io e)
        | Inr text \<Rightarrow> map_err Config (toml text)))"

text \<open>
  Loading the configuration.  A missing file gives the defaults; a file that is there is either
  read and parsed as a whole or its failure is reported with the cause: never does a broken file
  give the defaults silently.
\<close>

theorem load_or_default_outcome:
  assumes "fault_free h"
  shows "load_or_default toml h p =
    (if stat h (abs_path p) = None \<or> \<not> nul_free (abs_path p) then Ok default_config
     else (case contents h (abs_path p) of
         None \<Rightarrow> Err (Io e_is_dir)
       | Some bs \<Rightarrow> if utf8_valid bs then map_err Config (toml bs) else Err (Io e_not_utf8)))"
proof (cases "nul_free (abs_path p)")
  case True
  then have r: "refuse h op (abs_path p) = None" for op by (rule refuse_fault_free [OF assms])
  show ?thesis using True
    by (auto simp: load_or_default_def path_exists_def r read_to_string_def read_file_def open_file_def
        read_node_def contents_def split: option.splits node.splits)
next
  case False
  then have "refuse h Op_stat (abs_path p) \<noteq> None" using refuse_nul by blast
  with False show ?thesis by (simp add: load_or_default_def path_exists_def)
qed

theorem load_or_default_outcome_witness:
  "load_or_default (\<lambda>t. Inl t) (plain_host [([''etc''], Dir), ([''etc'', ''modeld.conf''], File 0)]
     [(0, \<lparr>content = ''bad'', mtime = 0\<rparr>)]) ''/etc/modeld.conf'' = Err (Config ''bad'')"
proof -
  let ?h = "plain_host [([''etc''], Dir), ([''etc'', ''modeld.conf''], File 0)]
     [(0, \<lparr>content = ''bad'', mtime = 0\<rparr>)]"
  have "stat ?h (abs_path ''/etc/modeld.conf'') \<noteq> None" "nul_free (abs_path ''/etc/modeld.conf'')"
    "contents ?h (abs_path ''/etc/modeld.conf'') = Some ''bad''" "utf8_valid ''bad''" by code_simp+
  then show ?thesis
    using load_or_default_outcome [of ?h "\<lambda>t. Inl t" "''/etc/modeld.conf''"] by simp
qed

end
