(* ===== verification/Topology.thy ===== *)
theory Topology
  imports Config Json
begin

text \<open>
  Hardware discovery (\<^verbatim>\<open>envelope/topology.rs\<close>) and the memory budget (\<^verbatim>\<open>envelope/budget.rs\<close>).  What
  the code reads from outside is a parameter: \<open>peer\<close> is the service behind a socket (the byte stream
  it answers to a request until it closes, or the I/O error of any step of the exchange), \<open>J\<close> the JSON
  library, \<open>cores\<close> the standard library's count of processors.
\<close>

record gpu_plane_info =
  gp_id :: string
  gp_name :: string
  gp_kind :: string
  gp_total_memory :: nat
  gp_available_memory :: nat

record hardware_topology =
  gpu_planes :: "gpu_plane_info list"
  total_ram :: nat
  available_ram :: nat
  cpu_cores :: nat

definition is_discrete :: "gpu_plane_info \<Rightarrow> bool" where
  "is_discrete g = (let k = to_ascii_lowercase (gp_kind g) in
     k \<noteq> ''integrateduma'' \<and> k \<noteq> ''integrated_uma'')"

definition sum_gpu_vram :: "hardware_topology \<Rightarrow> nat" where
  "sum_gpu_vram topo = foldl u64_add 0 (map gp_total_memory (filter is_discrete (gpu_planes topo)))"

section \<open>The reply of the inference service\<close>

type_synonym 'a anyhow = "string + 'a"

definition opt_str :: "json \<Rightarrow> string \<Rightarrow> string" where
  "opt_str v k = opt_or (get_str v k) []"

definition opt_u64 :: "json \<Rightarrow> string \<Rightarrow> nat \<Rightarrow> nat" where
  "opt_u64 v k d = opt_or (get_u64 v k) d"

definition parse_plane :: "json \<Rightarrow> gpu_plane_info option" where
  "parse_plane p =
     (if opt_str p ''kind'' = ''CpuMatrixExtension'' \<or> opt_str p ''id'' = ''cpu-host'' then None
      else Some \<lparr>gp_id = opt_str p ''id'', gp_name = opt_str p ''name'', gp_kind = opt_str p ''kind'',
        gp_total_memory = opt_u64 p ''total_memory'' 0,
        gp_available_memory = opt_u64 p ''available_memory'' 0\<rparr>)"

fun parse_planes :: "json list \<Rightarrow> gpu_plane_info list \<Rightarrow> gpu_plane_info list" where
  "parse_planes [] acc = acc"
| "parse_planes (p # ps) acc =
     (case parse_plane p of None \<Rightarrow> parse_planes ps acc | Some g \<Rightarrow> parse_planes ps (acc @ [g]))"

definition topology_of_reply :: "json \<Rightarrow> hardware_topology anyhow" where
  "topology_of_reply resp =
     (case get_str resp ''error'' of
        Some err \<Rightarrow> Err (''Varlink error: '' @ err)
      | None \<Rightarrow>
          (case json_get resp ''parameters'' of
             None \<Rightarrow> Err ''Missing parameters in GetTopology reply''
           | Some params \<Rightarrow>
               Ok \<lparr>gpu_planes = (case get_array params ''planes'' of
                     Some planes \<Rightarrow> parse_planes planes [] | None \<Rightarrow> []),
                   total_ram = opt_u64 params ''total_ram'' 0,
                   available_ram = opt_u64 params ''available_ram'' 0,
                   cpu_cores = opt_u64 params ''cpu_cores'' 1\<rparr>))"

text \<open>\<open>read_until(0)\<close> and the removal of the terminator.\<close>

definition read_message :: "bytes \<Rightarrow> bytes" where
  "read_message stream = takeWhile (\<lambda>c. c \<noteq> CHR 0x00) stream"

definition topology_request :: "json_lib \<Rightarrow> bytes" where
  "topology_request J =
     jl_show J (J_obj [(''method'', J_str ''io.syntrop.Inference1.GetTopology''), (''parameters'', J_obj [])])
     @ [CHR 0x00]"

type_synonym peer = "string \<Rightarrow> bytes \<Rightarrow> io_error + bytes"

definition query_varlink_topology :: "json_lib \<Rightarrow> peer \<Rightarrow> host \<Rightarrow> string \<Rightarrow> hardware_topology anyhow" where
  "query_varlink_topology J peer h sock =
     (if \<not> path_exists h (abs_path sock)
      then Err (''Varlink socket '' @ debug_str sock @ '' not present'')
      else (case peer sock (topology_request J) of
          Inl e \<Rightarrow> Err (io_text e)
        | Inr stream \<Rightarrow>
            (let buf = read_message stream in
             if buf = [] then Err ''Empty Varlink response''
             else (case jl_parse J buf of Inl e \<Rightarrow> Err e | Inr resp \<Rightarrow> topology_of_reply resp))))"

section \<open>The fallback to the host\<close>

definition parse_meminfo_kb :: "string \<Rightarrow> nat" where
  "parse_meminfo_kb line = (case split_whitespace line of
     _ # s # _ \<Rightarrow> opt_or (parse_uint 64 s) 0 | _ \<Rightarrow> 0)"

fun scan_meminfo :: "string list \<Rightarrow> nat \<times> nat \<Rightarrow> nat \<times> nat" where
  "scan_meminfo [] acc = acc"
| "scan_meminfo (line # lines) (total_kb, avail_kb) =
     (if starts_with line ''MemTotal:'' then scan_meminfo lines (parse_meminfo_kb line, avail_kb)
      else if starts_with line ''MemAvailable:'' then scan_meminfo lines (total_kb, parse_meminfo_kb line)
      else scan_meminfo lines (total_kb, avail_kb))"

definition read_system_ram_fallback :: "host \<Rightarrow> nat option \<Rightarrow> nat \<times> nat \<times> nat" where
  "read_system_ram_fallback h cores =
     (let (total_kb, avail_kb) = (case read_to_string h [''proc'', ''meminfo''] of
            Inr info \<Rightarrow> scan_meminfo (str_lines info) (0, 0) | Inl e \<Rightarrow> (0, 0));
          total = sat_mul total_kb 1024;
          avail = (if avail_kb > 0 then sat_mul avail_kb 1024 else total div 2)
      in (total, avail, opt_or cores 1))"

text \<open>Two strings that name the same path for \<^verbatim>\<open>Path\<close>'s equality, one of them absolute.\<close>

definition same_path :: "string \<Rightarrow> string \<Rightarrow> bool" where
  "same_path a b = (starts_with a ''/'' = starts_with b ''/'' \<and> path_comps a = path_comps b)"

definition usable :: "hardware_topology anyhow \<Rightarrow> hardware_topology option" where
  "usable r = (case r of Inl e \<Rightarrow> None | Inr t \<Rightarrow> if total_ram t > 0 then Some t else None)"

definition query_or_fallback_topology ::
    "json_lib \<Rightarrow> peer \<Rightarrow> nat option \<Rightarrow> host \<Rightarrow> string \<Rightarrow> hardware_topology" where
  "query_or_fallback_topology J peer cores h sock =
     (case usable (query_varlink_topology J peer h sock) of
        Some topo \<Rightarrow> topo
      | None \<Rightarrow>
          (case (if same_path sock DEFAULT_INFERENCE_SOCKET_PATH then None
                 else usable (query_varlink_topology J peer h DEFAULT_INFERENCE_SOCKET_PATH)) of
             Some topo \<Rightarrow> topo
           | None \<Rightarrow>
               (let (total, avail, n) = read_system_ram_fallback h cores in
                \<lparr>gpu_planes = [], total_ram = total, available_ram = avail, cpu_cores = n\<rparr>)))"

section \<open>The budget\<close>

record memory_budget =
  vram_budget_bytes :: nat
  ram_budget_bytes :: nat
  total_gpu_vram_bytes :: nat
  available_ram_bytes :: nat
  mb_cpu_cores :: nat

text \<open>The \<open>f64\<close> constants: \<open>0.85\<close> is \<open>7656119366529843 / 2^53\<close>, \<open>0.50\<close> is \<open>1 / 2\<close>.\<close>

definition from_topology :: "hardware_topology \<Rightarrow> memory_budget" where
  "from_topology topo =
     (let total_gpu_vram = sum_gpu_vram topo;
          vram_budget = f64_mul_floor total_gpu_vram 7656119366529843 53;
          ram_budget = f64_mul_floor (available_ram topo) 1 1
      in \<lparr>vram_budget_bytes = vram_budget, ram_budget_bytes = ram_budget,
          total_gpu_vram_bytes = total_gpu_vram, available_ram_bytes = available_ram topo,
          mb_cpu_cores = cpu_cores topo\<rparr>)"

definition has_gpu :: "memory_budget \<Rightarrow> bool" where
  "has_gpu b = (vram_budget_bytes b > 0)"

section \<open>Sums and planes\<close>

lemma foldl_u64_add_mod: "a < 2 ^ 64 \<Longrightarrow> foldl u64_add a xs = (a + sum_list xs) mod 2 ^ 64"
proof (induction xs arbitrary: a)
  case (Cons x xs)
  have "u64_add a x < 2 ^ 64" by (simp add: u64_add_def)
  then have "foldl u64_add a (x # xs) = (u64_add a x + sum_list xs) mod 2 ^ 64" using Cons.IH by simp
  also have "\<dots> = (a + sum_list (x # xs)) mod 2 ^ 64"
    unfolding u64_add_def by (simp only: mod_add_left_eq sum_list.Cons add.assoc)
  finally show ?case .
qed simp

definition discrete_memory :: "hardware_topology \<Rightarrow> nat" where
  "discrete_memory topo = sum_list (map gp_total_memory (filter is_discrete (gpu_planes topo)))"

lemma sum_gpu_vram_exact: "discrete_memory topo < 2 ^ 64 \<Longrightarrow> sum_gpu_vram topo = discrete_memory topo"
  by (simp add: sum_gpu_vram_def discrete_memory_def foldl_u64_add_mod)

lemma parse_planes_filter: "parse_planes ps acc = acc @ List.map_filter parse_plane ps"
  by (induction ps arbitrary: acc) (auto simp: List.map_filter_def split: option.split)

lemma parse_plane_host: "parse_plane p = Some g \<Longrightarrow>
    gp_kind g \<noteq> ''CpuMatrixExtension'' \<and> gp_id g \<noteq> ''cpu-host''"
  by (auto simp: parse_plane_def split: if_splits)

section \<open>The arithmetic of the budget\<close>

lemma budget_85:
  assumes "n < 2 ^ 48"
  defines "b \<equiv> f64_mul_floor n 7656119366529843 53"
  shows "20 * b \<le> 17 * n" "17 * n \<le> 20 * (b + 1)"
proof -
  let ?a = "7656119366529843 :: nat"
  define P Q where "P = n * ?a" and "Q = round_53 P"
  have n: "round_53 n = n" using assms(1) by (intro round_53_small) simp
  have a: "20 * ?a + 4 = 17 * 2 ^ 53" by simp
  have up: "2 ^ 53 * Q \<le> (2 ^ 53 + 1) * P" and lo: "(2 ^ 53 - 1) * P \<le> 2 ^ 53 * Q"
    unfolding Q_def by (rule round_53_error)+
  have P: "20 * P + 4 * n = 17 * 2 ^ 53 * n" unfolding P_def using a by (simp add: algebra_simps)
  have "Q div 2 ^ 53 \<le> u64_max"
  proof -
    have "2 ^ 53 * Q \<le> 2 ^ 53 * (2 * P)" using up by simp
    then have "Q \<le> 2 * P" by simp
    also have "\<dots> \<le> 2 * (2 ^ 48 * 2 ^ 53)" using assms(1) unfolding P_def by simp
    finally have "Q div 2 ^ 53 \<le> 2 * 2 ^ 48" by simp
    then show ?thesis by (simp add: u64_max_def)
  qed
  then have b: "b = Q div 2 ^ 53" unfolding b_def f64_mul_floor_def n P_def Q_def by simp
  have le: "2 ^ 53 * b \<le> Q" and gt: "Q < 2 ^ 53 * (b + 1)"
    unfolding b using div_mult_mod_eq [of Q "2 ^ 53"] mod_less_divisor [of "2 ^ 53" Q] by (simp_all add: algebra_simps)
  show "20 * b \<le> 17 * n" using le up P assms(1) by simp
  show "17 * n \<le> 20 * (b + 1)" using gt lo P assms(1) by simp
qed

lemma budget_half: "n < 2 ^ 53 \<Longrightarrow> f64_mul_floor n 1 1 = n div 2"
  by (simp add: f64_mul_floor_def round_53_small u64_max_def)

section \<open>Text of \<^verbatim>\<open>/proc/meminfo\<close>\<close>

lemma split_on_append: "d \<notin> set l \<Longrightarrow> split_on d (l @ d # s) = l # split_on d s"
  by (induction l) auto

definition unlines :: "string list \<Rightarrow> string" where
  "unlines ls = concat (map (\<lambda>l. l @ [CHR 0x0A]) ls)"

definition text_line :: "string \<Rightarrow> bool" where
  "text_line l = (CHR 0x0A \<notin> set l \<and> CHR 0x0D \<notin> set l)"

lemma split_on_unlines: "\<forall>l \<in> set ls. text_line l \<Longrightarrow> split_on (CHR 0x0A) (unlines ls) = ls @ [[]]"
  by (induction ls) (simp_all add: unlines_def split_on_append text_line_def)

lemma strip_cr_text: "text_line l \<Longrightarrow> strip_cr l = l"
  by (auto simp: strip_cr_def text_line_def strip_suffix_Some_iff split: option.split)

lemma str_lines_unlines: "\<forall>l \<in> set ls. text_line l \<Longrightarrow> str_lines (unlines ls) = ls"
  by (simp add: str_lines_def split_on_unlines strip_cr_text map_idI)

lemma words_acc_word:
  "\<forall>c \<in> set w. \<not> ascii_space c \<Longrightarrow> words_acc v (w @ s) = words_acc (v @ w) s"
  by (induction w arbitrary: v) auto

lemma words_acc_spaces: "words_acc [] (replicate n (CHR '' '') @ s) = words_acc [] s"
  by (induction n) (simp_all add: ascii_space_def)

definition meminfo_line :: "string \<Rightarrow> nat \<Rightarrow> nat \<Rightarrow> string" where
  "meminfo_line key pad kb = key @ replicate (Suc pad) (CHR '' '') @ show_nat kb @ '' kB''"

lemma digit_not_space: "is_ascii_digit c \<Longrightarrow> \<not> ascii_space c"
  by (auto simp: char_class_defs ascii_space_def byte_val_def)

lemma parse_meminfo_line:
  assumes "\<forall>c \<in> set key. \<not> ascii_space c" "key \<noteq> []" "kb < 2 ^ 64"
  shows "parse_meminfo_kb (meminfo_line key pad kb) = kb"
proof -
  have digits: "\<forall>c \<in> set (show_nat kb). \<not> ascii_space c" using show_nat_digits digit_not_space by blast
  have "split_whitespace (meminfo_line key pad kb) = [key, show_nat kb, ''kB'']"
    using assms(1,2) digits words_acc_spaces [of pad "show_nat kb @ '' kB''"]
    by (simp add: split_whitespace_def meminfo_line_def words_acc_word ascii_space_def char_class_defs byte_val_def)
  then show ?thesis using assms(3) by (simp add: parse_meminfo_kb_def parse_show_nat)
qed

lemma meminfo_line_text:
  assumes "text_line key" "is_ascii key"
  shows "text_line (meminfo_line key pad kb)" "is_ascii (meminfo_line key pad kb)"
proof -
  have "CHR 0x0A \<notin> set (show_nat kb)" "CHR 0x0D \<notin> set (show_nat kb)"
    using show_nat_digits [of "CHR 0x0A" kb] show_nat_digits [of "CHR 0x0D" kb]
    by (auto simp: char_class_defs byte_val_def)
  with assms(1) show "text_line (meminfo_line key pad kb)" by (auto simp: text_line_def meminfo_line_def)
  have "\<forall>c \<in> set (show_nat kb). byte_val c < 0x80"
    using show_nat_digits [of _ kb] by (fastforce simp: char_class_defs)
  with assms(2) show "is_ascii (meminfo_line key pad kb)"
    by (auto simp: is_ascii_def meminfo_line_def list_all_iff byte_val_def)
qed

lemma is_ascii_unlines: "\<forall>l \<in> set ls. is_ascii l \<Longrightarrow> is_ascii (unlines ls)"
  by (induction ls) (simp_all add: unlines_def is_ascii_def byte_val_def)

lemma meminfo_line_starts: "starts_with (meminfo_line key pad kb) key"
  by (auto simp: starts_with_iff meminfo_line_def)

definition other_line :: "string \<Rightarrow> bool" where
  "other_line l = (\<not> starts_with l ''MemTotal:'' \<and> \<not> starts_with l ''MemAvailable:'')"

lemma scan_other: "\<forall>l \<in> set ls. other_line l \<Longrightarrow> scan_meminfo (ls @ ls') acc = scan_meminfo ls' acc"
  by (cases acc, induction ls) (simp_all add: other_line_def)

lemma scan_meminfo_rows:
  assumes "\<forall>l \<in> set (A @ B @ C). other_line l" and "t < 2 ^ 64" and "a < 2 ^ 64"
  shows "scan_meminfo (A @ meminfo_line ''MemTotal:'' i t # B @ meminfo_line ''MemAvailable:'' j a # C) (0, 0) = (t, a)"
proof -
  have kt: "\<forall>c \<in> set ''MemTotal:''. \<not> ascii_space c" and ka: "\<forall>c \<in> set ''MemAvailable:''. \<not> ascii_space c"
    by code_simp+
  have "parse_meminfo_kb (meminfo_line ''MemTotal:'' i t) = t" using kt assms(2) by (simp add: parse_meminfo_line)
  moreover have "parse_meminfo_kb (meminfo_line ''MemAvailable:'' j a) = a"
    using ka assms(3) by (simp add: parse_meminfo_line)
  moreover have "\<not> starts_with (meminfo_line ''MemAvailable:'' j a) ''MemTotal:''"
    by (simp add: starts_with_iff meminfo_line_def)
  moreover have "scan_meminfo C acc = acc" for acc
    using scan_other [of C "[]" acc] assms(1) by simp
  ultimately show ?thesis
    using assms(1) scan_other [of A] scan_other [of B] meminfo_line_starts by simp
qed

section \<open>Properties\<close>

text \<open>
  The budget.  For hosts below 256 TiB of accelerator memory and 8 PiB of RAM the floating-point
  rules come out as integer arithmetic: the accelerator budget never exceeds 85 per cent of the
  discrete memory and is within one byte of it, the RAM budget is exactly half of the available RAM,
  and a budget counts as having a GPU exactly from two bytes of discrete memory on.
\<close>

theorem budget_bounds:
  assumes "discrete_memory topo < 2 ^ 48" and "available_ram topo < 2 ^ 53"
  shows "20 * vram_budget_bytes (from_topology topo) \<le> 17 * discrete_memory topo \<and>
    17 * discrete_memory topo \<le> 20 * (vram_budget_bytes (from_topology topo) + 1) \<and>
    ram_budget_bytes (from_topology topo) = available_ram topo div 2 \<and>
    total_gpu_vram_bytes (from_topology topo) = discrete_memory topo \<and>
    (has_gpu (from_topology topo) \<longleftrightarrow> 2 \<le> discrete_memory topo)"
proof -
  have sum: "sum_gpu_vram topo = discrete_memory topo" using assms(1) by (intro sum_gpu_vram_exact) simp
  show ?thesis
    using budget_85 [OF assms(1)] budget_half [OF assms(2)]
    by (auto simp: from_topology_def Let_def sum has_gpu_def)
qed

definition demo_plane :: "string \<Rightarrow> nat \<Rightarrow> gpu_plane_info" where
  "demo_plane kind m = \<lparr>gp_id = ''gpu0'', gp_name = ''card'', gp_kind = kind, gp_total_memory = m, gp_available_memory = m\<rparr>"

definition demo_topology :: hardware_topology where
  "demo_topology = \<lparr>gpu_planes = [demo_plane ''DiscreteGpu'' 25769803776, demo_plane ''IntegratedUma'' 8589934592],
     total_ram = 34359738368, available_ram = 17179869184, cpu_cores = 16\<rparr>"

theorem budget_bounds_witness:
  "discrete_memory demo_topology = 25769803776 \<and> vram_budget_bytes (from_topology demo_topology) \<in> {21904333208, 21904333209} \<and>
   ram_budget_bytes (from_topology demo_topology) = 8589934592"
proof -
  have d: "discrete_memory demo_topology = 25769803776" "available_ram demo_topology = 17179869184" by code_simp+
  then show ?thesis using budget_bounds [of demo_topology] by auto
qed

text \<open>
  Reading \<^verbatim>\<open>/proc/meminfo\<close>.  Whatever other lines surround them, and however the columns are
  padded, the two rows the kernel prints are read back: total and available memory in bytes,
  saturated at 64 bits, with half of the total when the available row says zero.
\<close>

theorem meminfo_roundtrip:
  assumes "fault_free h"
    and "contents h [''proc'', ''meminfo''] = Some (unlines
      (A @ meminfo_line ''MemTotal:'' i t # B @ meminfo_line ''MemAvailable:'' j a # C))"
    and "\<forall>l \<in> set (A @ B @ C). other_line l \<and> text_line l \<and> is_ascii l"
    and "t < 2 ^ 64" and "a < 2 ^ 64"
  shows "read_system_ram_fallback h cores =
    (min u64_max (1024 * t), if a = 0 then min u64_max (1024 * t) div 2 else min u64_max (1024 * a), opt_or cores 1)"
proof -
  let ?ls = "A @ meminfo_line ''MemTotal:'' i t # B @ meminfo_line ''MemAvailable:'' j a # C"
  have keys: "text_line ''MemTotal:''" "text_line ''MemAvailable:''" "is_ascii ''MemTotal:''" "is_ascii ''MemAvailable:''"
    by code_simp+
  have lines: "\<forall>l \<in> set ?ls. text_line l" and asc: "\<forall>l \<in> set ?ls. is_ascii l"
    using assms(3) meminfo_line_text keys by auto
  have "read_file h [''proc'', ''meminfo''] = Ok (unlines ?ls)"
    using assms(1,2) by (intro read_file_fault_free) simp_all
  then have "read_to_string h [''proc'', ''meminfo''] = Ok (unlines ?ls)"
    using ascii_utf8_valid [OF is_ascii_unlines [OF asc]] by (simp add: read_to_string_def)
  moreover have "scan_meminfo (str_lines (unlines ?ls)) (0, 0) = (t, a)"
    unfolding str_lines_unlines [OF lines] using assms(3-5) by (intro scan_meminfo_rows) auto
  ultimately show ?thesis
    by (cases "a = 0") (simp_all add: read_system_ram_fallback_def sat_mul_def mult.commute [of 1024] Let_def)
qed

theorem meminfo_roundtrip_witness:
  "read_system_ram_fallback (plain_host [([''proc''], Dir), ([''proc'', ''meminfo''], File 0)]
     [(0, \<lparr>content = unlines ([] @ meminfo_line ''MemTotal:'' 7 32654324 #
        [''MemFree: 1 kB''] @ meminfo_line ''MemAvailable:'' 2 0 # []), mtime = 0\<rparr>)]) None
   = (33438027776, 16719013888, 1)"
proof -
  let ?h = "plain_host [([''proc''], Dir), ([''proc'', ''meminfo''], File 0)]
     [(0, \<lparr>content = unlines ([] @ meminfo_line ''MemTotal:'' 7 32654324 #
        [''MemFree: 1 kB''] @ meminfo_line ''MemAvailable:'' 2 0 # []), mtime = 0\<rparr>)]"
  have c: "contents ?h [''proc'', ''meminfo''] = Some (unlines ([] @ meminfo_line ''MemTotal:'' 7 32654324 #
        [''MemFree: 1 kB''] @ meminfo_line ''MemAvailable:'' 2 0 # []))" by code_simp
  have o: "\<forall>l \<in> set ([] @ [''MemFree: 1 kB''] @ []). other_line l \<and> text_line l \<and> is_ascii l" by code_simp
  show ?thesis using meminfo_roundtrip [OF fault_free_plain_host c o, of None] by (simp add: u64_max_def)
qed

text \<open>
  Where the topology comes from.  The host processor is never reported as an accelerator;
  accelerators are only ever those of a reply, with a positive amount of RAM, of one of the two
  sockets; and with neither socket present the answer is what the host says of itself, a budget
  without a GPU.
\<close>

theorem topology_sources:
  "(\<forall>g \<in> set (gpu_planes (query_or_fallback_topology J peer cores h sock)).
      gp_kind g \<noteq> ''CpuMatrixExtension'' \<and> gp_id g \<noteq> ''cpu-host'') \<and>
   (gpu_planes (query_or_fallback_topology J peer cores h sock) \<noteq> [] \<longrightarrow>
      (\<exists>s \<in> {sock, DEFAULT_INFERENCE_SOCKET_PATH}. path_exists h (abs_path s) \<and>
         query_varlink_topology J peer h s = Ok (query_or_fallback_topology J peer cores h sock)) \<and>
      0 < total_ram (query_or_fallback_topology J peer cores h sock)) \<and>
   (\<not> path_exists h (abs_path sock) \<and> \<not> path_exists h (abs_path DEFAULT_INFERENCE_SOCKET_PATH) \<longrightarrow>
      \<not> has_gpu (from_topology (query_or_fallback_topology J peer cores h sock)) \<and>
      (\<exists>total avail n. read_system_ram_fallback h cores = (total, avail, n) \<and>
         query_or_fallback_topology J peer cores h sock =
           \<lparr>gpu_planes = [], total_ram = total, available_ram = avail, cpu_cores = n\<rparr>))"
proof -
  let ?t = "query_or_fallback_topology J peer cores h sock"
  obtain total avail n where ram: "read_system_ram_fallback h cores = (total, avail, n)" by (metis prod_cases3)
  let ?own = "\<lparr>gpu_planes = [], total_ram = total, available_ram = avail, cpu_cores = n\<rparr>"
  have usable: "usable r = Some t \<longleftrightarrow> r = Ok t \<and> 0 < total_ram t" for r t
    by (cases r) (auto simp: usable_def)
  have cases: "?t = ?own \<or> (\<exists>s \<in> {sock, DEFAULT_INFERENCE_SOCKET_PATH}.
      usable (query_varlink_topology J peer h s) = Some ?t)"
    by (auto simp: query_or_fallback_topology_def ram split: option.splits)
  have exists: "path_exists h (abs_path s)" if "query_varlink_topology J peer h s = Ok t" for s t
    using that by (auto simp: query_varlink_topology_def split: if_splits)
  have planes: "\<forall>g \<in> set (gpu_planes t). gp_kind g \<noteq> ''CpuMatrixExtension'' \<and> gp_id g \<noteq> ''cpu-host''"
    if reply: "query_varlink_topology J peer h s = Ok t" for s t
  proof -
    from reply obtain resp where "topology_of_reply resp = Ok t"
      by (auto simp: query_varlink_topology_def Let_def split: if_splits sum.splits)
    then have "gpu_planes t = [] \<or> (\<exists>ps. gpu_planes t = parse_planes ps [])"
      by (auto simp: topology_of_reply_def split: option.splits)
    then show ?thesis using parse_plane_host by (auto simp: parse_planes_filter List.map_filter_def)
  qed
  have "\<not> has_gpu (from_topology ?own)" by code_simp
  moreover have "?t = ?own" if "\<not> path_exists h (abs_path sock)" "\<not> path_exists h (abs_path DEFAULT_INFERENCE_SOCKET_PATH)"
    using cases exists that usable by auto
  ultimately show ?thesis using cases planes exists usable ram by auto
qed

theorem topology_sources_witness:
  "query_or_fallback_topology \<lparr>jl_parse = (\<lambda>b. Inl []), jl_show = (\<lambda>v. [])\<rparr> (\<lambda>s b. Inl e_not_found) (Some 4)
     (plain_host [] []) ''/run/x'' = \<lparr>gpu_planes = [], total_ram = 0, available_ram = 0, cpu_cores = 4\<rparr>"
proof -
  let ?h = "plain_host [] []"
  have "\<not> path_exists ?h (abs_path ''/run/x'')" "\<not> path_exists ?h (abs_path DEFAULT_INFERENCE_SOCKET_PATH)"
    "read_system_ram_fallback ?h (Some 4) = (0, 0, 4)" by code_simp+
  then show ?thesis
    using topology_sources [of "\<lparr>jl_parse = (\<lambda>b. Inl []), jl_show = (\<lambda>v. [])\<rparr>" "\<lambda>s b. Inl e_not_found" "Some 4" ?h "''/run/x''"]
    by auto
qed

end
