(* ===== verification/Family.thy ===== *)
theory Family
  imports Topology Tag_Registry
begin

text \<open>
  The curated model families (\<^verbatim>\<open>envelope/family.rs\<close>, \<^verbatim>\<open>families.rs\<close>, \<^verbatim>\<open>profiles.rs\<close>, \<^verbatim>\<open>plan.rs\<close>): their
  names, the catalog, and the plan each one makes of a budget.  A size the code writes as
  \<open>(x * 1024.0 * 1024.0 * 1024.0) as u64\<close> is the truncated product: exact where \<open>x\<close> is dyadic, else
  the number itself.
\<close>

datatype model_family = Gemma | Qwen | Granite | Phi | BitNet

fun show_family :: "model_family \<Rightarrow> string" where
  "show_family Gemma = ''gemma''"
| "show_family Qwen = ''qwen''"
| "show_family Granite = ''granite''"
| "show_family Phi = ''phi''"
| "show_family BitNet = ''bitnet''"

definition family_from_str :: "string \<Rightarrow> model_family anyhow" where
  "family_from_str s =
     (let k = to_ascii_lowercase (trim s) in
      if k \<in> set [''gemma'', ''gemma2'', ''gemma3'', ''gemma4''] then Ok Gemma
      else if k \<in> set [''qwen'', ''qwen2.5''] then Ok Qwen
      else if k \<in> set [''granite'', ''granite-3.0'', ''granite3''] then Ok Granite
      else if k \<in> set [''phi'', ''phi-3.5'', ''phi3'', ''phi4''] then Ok Phi
      else if k \<in> set [''bitnet'', ''bitnet-b1.58'', ''ternary''] then Ok BitNet
      else Err (''Unknown model family '' @ [CHR 0x27] @ k @ [CHR 0x27] @
        ''. Supported: gemma, qwen, granite, phi, bitnet''))"

datatype model_role = CpuDraft | GpuPrimary | DeepReasoner | VisionTower | Embedder

record model_target =
  tg_role :: model_role
  tg_name :: string
  tg_tag :: string
  tg_repo :: string
  tg_file :: string
  tg_quant :: string
  estimated_bytes :: nat

definition download_url :: "model_target \<Rightarrow> string" where
  "download_url t = ''https://huggingface.co/'' @ tg_repo t @ ''/resolve/main/'' @ tg_file t"

record bootstrap_plan =
  bp_family :: model_family
  bp_budget :: memory_budget
  draft :: model_target
  primary :: "model_target option"
  deep_reasoner :: "model_target option"
  vision_tower :: "model_target option"
  embedder :: "model_target option"

definition all_targets :: "bootstrap_plan \<Rightarrow> model_target list" where
  "all_targets p =
     (let l = [draft p];
          l = (case primary p of Some t \<Rightarrow> l @ [t] | None \<Rightarrow> l);
          l = (case vision_tower p of Some t \<Rightarrow> l @ [t] | None \<Rightarrow> l);
          l = (case embedder p of Some t \<Rightarrow> l @ [t] | None \<Rightarrow> l)
      in (case deep_reasoner p of Some t \<Rightarrow> l @ [t] | None \<Rightarrow> l))"

section \<open>The catalog\<close>

record family_catalog_entry =
  fc_family :: model_family
  fc_name :: string
  default_profile :: string
  cpu_draft_model :: string
  primary_gpu_model :: string
  specialist_focus :: string
  vocab_size :: nat
  min_vram_mb :: nat
  recommended_vram_mb :: nat

definition family_catalog :: "family_catalog_entry list" where
  "family_catalog =
    [\<lparr>fc_family = Qwen, fc_name = ''qwen'', default_profile = ''Tier-1 Fleet Backbone'',
      cpu_draft_model = ''qwen2.5:0.5b'', primary_gpu_model = ''qwen2.5:7b'',
      specialist_focus = ''Balanced text, Qwen-Coder, Qwen-VL'',
      vocab_size = 152064, min_vram_mb = 5324, recommended_vram_mb = 8192\<rparr>,
     \<lparr>fc_family = Granite, fc_name = ''granite'', default_profile = ''Enterprise Linux & Sysadmin'',
      cpu_draft_model = ''granite-3.0:1b'', primary_gpu_model = ''granite-3.0:8b'',
      specialist_focus = ''Systemd units, C/Rust, kernel headers'',
      vocab_size = 49152, min_vram_mb = 5632, recommended_vram_mb = 8192\<rparr>,
     \<lparr>fc_family = Phi, fc_name = ''phi'', default_profile = ''Compact Laptop Density'',
      cpu_draft_model = ''phi-3.5-mini:3.8b'', primary_gpu_model = ''phi-4:14b'',
      specialist_focus = ''Phi-4-multimodal (audio+vision+text in 5.6B)'',
      vocab_size = 100352, min_vram_mb = 9728, recommended_vram_mb = 16384\<rparr>,
     \<lparr>fc_family = Gemma, fc_name = ''gemma'', default_profile = ''Multimodal Knowledge & On-Device Search'',
      cpu_draft_model = ''gemma-2:2b'', primary_gpu_model = ''gemma-2:9b'',
      specialist_focus = ''EmbeddingGemma 2 multimodal embeddings, PaliGemma 2, multilingual'',
      vocab_size = 256000, min_vram_mb = 6348, recommended_vram_mb = 12288\<rparr>,
     \<lparr>fc_family = BitNet, fc_name = ''bitnet'', default_profile = ''Ultra-Low Power CPU & Edge'',
      cpu_draft_model = ''bitnet:2b'', primary_gpu_model = ''bitnet:2b'',
      specialist_focus = ''Zero-VRAM CPU inference, 1.58-bit ternary math'',
      vocab_size = 32000, min_vram_mb = 0, recommended_vram_mb = 0\<rparr>]"

definition lookup_family_entry :: "model_family \<Rightarrow> family_catalog_entry option" where
  "lookup_family_entry f = find (\<lambda>e. fc_family e = f) family_catalog"

section \<open>The plans\<close>

definition mib :: nat where "mib = 1048576"
definition gib :: nat where "gib = 1073741824"

definition mk_target ::
    "model_role \<Rightarrow> string \<Rightarrow> string \<Rightarrow> string \<Rightarrow> string \<Rightarrow> string \<Rightarrow> nat \<Rightarrow> model_target" where
  "mk_target role name tag repo path quant n =
     \<lparr>tg_role = role, tg_name = name, tg_tag = tag, tg_repo = repo, tg_file = path, tg_quant = quant,
      estimated_bytes = n\<rparr>"

definition plan_qwen :: "memory_budget \<Rightarrow> bootstrap_plan" where
  "plan_qwen budget =
    (let draft = (if ram_budget_bytes budget \<ge> 650 * mib
           then mk_target CpuDraft ''qwen2.5'' ''0.5b'' ''Qwen/Qwen2.5-0.5B-Instruct-GGUF''
             ''qwen2.5-0.5b-instruct-q8_0.gguf'' ''Q8_0'' (650 * mib)
           else mk_target CpuDraft ''qwen2.5'' ''0.5b'' ''Qwen/Qwen2.5-0.5B-Instruct-GGUF''
             ''qwen2.5-0.5b-instruct-q4_k_m.gguf'' ''Q4_K_M'' (398 * mib));
         primary = (if has_gpu budget \<and> vram_budget_bytes budget \<ge> 5 * gib
           then Some (mk_target GpuPrimary ''qwen2.5'' ''7b'' ''bartowski/Qwen2.5-7B-Instruct-GGUF''
             ''Qwen2.5-7B-Instruct-Q4_K_M.gguf'' ''Q4_K_M'' 5583457484) \<comment> \<open>5.2 GiB\<close>
           else None);
         deep_reasoner = (if vram_budget_bytes budget \<ge> 20 * gib + gib div 2
           then Some (mk_target DeepReasoner ''qwen2.5'' ''32b'' ''bartowski/Qwen2.5-32B-Instruct-GGUF''
             ''Qwen2.5-32B-Instruct-Q4_K_M.gguf'' ''Q4_K_M'' (20 * gib + gib div 2))
           else if vram_budget_bytes budget \<ge> 9 * gib + gib div 2
           then Some (mk_target DeepReasoner ''qwen2.5'' ''14b'' ''bartowski/Qwen2.5-14B-Instruct-GGUF''
             ''Qwen2.5-14B-Instruct-Q4_K_M.gguf'' ''Q4_K_M'' (9 * gib + gib div 2))
           else None)
     in \<lparr>bp_family = Qwen, bp_budget = budget, draft = draft, primary = primary,
         deep_reasoner = deep_reasoner, vision_tower = None, embedder = None\<rparr>)"

definition plan_granite :: "memory_budget \<Rightarrow> bootstrap_plan" where
  "plan_granite budget =
    (let draft = (if ram_budget_bytes budget \<ge> 850 * mib
           then mk_target CpuDraft ''granite-3.0'' ''1b'' ''bartowski/granite-3.0-1b-a400m-instruct-GGUF''
             ''granite-3.0-1b-a400m-instruct-Q8_0.gguf'' ''Q8_0'' (850 * mib)
           else mk_target CpuDraft ''granite-3.0'' ''1b'' ''bartowski/granite-3.0-1b-a400m-instruct-GGUF''
             ''granite-3.0-1b-a400m-instruct-Q4_K_M.gguf'' ''Q4_K_M'' (550 * mib));
         primary = (if has_gpu budget \<and> vram_budget_bytes budget \<ge> 5 * gib
           then Some (mk_target GpuPrimary ''granite-3.0'' ''8b'' ''bartowski/granite-3.0-8b-instruct-GGUF''
             ''granite-3.0-8b-instruct-Q4_K_M.gguf'' ''Q4_K_M'' (5 * gib + gib div 2))
           else None)
     in \<lparr>bp_family = Granite, bp_budget = budget, draft = draft, primary = primary,
         deep_reasoner = None, vision_tower = None, embedder = None\<rparr>)"

definition plan_gemma :: "memory_budget \<Rightarrow> bootstrap_plan" where
  "plan_gemma budget =
    (let draft = (if ram_budget_bytes budget \<ge> 2 * gib
           then mk_target CpuDraft ''gemma'' ''2b'' ''bartowski/gemma-2-2b-it-GGUF''
             ''gemma-2-2b-it-Q8_0.gguf'' ''Q8_0'' 2362232012 \<comment> \<open>2.2 GiB\<close>
           else mk_target CpuDraft ''gemma'' ''2b'' ''bartowski/gemma-2-2b-it-GGUF''
             ''gemma-2-2b-it-Q4_K_M.gguf'' ''Q4_K_M'' 1717986918); \<comment> \<open>1.6 GiB\<close>
         (primary, vision_tower) = (if has_gpu budget \<and> vram_budget_bytes budget \<ge> 6 * gib
           then (Some (mk_target GpuPrimary ''gemma'' ''9b'' ''bartowski/gemma-2-9b-it-GGUF''
                   ''gemma-2-9b-it-Q4_K_M.gguf'' ''Q4_K_M'' 6657199308), \<comment> \<open>6.2 GiB\<close>
                 Some (mk_target VisionTower ''gemma'' ''mmproj-f16'' ''unsloth/gemma-4-E2B-it-GGUF''
                   ''mmproj-F16.gguf'' ''F16'' (600 * mib)))
           else (None, None));
         deep_reasoner = (if vram_budget_bytes budget \<ge> 17 * gib
           then Some (mk_target DeepReasoner ''gemma'' ''27b'' ''bartowski/gemma-2-27b-it-GGUF''
             ''gemma-2-27b-it-Q4_K_M.gguf'' ''Q4_K_M'' (17 * gib + gib div 2))
           else None);
         embedder = Some (mk_target Embedder ''embeddinggemma'' ''270m'' ''unsloth/embeddinggemma-2-GGUF''
           ''embeddinggemma-2-UD-Q4_K_XL.gguf'' ''Q4_K_XL'' (168 * mib))
     in \<lparr>bp_family = Gemma, bp_budget = budget, draft = draft, primary = primary,
         deep_reasoner = deep_reasoner, vision_tower = vision_tower, embedder = embedder\<rparr>)"

definition plan_phi :: "memory_budget \<Rightarrow> bootstrap_plan" where
  "plan_phi budget =
    (let draft = (if ram_budget_bytes budget \<ge> 2 * gib + gib div 2
           then mk_target CpuDraft ''phi-3.5-mini'' ''3.8b'' ''bartowski/Phi-3.5-mini-instruct-GGUF''
             ''Phi-3.5-mini-instruct-Q8_0.gguf'' ''Q8_0'' (2 * gib + gib div 2)
           else mk_target CpuDraft ''phi-3.5-mini'' ''3.8b'' ''bartowski/Phi-3.5-mini-instruct-GGUF''
             ''Phi-3.5-mini-instruct-Q4_K_M.gguf'' ''Q4_K_M'' 1932735283); \<comment> \<open>1.8 GiB\<close>
         primary = (if has_gpu budget \<and> vram_budget_bytes budget \<ge> 9 * gib
           then Some (mk_target GpuPrimary ''phi-4'' ''14b'' ''bartowski/phi-4-GGUF''
             ''phi-4-Q4_K_M.gguf'' ''Q4_K_M'' 9771050598) \<comment> \<open>9.1 GiB\<close>
           else None)
     in \<lparr>bp_family = Phi, bp_budget = budget, draft = draft, primary = primary,
         deep_reasoner = None, vision_tower = None, embedder = None\<rparr>)"

definition plan_bitnet :: "memory_budget \<Rightarrow> bootstrap_plan" where
  "plan_bitnet budget =
    (let draft = mk_target CpuDraft ''bitnet'' ''2b'' ''1bitLLM/bitnet_b1_58-2B4T''
           ''bitnet_b1_58-2B4T.gguf'' ''TL1'' (550 * mib)
     in \<lparr>bp_family = BitNet, bp_budget = budget, draft = draft, primary = None,
         deep_reasoner = None, vision_tower = None, embedder = None\<rparr>)"

fun plan_family :: "model_family \<Rightarrow> memory_budget \<Rightarrow> bootstrap_plan" where
  "plan_family Qwen budget = plan_qwen budget"
| "plan_family Granite budget = plan_granite budget"
| "plan_family Phi budget = plan_phi budget"
| "plan_family Gemma budget = plan_gemma budget"
| "plan_family BitNet budget = plan_bitnet budget"

lemmas plan_defs = plan_qwen_def plan_granite_def plan_gemma_def plan_phi_def plan_bitnet_def

section \<open>What every plan has in common\<close>

definition ref_of :: "model_target \<Rightarrow> string" where
  "ref_of t = tg_name t @ '':'' @ tg_tag t"

definition target_ok :: "model_target \<Rightarrow> bool" where
  "target_ok t = (tag_segment (tg_name t) \<and> tag_segment (tg_tag t) \<and> ends_with (tg_file t) ''.gguf'' \<and>
     0 < estimated_bytes t)"

definition plan_ok :: "bootstrap_plan \<Rightarrow> bool" where
  "plan_ok p = (list_all target_ok (all_targets p) \<and> distinct (map ref_of (all_targets p)) \<and>
     tg_role (draft p) = CpuDraft \<and>
     (\<forall>t \<in> set_option (primary p). tg_role t = GpuPrimary) \<and>
     (\<forall>t \<in> set_option (deep_reasoner p). tg_role t = DeepReasoner) \<and>
     (\<forall>t \<in> set_option (vision_tower p). tg_role t = VisionTower) \<and>
     (\<forall>t \<in> set_option (embedder p). tg_role t = Embedder))"


lemma plan_ok_qwen: "plan_ok (plan_qwen b)"
  unfolding plan_qwen_def Let_def
  by (cases "650 * mib \<le> ram_budget_bytes b"; cases "has_gpu b \<and> 5 * gib \<le> vram_budget_bytes b";
    cases "20 * gib + gib div 2 \<le> vram_budget_bytes b"; cases "9 * gib + gib div 2 \<le> vram_budget_bytes b";
    simp only: if_True if_False; code_simp)

lemma plan_ok_granite: "plan_ok (plan_granite b)"
  unfolding plan_granite_def Let_def
  by (cases "850 * mib \<le> ram_budget_bytes b"; cases "has_gpu b \<and> 5 * gib \<le> vram_budget_bytes b";
    simp only: if_True if_False; code_simp)

lemma plan_ok_gemma: "plan_ok (plan_gemma b)"
  unfolding plan_gemma_def Let_def
  by (cases "2 * gib \<le> ram_budget_bytes b"; cases "has_gpu b \<and> 6 * gib \<le> vram_budget_bytes b";
    cases "17 * gib \<le> vram_budget_bytes b"; simp only: if_True if_False; code_simp)

lemma plan_ok_phi: "plan_ok (plan_phi b)"
  unfolding plan_phi_def Let_def
  by (cases "2 * gib + gib div 2 \<le> ram_budget_bytes b"; cases "has_gpu b \<and> 9 * gib \<le> vram_budget_bytes b";
    simp only: if_True if_False; code_simp)

lemma plan_ok_bitnet: "plan_ok (plan_bitnet b)" by code_simp

definition target_size :: "model_target option \<Rightarrow> nat" where
  "target_size t = (case t of None \<Rightarrow> 0 | Some m \<Rightarrow> estimated_bytes m)"

section \<open>Properties\<close>

text \<open>
  Names of families.  Every family is recognised by the name it prints, in either case and with
  surrounding blanks, and has exactly one catalog entry, under that name.
\<close>

theorem family_names:
  "family_from_str (show_family f) = Ok f \<and>
   family_from_str ('' '' @ to_ascii_uppercase (show_family f) @ [CHR 0x0A]) = Ok f \<and>
   length (filter (\<lambda>e. fc_family e = f) family_catalog) = 1 \<and>
   map_option fc_name (lookup_family_entry f) = Some (show_family f)"
  by (induction f; code_simp)

text \<open>
  C37. Plans can be carried out.  For every family and budget: each target's name and tag are
  accepted by the tag registry, no two targets have the same reference, every artifact is a GGUF
  file, each slot holds a model of its role, the plan records its family and budget, and only a
  budget that has a GPU plans a primary, a vision tower or a deep reasoner.
\<close>

theorem plan_sound:
  "bp_family (plan_family f b) = f \<and> bp_budget (plan_family f b) = b \<and> plan_ok (plan_family f b) \<and>
   (\<not> has_gpu b \<longrightarrow> primary (plan_family f b) = None \<and> vision_tower (plan_family f b) = None \<and>
      deep_reasoner (plan_family f b) = None)"
proof -
  have "plan_ok (plan_family f b)"
    using plan_ok_qwen plan_ok_granite plan_ok_gemma plan_ok_phi plan_ok_bitnet by (cases f) simp_all
  moreover have "bp_family (plan_family f b) = f" "bp_budget (plan_family f b) = b"
    by (cases f; simp add: plan_defs Let_def)+
  moreover have "deep_reasoner (plan_family f b) = None \<and> primary (plan_family f b) = None \<and>
      vision_tower (plan_family f b) = None" if "\<not> has_gpu b"
    using that by (cases f) (simp_all add: plan_defs Let_def has_gpu_def gib_def)
  ultimately show ?thesis by blast
qed

definition demo_budget :: "nat \<Rightarrow> nat \<Rightarrow> memory_budget" where
  "demo_budget v r = \<lparr>vram_budget_bytes = v, ram_budget_bytes = r, total_gpu_vram_bytes = v,
     available_ram_bytes = 2 * r, mb_cpu_cores = 4\<rparr>"

theorem plan_sound_witness:
  "map ref_of (all_targets (plan_family Gemma (demo_budget 0 gib))) = [''gemma:2b'', ''embeddinggemma:270m''] \<and>
   primary (plan_family Gemma (demo_budget 0 gib)) = None"
proof -
  have "\<not> has_gpu (demo_budget 0 gib)"
    "map ref_of (all_targets (plan_family Gemma (demo_budget 0 gib))) = [''gemma:2b'', ''embeddinggemma:270m'']"
    by code_simp+
  then show ?thesis using plan_sound [of Gemma "demo_budget 0 gib"] by simp
qed

text \<open>
  More memory never plans less.  Raising a budget keeps the primary model and the vision tower,
  never drops the deep reasoner or replaces it by a smaller one, and never shrinks the draft.
\<close>

theorem plan_monotone:
  assumes "vram_budget_bytes b \<le> vram_budget_bytes b'" and "ram_budget_bytes b \<le> ram_budget_bytes b'"
  shows "estimated_bytes (draft (plan_family f b)) \<le> estimated_bytes (draft (plan_family f b')) \<and>
    target_size (primary (plan_family f b)) \<le> target_size (primary (plan_family f b')) \<and>
    target_size (vision_tower (plan_family f b)) \<le> target_size (vision_tower (plan_family f b')) \<and>
    target_size (deep_reasoner (plan_family f b)) \<le> target_size (deep_reasoner (plan_family f b'))"
  using assms
  by (cases f) (auto simp: plan_defs Let_def target_size_def mk_target_def has_gpu_def gib_def mib_def)

theorem plan_monotone_witness:
  "target_size (deep_reasoner (plan_family Qwen (demo_budget (10 * gib) gib))) = 9 * gib + gib div 2 \<and>
   9 * gib + gib div 2 \<le> target_size (deep_reasoner (plan_family Qwen (demo_budget (21 * gib) gib)))"
proof -
  have "target_size (deep_reasoner (plan_family Qwen (demo_budget (10 * gib) gib))) = 9 * gib + gib div 2" by code_simp
  then show ?thesis
    using plan_monotone [of "demo_budget (10 * gib) gib" "demo_budget (21 * gib) gib" Qwen]
    by (simp add: demo_budget_def gib_def)
qed

text \<open>
  How well plans keep to the budget.  A single accelerator model is never estimated at more than
  half a GiB above the accelerator budget; but the thresholds do lie below the estimates, so that
  budget is exceeded by one model alone, and a primary model and a deep reasoner are planned
  together on a budget that holds only one of them.
\<close>

theorem plan_within_budget:
  "target_size (primary (plan_family f b)) \<le> vram_budget_bytes b + gib div 2 \<and>
   target_size (deep_reasoner (plan_family f b)) \<le> vram_budget_bytes b + gib div 2 \<and>
   target_size (primary (plan_family Granite (demo_budget (5 * gib) gib))) = 5 * gib + gib div 2 \<and>
   target_size (primary (plan_family Qwen (demo_budget (20 * gib + gib div 2) gib))) +
     target_size (deep_reasoner (plan_family Qwen (demo_budget (20 * gib + gib div 2) gib))) =
     20 * gib + gib div 2 + 5583457484"
proof -
  have "target_size (primary (plan_family f b)) \<le> vram_budget_bytes b + gib div 2"
    "target_size (deep_reasoner (plan_family f b)) \<le> vram_budget_bytes b + gib div 2"
    by (cases f; simp add: plan_defs Let_def target_size_def mk_target_def has_gpu_def gib_def mib_def)+
  moreover have "target_size (primary (plan_family Granite (demo_budget (5 * gib) gib))) = 5 * gib + gib div 2"
    "target_size (primary (plan_family Qwen (demo_budget (20 * gib + gib div 2) gib))) +
     target_size (deep_reasoner (plan_family Qwen (demo_budget (20 * gib + gib div 2) gib))) =
     20 * gib + gib div 2 + 5583457484" by code_simp+
  ultimately show ?thesis by blast
qed

text \<open>
  The catalog.  Its draft and primary references are those of the plans for every family but
  Gemma, whose catalog names models no plan installs; and a budget that reaches the catalog's minimum
  does plan a primary, for every family that has one.
\<close>

theorem catalog_agrees:
  assumes "lookup_family_entry f = Some e"
  shows "(f \<noteq> Gemma \<longrightarrow> ref_of (draft (plan_family f b)) = cpu_draft_model e \<and>
      (\<forall>t. primary (plan_family f b) = Some t \<longrightarrow> ref_of t = primary_gpu_model e)) \<and>
    (f = Gemma \<longrightarrow> cpu_draft_model e \<notin> set (map ref_of (all_targets (plan_family f b))) \<and>
      primary_gpu_model e \<notin> set (map ref_of (all_targets (plan_family f b)))) \<and>
    (f \<noteq> BitNet \<and> min_vram_mb e * mib \<le> vram_budget_bytes b \<longrightarrow> primary (plan_family f b) \<noteq> None)"
  using assms
  by (cases f) (auto simp: plan_defs Let_def mk_target_def has_gpu_def gib_def mib_def ref_of_def all_targets_def
      lookup_family_entry_def family_catalog_def)

theorem catalog_agrees_witness:
  "\<exists>e. lookup_family_entry Phi = Some e \<and> min_vram_mb e = 9728 \<and>
     ref_of (draft (plan_family Phi (demo_budget (9728 * mib) gib))) = cpu_draft_model e \<and>
     primary (plan_family Phi (demo_budget (9728 * mib) gib)) \<noteq> None"
proof -
  obtain e where e: "lookup_family_entry Phi = Some e" "min_vram_mb e = 9728"
    by (simp add: lookup_family_entry_def family_catalog_def)
  have "vram_budget_bytes (demo_budget (9728 * mib) gib) = 9728 * mib" by (simp add: demo_budget_def)
  with e show ?thesis using catalog_agrees [OF e(1), of "demo_budget (9728 * mib) gib"] by auto
qed

end
