(* ===== verification/Varlink_Protocol.thy ===== *)
theory Varlink_Protocol
  imports Json
begin

text \<open>
  The Varlink envelopes (\<^verbatim>\<open>varlink/protocol.rs\<close>) and the introspection interface
  (\<^verbatim>\<open>varlink/service.rs\<close>).  The derived decoder of calls belongs to \<^verbatim>\<open>serde\<close> and is a parameter of the
  server; the derived encoder of replies is the object of the members that are present, in the order
  of the fields.
\<close>

section \<open>Envelopes\<close>

record varlink_call =
  vc_method :: string
  vc_parameters :: "json option"
  vc_more :: "bool option"

record varlink_reply =
  vr_parameters :: "json option"
  vr_error :: "string option"
  vr_continues :: "bool option"

definition reply_ok :: "json \<Rightarrow> varlink_reply" where
  "reply_ok parameters = \<lparr>vr_parameters = Some parameters, vr_error = None, vr_continues = None\<rparr>"

definition reply_err :: "string \<Rightarrow> json option \<Rightarrow> varlink_reply" where
  "reply_err error parameters = \<lparr>vr_parameters = parameters, vr_error = Some error, vr_continues = None\<rparr>"

definition opt_member :: "string \<Rightarrow> ('a \<Rightarrow> json) \<Rightarrow> 'a option \<Rightarrow> (string \<times> json) list" where
  "opt_member k f x = (case x of None \<Rightarrow> [] | Some a \<Rightarrow> [(k, f a)])"

definition reply_json :: "varlink_reply \<Rightarrow> json" where
  "reply_json r = J_obj (opt_member ''parameters'' id (vr_parameters r) @
     opt_member ''error'' J_str (vr_error r) @ opt_member ''continues'' J_bool (vr_continues r))"

definition to_bytes :: "json_lib \<Rightarrow> varlink_reply \<Rightarrow> bytes" where
  "to_bytes J r = jl_show J (reply_json r) @ [CHR 0x00]"

lemma reply_members [simp]:
  "vr_error (reply_ok p) = None" "vr_parameters (reply_ok p) = Some p"
  "vr_error (reply_err e q) = Some e" "vr_parameters (reply_err e q) = q"
  by (simp_all add: reply_ok_def reply_err_def)

section \<open>Introspection\<close>

text \<open>The interface texts, line by line, as \<open>trim\<close> leaves them.\<close>

definition join_lines :: "string list \<Rightarrow> string" where
  "join_lines ls = concat (map (\<lambda>l. l @ [CHR 0x0A]) (butlast ls)) @ last ls"

definition ORG_VARLINK_SERVICE_INTERFACE :: "string list" where
  "ORG_VARLINK_SERVICE_INTERFACE =
    [''interface org.varlink.service'',
     '''',
     ''method GetInfo() -> ('',
     ''  vendor: string,'',
     ''  product: string,'',
     ''  version: string,'',
     ''  url: string,'',
     ''  interfaces: []string'',
     '')'',
     '''',
     ''method GetInterfaceDescription(interface: string) -> (description: string)'',
     '''',
     ''error InterfaceNotFound(interface: string)'',
     ''error MethodNotFound(method: string)'',
     ''error MethodNotImplemented(method: string)'',
     ''error InvalidParameter(parameter: string)'']"

definition IO_SYNTROP_MODEL1_INTERFACE :: "string list" where
  "IO_SYNTROP_MODEL1_INTERFACE =
    [''interface io.syntrop.Model1'',
     '''',
     ''type ModelEntry ('',
     ''  id: string,'',
     ''  digest: string,'',
     ''  name: ?string,'',
     ''  tag: ?string,'',
     ''  size_bytes: int,'',
     ''  pinned: bool,'',
     ''  format: string'',
     '')'',
     '''',
     ''method List() -> (models: []ModelEntry)'',
     ''method Inspect(id: string) -> (info: ModelEntry, metadata: ?string)'',
     ''method Register(id: string, tag: ?string, digest: ?string) -> (entry: ModelEntry, metadata: ?string)'',
     ''method Pin(id: string) -> ()'',
     ''method Unpin(id: string) -> ()'',
     ''method Prune(max_bytes: int) -> (reclaimed_bytes: int)'',
     ''method GetStorageStats() -> (total_bytes: int, model_count: int, pinned_count: int)'',
     '''',
     ''error NoSuchModel(id: string)'',
     ''error InvalidIdentifier(id: string)'',
     ''error InvalidParameter(parameter: string, reason: string)'',
     ''error OperationFailed(reason: string)'',
     ''error SecurityRejection(reason: string)'']"

definition PKG_VERSION :: string where "PKG_VERSION = ''0.6.2''"

definition handle_service_call :: "string \<Rightarrow> json option \<Rightarrow> varlink_reply option" where
  "handle_service_call method params =
     (if method = ''org.varlink.service.GetInfo'' then
        Some (reply_ok (json_object
          [(''vendor'', J_str ''Syntropd Project''), (''product'', J_str ''modeld''),
           (''version'', J_str PKG_VERSION), (''url'', J_str ''https://github.com/syntropd/modeld''),
           (''interfaces'', J_arr [J_str ''org.varlink.service'', J_str ''io.syntrop.Model1''])]))
      else if method = ''org.varlink.service.GetInterfaceDescription'' then
        (let iface = opt_or (Option.bind params (\<lambda>p. get_str p ''interface'')) [] in
         if iface = ''org.varlink.service'' then
           Some (reply_ok (json_object [(''description'', J_str (join_lines ORG_VARLINK_SERVICE_INTERFACE))]))
         else if iface = ''io.syntrop.Model1'' then
           Some (reply_ok (json_object [(''description'', J_str (join_lines IO_SYNTROP_MODEL1_INTERFACE))]))
         else Some (reply_err ''org.varlink.service.InterfaceNotFound''
           (Some (json_object [(''interface'', J_str iface)]))))
      else None)"

text \<open>The names an interface text declares, under the interface it names.\<close>

definition declared :: "string \<Rightarrow> string list \<Rightarrow> string list" where
  "declared kind ls =
     (let prefix = (case ls of l # _ \<Rightarrow> drop (length ''interface '') l @ ''.'' | [] \<Rightarrow> []) in
      List.map_filter (\<lambda>l. case strip_prefix kind l of
        None \<Rightarrow> None | Some r \<Rightarrow> Some (prefix @ takeWhile (\<lambda>c. c \<noteq> CHR ''('') r)) ls)"

end
