(* ===== verification/Model_Service.thy ===== *)
theory Model_Service
  imports Varlink_Protocol Eviction Tag_Registry Validator Gguf Safetensors
begin

text \<open>
  The methods of \<^verbatim>\<open>io.syntrop.Model1\<close> (\<^verbatim>\<open>varlink/inspect.rs\<close>, \<^verbatim>\<open>varlink/register.rs\<close>,
  \<^verbatim>\<open>varlink/model1.rs\<close>).  A handler takes the parameters of a call and the host and yields the reply
  and the host after it; \<open>None\<close> is the exhaustion of the stack by the GGUF parser, which ends the
  daemon.  \<open>stack\<close> is the depth of arrays it can hold.
\<close>

record service_context =
  ctx_cas :: cas_store
  ctx_tags :: tag_registry
  ctx_eviction :: eviction_manager

type_synonym served = "(varlink_reply \<times> host) option"

section \<open>Identifiers\<close>

datatype resolve_outcome = Resolved string | Invalid_Id | Not_Found_Id

definition resolve_digest :: "tag_registry \<Rightarrow> host \<Rightarrow> string \<Rightarrow> resolve_outcome" where
  "resolve_digest tags h ident =
     (case resolve tags h ident of
        Inr (Some d) \<Rightarrow> Resolved d
      | Inr None \<Rightarrow> Not_Found_Id
      | Inl e \<Rightarrow> Invalid_Id)"

definition str_param :: "json option \<Rightarrow> string \<Rightarrow> string option" where
  "str_param params k = Option.bind params (\<lambda>p. get_str p k)"

definition ident_member :: "string \<Rightarrow> json option" where
  "ident_member ident = Some (json_object [(''id'', J_str ident)])"

section \<open>What a blob says of itself\<close>

text \<open>An open blob, as the format detector reads it from the start.\<close>

definition blob_events :: "host \<Rightarrow> path \<times> node \<Rightarrow> read_event list" where
  "blob_events h f = (case read_node h (fst f) (snd f) of Inl e \<Rightarrow> [Read_Error e] | Inr bs \<Rightarrow> [Chunk bs])"

definition blob_format :: "host \<Rightarrow> path \<times> node \<Rightarrow> safe_format res" where
  "blob_format h f = fst (detect_safe_format (blob_events h f))"

text \<open>The headers, parsed after rewinding the file.\<close>

definition blob_safetensors :: "json_lib \<Rightarrow> host \<Rightarrow> path \<times> node \<Rightarrow> safetensors_metadata res" where
  "blob_safetensors J h f = (case read_node h (fst f) (snd f) of
     Inl e \<Rightarrow> Err (Io e) | Inr bs \<Rightarrow> parse_safetensors_header J (file_reader bs))"

definition blob_gguf :: "nat \<Rightarrow> host \<Rightarrow> path \<times> node \<Rightarrow> gguf_metadata res option" where
  "blob_gguf stack h f = (case read_node h (fst f) (snd f) of
     Inl e \<Rightarrow> Some (Err (Io e)) | Inr bs \<Rightarrow> parse_gguf_header stack (file_reader bs))"

definition safetensors_text :: "string \<Rightarrow> safetensors_metadata res \<Rightarrow> string" where
  "safetensors_text digest r =
     (case r of
        Inr meta \<Rightarrow> ''architecture: '' @ opt_or (st_architecture meta) ''unknown'' @
          '', parameter_count: '' @ show_nat (st_parameter_count meta) @
          '', tensor_count: '' @ show_nat (st_tensor_count meta)
      | Inl e \<Rightarrow> ''Digest: '' @ digest)"

definition gguf_text :: "string \<Rightarrow> gguf_metadata res \<Rightarrow> string" where
  "gguf_text digest r =
     (case r of
        Inr meta \<Rightarrow>
          (let param_count = opt_or (or_else (map_of (gg_attributes meta) ''general.parameter_count'')
                 (Option.bind (gg_architecture meta) (\<lambda>a. map_of (gg_attributes meta) (a @ ''.parameter_count''))))
               (show_nat (gg_tensor_count meta));
               context_len = opt_or (map_option show_nat (gg_context_length meta)) ''unknown''
           in ''architecture: '' @ opt_or (gg_architecture meta) ''unknown'' @
              '', parameter_count: '' @ param_count @ '', context_length: '' @ context_len)
      | Inl e \<Rightarrow> ''Digest: '' @ digest)"

section \<open>Inspect\<close>

definition inspect_blob :: "json_lib \<Rightarrow> nat \<Rightarrow> service_context \<Rightarrow> host \<Rightarrow> string \<Rightarrow> (string \<times> string) option" where
  "inspect_blob J stack ctx h digest =
     (case open_blob (ctx_cas ctx) h digest of
        Inl e \<Rightarrow> Some (''gguf'', ''Digest: '' @ digest)
      | Inr f \<Rightarrow>
          if blob_format h f = Ok SafeTensors
          then Some (''safetensors'', safetensors_text digest (blob_safetensors J h f))
          else map_option (\<lambda>r. (''gguf'', gguf_text digest r)) (blob_gguf stack h f))"

definition handle_inspect :: "json_lib \<Rightarrow> nat \<Rightarrow> json option \<Rightarrow> service_context \<Rightarrow> host \<Rightarrow> varlink_reply option" where
  "handle_inspect J stack params ctx h =
     (case str_param params ''id'' of
        None \<Rightarrow> Some (reply_err ''io.syntrop.Model1.InvalidIdentifier'' None)
      | Some ident \<Rightarrow>
          (case resolve_digest (ctx_tags ctx) h ident of
             Invalid_Id \<Rightarrow> Some (reply_err ''io.syntrop.Model1.InvalidIdentifier'' (ident_member ident))
           | Not_Found_Id \<Rightarrow> Some (reply_err ''io.syntrop.Model1.NoSuchModel'' (ident_member ident))
           | Resolved digest \<Rightarrow>
               (let sz = unwrap_or 0 (blob_size (ctx_cas ctx) h digest);
                    pinned = is_pinned (ctx_eviction ctx) h digest
                in map_option (\<lambda>(format_str, metadata_str).
                     reply_ok (json_object
                       [(''info'', json_object
                          [(''id'', J_str ident), (''digest'', J_str digest), (''size_bytes'', jnat sz),
                           (''pinned'', J_bool pinned), (''format'', J_str format_str)]),
                        (''metadata'', J_str metadata_str)]))
                   (inspect_blob J stack ctx h digest))))"

section \<open>Register\<close>

text \<open>The name and the tag of a registration.\<close>

definition register_parts :: "string \<Rightarrow> string option \<Rightarrow> string \<times> string" where
  "register_parts ident tag_param =
     (case tag_param of
        Some t \<Rightarrow> ((case split_once (CHR '':'') ident of Some (n, _) \<Rightarrow> n | None \<Rightarrow> ident), trim t)
      | None \<Rightarrow> (case split_once (CHR '':'') ident of Some (n, t) \<Rightarrow> (n, t) | None \<Rightarrow> (ident, ''latest'')))"

text \<open>The prefixes and suffixes a digest may carry.\<close>

definition strip_digest :: "string \<Rightarrow> string" where
  "strip_digest d_str =
     (let d = (case strip_prefix ''sha256:'' d_str of Some rest \<Rightarrow> rest
             | None \<Rightarrow> (case strip_prefix ''sha256-'' d_str of Some rest \<Rightarrow> rest | None \<Rightarrow> d_str));
          d = (case strip_suffix ''.gguf'' d of Some rest \<Rightarrow> rest
             | None \<Rightarrow> (case strip_suffix ''.safetensors'' d of Some rest \<Rightarrow> rest | None \<Rightarrow> d))
      in to_ascii_lowercase d)"

text \<open>
  What the blob adds to the reply: its format and description, or the reason it is refused for.
\<close>

definition register_blob ::
    "json_lib \<Rightarrow> nat \<Rightarrow> service_context \<Rightarrow> host \<Rightarrow> string \<Rightarrow> (string + string \<times> string) option" where
  "register_blob J stack ctx h digest =
     (case open_blob (ctx_cas ctx) h digest of
        Inl e \<Rightarrow> Some (Inr (''gguf'', ''Digest: '' @ digest))
      | Inr f \<Rightarrow>
          (case blob_format h f of
             Inl (SecurityRejection reason) \<Rightarrow> Some (Inl reason)
           | Inr SafeTensors \<Rightarrow> Some (Inr (''safetensors'', safetensors_text digest (blob_safetensors J h f)))
           | _ \<Rightarrow> map_option (\<lambda>r. Inr (''gguf'', gguf_text digest r)) (blob_gguf stack h f)))"

definition parameter_error :: "string \<Rightarrow> string \<Rightarrow> varlink_reply" where
  "parameter_error parameter reason =
     reply_err ''io.syntrop.Model1.InvalidParameter''
       (Some (json_object [(''parameter'', J_str parameter), (''reason'', J_str reason)]))"

definition operation_failed :: "modeld_error \<Rightarrow> varlink_reply" where
  "operation_failed e =
     reply_err ''io.syntrop.Model1.OperationFailed'' (Some (json_object [(''reason'', J_str (show_error e))]))"

definition register_digest ::
    "service_context \<Rightarrow> host \<Rightarrow> string \<Rightarrow> string \<Rightarrow> string option \<Rightarrow> varlink_reply + string" where
  "register_digest ctx h name tag digest_param =
     (case digest_param of
        Some d \<Rightarrow> Ok (trim d)
      | None \<Rightarrow>
          (let resolve_id = name @ '':'' @ tag in
           case resolve (ctx_tags ctx) h resolve_id of
             Inr (Some d) \<Rightarrow> Ok d
           | Inr None \<Rightarrow> Err (reply_err ''io.syntrop.Model1.NoSuchModel'' (ident_member resolve_id))
           | Inl e \<Rightarrow> Err (reply_err ''io.syntrop.Model1.InvalidIdentifier'' (ident_member resolve_id))))"

definition register_reply ::
    "string \<Rightarrow> string \<Rightarrow> string \<Rightarrow> nat \<Rightarrow> bool \<Rightarrow> string + string \<times> string \<Rightarrow> varlink_reply" where
  "register_reply name tag digest sz pinned b =
     (case b of
        Inl reason \<Rightarrow> reply_err ''io.syntrop.Model1.SecurityRejection''
          (Some (json_object [(''reason'', J_str reason)]))
      | Inr (format_str, metadata_str) \<Rightarrow>
          reply_ok (json_object
            [(''entry'', json_object
               [(''id'', J_str (name @ '':'' @ tag)), (''digest'', J_str digest),
                (''name'', J_str name), (''tag'', J_str tag), (''size_bytes'', jnat sz),
                (''pinned'', J_bool pinned), (''format'', J_str format_str)]),
             (''metadata'', J_str metadata_str)]))"

text \<open>The part of the handler after the identifier, once name, tag and digest are known.\<close>

definition register_entry ::
    "json_lib \<Rightarrow> nat \<Rightarrow> service_context \<Rightarrow> string \<Rightarrow> string \<Rightarrow> string \<Rightarrow> host \<Rightarrow> served" where
  "register_entry J stack ctx name tag digest h =
     (case validate_digest_format digest of
        Inl e \<Rightarrow> Some (parameter_error ''digest'' (show_error e), h)
      | Inr u \<Rightarrow>
          (case set_tag (ctx_tags ctx) name tag digest h of
             (Inl e, h1) \<Rightarrow> Some (operation_failed e, h1)
           | (Inr u, h1) \<Rightarrow>
               (let sz = unwrap_or 0 (blob_size (ctx_cas ctx) h1 digest);
                    pinned = is_pinned (ctx_eviction ctx) h1 digest
                in map_option (\<lambda>b. (register_reply name tag digest sz pinned b, h1))
                   (register_blob J stack ctx h1 digest))))"

definition handle_register :: "json_lib \<Rightarrow> nat \<Rightarrow> json option \<Rightarrow> service_context \<Rightarrow> host \<Rightarrow> served" where
  "handle_register J stack params ctx h =
     (case str_param params ''id'' of
        None \<Rightarrow> Some (reply_err ''io.syntrop.Model1.InvalidIdentifier'' None, h)
      | Some s \<Rightarrow>
          if trim s = [] then Some (reply_err ''io.syntrop.Model1.InvalidIdentifier'' None, h)
          else
            (let ident = trim s; (name, tag) = register_parts ident (str_param params ''tag'') in
             case validate_tag_segment name of
               Inl e \<Rightarrow> Some (reply_err ''io.syntrop.Model1.InvalidIdentifier''
                 (Some (json_object [(''id'', J_str ident), (''reason'', J_str (show_error e))])), h)
             | Inr u \<Rightarrow>
                 (case validate_tag_segment tag of
                    Inl e \<Rightarrow> Some (parameter_error ''tag'' (show_error e), h)
                  | Inr u \<Rightarrow>
                      (case register_digest ctx h name tag (str_param params ''digest'') of
                         Inl r \<Rightarrow> Some (r, h)
                       | Inr d_str \<Rightarrow>
                           register_entry J stack ctx name tag (strip_digest d_str) h))))"

section \<open>The other methods\<close>

definition list_entry :: "service_context \<Rightarrow> host \<Rightarrow> model_tag \<Rightarrow> json" where
  "list_entry ctx h t =
     (let sz = unwrap_or 0 (blob_size (ctx_cas ctx) h (mt_digest t));
          pinned = is_pinned (ctx_eviction ctx) h (mt_digest t);
          format_str = (case open_blob (ctx_cas ctx) h (mt_digest t) of
             Inr f \<Rightarrow> if blob_format h f = Ok SafeTensors then ''safetensors'' else ''gguf''
           | Inl e \<Rightarrow> ''gguf'')
      in json_object
           [(''id'', J_str (mt_name t @ '':'' @ mt_tag t)), (''digest'', J_str (mt_digest t)),
            (''name'', J_str (mt_name t)), (''tag'', J_str (mt_tag t)), (''size_bytes'', jnat sz),
            (''pinned'', J_bool pinned), (''format'', J_str format_str)])"

definition handle_list :: "service_context \<Rightarrow> host \<Rightarrow> varlink_reply" where
  "handle_list ctx h =
     reply_ok (json_object
       [(''models'', J_arr (map (list_entry ctx h) (unwrap_or [] (list_tags (ctx_tags ctx) h))))])"

text \<open>\<open>handle_pin\<close> and \<open>handle_unpin\<close> differ in the operation only.\<close>

definition handle_pinning ::
    "(string \<Rightarrow> host \<Rightarrow> modeld_error option \<times> host) \<Rightarrow> json option \<Rightarrow> service_context \<Rightarrow> host \<Rightarrow> varlink_reply \<times> host" where
  "handle_pinning operation params ctx h =
     (case str_param params ''id'' of
        None \<Rightarrow> (reply_err ''io.syntrop.Model1.InvalidIdentifier'' None, h)
      | Some ident \<Rightarrow>
          (case resolve_digest (ctx_tags ctx) h ident of
             Invalid_Id \<Rightarrow> (reply_err ''io.syntrop.Model1.InvalidIdentifier'' (ident_member ident), h)
           | Not_Found_Id \<Rightarrow> (reply_err ''io.syntrop.Model1.NoSuchModel'' (ident_member ident), h)
           | Resolved digest \<Rightarrow>
               (case operation digest h of
                  (None, h1) \<Rightarrow> (reply_ok (json_object []), h1)
                | (Some e, h1) \<Rightarrow> (operation_failed e, h1))))"

definition failure :: "'e + 'a \<Rightarrow> 'e option" where
  "failure r = (case r of Inl e \<Rightarrow> Some e | Inr a \<Rightarrow> None)"

definition handle_pin :: "json option \<Rightarrow> service_context \<Rightarrow> host \<Rightarrow> varlink_reply \<times> host" where
  "handle_pin params ctx h =
     handle_pinning (\<lambda>d h. apfst failure (pin (ctx_eviction ctx) d h)) params ctx h"

definition handle_unpin :: "json option \<Rightarrow> service_context \<Rightarrow> host \<Rightarrow> varlink_reply \<times> host" where
  "handle_unpin params ctx h =
     handle_pinning (\<lambda>d h. apfst failure (unpin (ctx_eviction ctx) d h)) params ctx h"

definition handle_prune :: "json option \<Rightarrow> service_context \<Rightarrow> host \<Rightarrow> varlink_reply \<times> host" where
  "handle_prune params ctx h =
     (let max_bytes = opt_or (Option.bind params (\<lambda>p. get_u64 p ''max_bytes'')) 0 in
      if max_bytes = 0 then (parameter_error ''max_bytes'' ''max_bytes must be greater than zero'', h)
      else (case prune (ctx_eviction ctx) (ctx_cas ctx) max_bytes h of
              (Inr reclaimed, h1) \<Rightarrow> (reply_ok (json_object [(''reclaimed_bytes'', jnat reclaimed)]), h1)
            | (Inl e, h1) \<Rightarrow> (operation_failed e, h1)))"

text \<open>
  The scans of the statistics: the inodes seen, the bytes and the number of files.  One file
  system holds the store, so the inode number stands for device and inode.
\<close>

type_synonym stats = "nat list \<times> nat \<times> nat"

fun count_files :: "host \<Rightarrow> path \<Rightarrow> (string \<Rightarrow> bool) \<Rightarrow> (string \<times> node) list \<Rightarrow> stats \<Rightarrow> stats" where
  "count_files h dir wanted [] acc = acc"
| "count_files h dir wanted ((f, nd) # es) (seen, tot, n) =
     (if \<not> wanted (from_utf8_lossy f) then count_files h dir wanted es (seen, tot, n)
      else (case entry_metadata h (dir @ [f]) of
              Inl e \<Rightarrow> count_files h dir wanted es (seen, tot, n)
            | Inr m \<Rightarrow>
                (case m_node m of
                   File i \<Rightarrow>
                     if i \<in> set seen then count_files h dir wanted es (seen, tot, n)
                     else count_files h dir wanted es (i # seen, u64_add tot (m_len m), n + 1)
                 | _ \<Rightarrow> count_files h dir wanted es (seen, tot, n))))"

definition flat_model_name :: "string \<Rightarrow> bool" where
  "flat_model_name name = (starts_with name ''sha256-'' \<and> (ends_with name ''.gguf'' \<or> ends_with name ''.safetensors''))"

definition storage_stats :: "cas_store \<Rightarrow> host \<Rightarrow> stats" where
  "storage_stats S h =
     (let a = (case read_dir h (blobs_dir S) of
            Inr es \<Rightarrow> count_files h (blobs_dir S) (\<lambda>f. True) es ([], 0, 0) | Inl e \<Rightarrow> ([], 0, 0))
      in (case read_dir h (cas_dir S) of
            Inr es \<Rightarrow> count_files h (cas_dir S) flat_model_name es a | Inl e \<Rightarrow> a))"

definition handle_get_storage_stats :: "service_context \<Rightarrow> host \<Rightarrow> varlink_reply" where
  "handle_get_storage_stats ctx h =
     (let (seen, total_bytes, model_count) = storage_stats (ctx_cas ctx) h;
          pinned_count = unwrap_or 0 (map_sum id length (list_pinned (ctx_eviction ctx) h))
      in reply_ok (json_object [(''total_bytes'', jnat total_bytes), (''model_count'', jnat model_count),
           (''pinned_count'', jnat pinned_count)]))"

section \<open>Dispatch\<close>

definition unchanged :: "host \<Rightarrow> varlink_reply \<Rightarrow> varlink_reply \<times> host" where
  "unchanged h r = (r, h)"

definition handle_model1_call ::
    "json_lib \<Rightarrow> nat \<Rightarrow> string \<Rightarrow> json option \<Rightarrow> service_context \<Rightarrow> host \<Rightarrow> served option" where
  "handle_model1_call J stack method params ctx h =
     (if method = ''io.syntrop.Model1.List'' then Some (Some (handle_list ctx h, h))
      else if method = ''io.syntrop.Model1.Inspect'' then
        Some (map_option (unchanged h) (handle_inspect J stack params ctx h))
      else if method = ''io.syntrop.Model1.Register'' then Some (handle_register J stack params ctx h)
      else if method = ''io.syntrop.Model1.Pin'' then Some (Some (handle_pin params ctx h))
      else if method = ''io.syntrop.Model1.Unpin'' then Some (Some (handle_unpin params ctx h))
      else if method = ''io.syntrop.Model1.Prune'' then Some (Some (handle_prune params ctx h))
      else if method = ''io.syntrop.Model1.GetStorageStats'' then
        Some (Some (handle_get_storage_stats ctx h, h))
      else None)"

section \<open>Lemmas\<close>

text \<open>An identifier made of an accepted name and tag.\<close>

lemma tag_segment_graphic: "tag_segment s \<Longrightarrow> c \<in> set s \<Longrightarrow> graphic c"
  by (auto simp: tag_segment_def list_all_iff tag_byte_def graphic_def char_class_defs byte_val_def)

lemma ref_trim: "tag_segment n \<Longrightarrow> tag_segment t \<Longrightarrow> trim (n @ '':'' @ t) = n @ '':'' @ t"
  by (rule trim_all_graphic) (auto dest: tag_segment_graphic simp: graphic_def in_range_def byte_val_def)

lemma resolve_ref:
  assumes "tag_segment n" and "tag_segment t"
  shows "resolve R h (n @ '':'' @ t) = get_tag R h n t"
proof -
  have "\<not> list_all is_ascii_hexdigit (n @ '':'' @ t)" by (simp add: char_class_defs byte_val_def)
  moreover have "split_once (CHR '':'') (n @ '':'' @ t) = Some (n, t)"
    using split_once_append [of "CHR '':''" n t] tag_segment_no_colon [OF assms(1)] by simp
  ultimately show ?thesis
    using assms by (simp only: resolve_def Let_def ref_trim) (simp add: validate_tag_segment_Ok [THEN iffD2])
qed

lemma digest_format_hexdigits: "is_digest_format d \<Longrightarrow> c \<in> set d \<Longrightarrow> is_ascii_hexdigit c"
  by (drule (1) digest_format_chars) (auto simp: is_lower_hex_def is_ascii_hexdigit_def)

lemma resolve_digest_self:
  "is_digest_format d \<Longrightarrow> resolve R h d = Ok (Some d)"
  using digest_format_hexdigits [of d]
  by (simp add: resolve_def digest_format_trim Let_def validate_digest_format_def list_all_iff)
    (simp add: is_digest_format_def DIGEST_LEN_def)

lemma register_parts_ref: "tag_segment n \<Longrightarrow> register_parts (n @ '':'' @ t) None = (n, t)"
  using split_once_append [of "CHR '':''" n t] tag_segment_no_colon [of n] by (simp add: register_parts_def)

lemma strip_prefix_None: "(\<And>r. s \<noteq> p @ r) \<Longrightarrow> strip_prefix p s = None"
  using strip_prefix_Some_iff [of p s] by (cases "strip_prefix p s") auto

lemma strip_suffix_None: "(\<And>r. s \<noteq> r @ p) \<Longrightarrow> strip_suffix p s = None"
  using strip_suffix_Some_iff [of p s] by (cases "strip_suffix p s") auto

lemma strip_known_prefix:
  assumes "p \<in> {[], ''sha256:'', ''sha256-''}" and "x = [] \<or> hd x \<noteq> CHR ''s''"
  shows "(case strip_prefix ''sha256:'' (p @ x) of Some rest \<Rightarrow> rest
     | None \<Rightarrow> (case strip_prefix ''sha256-'' (p @ x) of Some rest \<Rightarrow> rest | None \<Rightarrow> p @ x)) = x"
proof -
  have "strip_prefix ''sha256:'' x = None" "strip_prefix ''sha256-'' x = None"
    using assms(2) by (auto intro!: strip_prefix_None)
  then show ?thesis using assms(1) by auto
qed

lemma strip_known_suffix:
  assumes "s \<in> {[], ''.gguf'', ''.safetensors''}" and "CHR ''.'' \<notin> set d"
  shows "(case strip_suffix ''.gguf'' (d @ s) of Some rest \<Rightarrow> rest
     | None \<Rightarrow> (case strip_suffix ''.safetensors'' (d @ s) of Some rest \<Rightarrow> rest | None \<Rightarrow> d @ s)) = d"
proof -
  have "strip_suffix ''.gguf'' d = None" "strip_suffix ''.safetensors'' d = None"
    using assms(2) by (auto intro!: strip_suffix_None)
  moreover have "strip_suffix ''.gguf'' (d @ ''.safetensors'') = None"
    using gguf_not_safetensors [THEN not_sym] by (intro strip_suffix_None)
  moreover have "strip_suffix ''.gguf'' (d @ ''.gguf'') = Some d" "strip_suffix ''.safetensors'' (d @ ''.safetensors'') = Some d"
    by (simp_all only: strip_suffix_append)
  ultimately show ?thesis using assms(1) by (elim insertE emptyE) simp_all
qed

lemma strip_digest_forms:
  assumes "\<forall>c \<in> set d. is_ascii_hexdigit c" "p \<in> {[], ''sha256:'', ''sha256-''}"
    and "s \<in> {[], ''.gguf'', ''.safetensors''}"
  shows "strip_digest (p @ d @ s) = to_ascii_lowercase d"
proof -
  have dot: "CHR ''.'' \<notin> set d" using assms(1) by (auto simp: char_class_defs byte_val_def)
  have "\<not> is_ascii_hexdigit (CHR ''s'')" by (simp add: char_class_defs byte_val_def)
  then have "d @ s = [] \<or> hd (d @ s) \<noteq> CHR ''s''" using assms(1,3) by (cases d) auto
  from strip_known_prefix [OF assms(2) this] strip_known_suffix [OF assms(3) dot]
  show ?thesis by (simp only: strip_digest_def Let_def)
qed

lemma strip_digest_id: "is_digest_format d \<Longrightarrow> strip_digest d = d"
  using strip_digest_forms [of d "[]" "[]"] digest_format_hexdigits [of d] by (simp add: digest_format_lower)

section \<open>Effects\<close>

text \<open>The ways a call changes the host: one operation of the store, with a checked key.\<close>

definition service_effect :: "service_context \<Rightarrow> host \<Rightarrow> host \<Rightarrow> bool" where
  "service_effect ctx h h' =
     (h' = h \<or>
      (\<exists>n t d. tag_segment n \<and> tag_segment t \<and> is_digest_format d \<and> h' = snd (set_tag (ctx_tags ctx) n t d h)) \<or>
      (\<exists>d. h' = snd (pin (ctx_eviction ctx) d h)) \<or> (\<exists>d. h' = snd (unpin (ctx_eviction ctx) d h)) \<or>
      (\<exists>mx. 0 < mx \<and> h' = snd (prune (ctx_eviction ctx) (ctx_cas ctx) mx h)))"

lemma service_effect_refl [simp]: "service_effect ctx h h"
  by (simp add: service_effect_def)

lemma service_effect_set:
  "tag_segment n \<Longrightarrow> tag_segment t \<Longrightarrow> is_digest_format d \<Longrightarrow> h' = snd (set_tag (ctx_tags ctx) n t d h) \<Longrightarrow>
   service_effect ctx h h'"
  unfolding service_effect_def by (rule disjI2, rule disjI1) fast

lemma register_entry_effect:
  assumes "register_entry J stack ctx n t d h = Some (r, h')"
  shows "h' = h \<or> is_digest_format d \<and> h' = snd (set_tag (ctx_tags ctx) n t d h)"
  using assms
  by (cases "set_tag (ctx_tags ctx) n t d h"; cases "register_blob J stack ctx (snd (set_tag (ctx_tags ctx) n t d h)) d")
     (auto simp: register_entry_def Let_def validate_digest_format_def
       split: sum.splits prod.splits if_splits)

lemma handle_register_effect:
  assumes "handle_register J stack params ctx h = Some (r, h')"
  shows "service_effect ctx h h'"
proof (cases "str_param params ''id''")
  case None
  with assms show ?thesis by (simp add: handle_register_def)
next
  case (Some s)
  obtain n t where nt: "register_parts (trim s) (str_param params ''tag'') = (n, t)" by fastforce
  show ?thesis
  proof (cases "tag_segment n \<and> tag_segment t \<and> trim s \<noteq> []")
    case True
    then have v: "validate_tag_segment n = Inr n" "validate_tag_segment t = Inr t"
      by (simp_all add: validate_tag_segment_Ok)
    show ?thesis
    proof (cases "register_digest ctx h n t (str_param params ''digest'')")
      case (Inl e)
      then show ?thesis using assms True Some nt v by (simp add: handle_register_def)
    next
      case (Inr c)
      then have "register_entry J stack ctx n t (strip_digest c) h = Some (r, h')"
        using assms True Some nt v by (simp add: handle_register_def)
      from register_entry_effect [OF this] show ?thesis
      proof
        assume "h' = h"
        then show ?thesis by simp
      next
        assume "is_digest_format (strip_digest c) \<and> h' = snd (set_tag (ctx_tags ctx) n t (strip_digest c) h)"
        with True show ?thesis by (intro service_effect_set) auto
      qed
    qed
  next
    case False
    then consider "trim s = []" | "trim s \<noteq> []" "\<not> tag_segment n"
      | "trim s \<noteq> []" "tag_segment n" "\<not> tag_segment t" by blast
    then have "h' = h"
    proof cases
      case 1
      then show ?thesis using assms Some by (simp add: handle_register_def)
    next
      case 2
      with validate_not_segment [of n] show ?thesis using assms Some nt by (auto simp: handle_register_def)
    next
      case 3
      then have "validate_tag_segment n = Inr n" by (simp add: validate_tag_segment_Ok)
      with 3 validate_not_segment [of t] show ?thesis using assms Some nt by (auto simp: handle_register_def)
    qed
    then show ?thesis by simp
  qed
qed

lemma handle_pinning_effect:
  assumes "handle_pinning f params ctx h = (r, h')"
  shows "h' = h \<or> (\<exists>d. h' = snd (f d h))"
proof (cases "str_param params ''id''")
  case None
  with assms show ?thesis by (simp add: handle_pinning_def)
next
  case (Some s)
  show ?thesis
  proof (cases "resolve_digest (ctx_tags ctx) h s")
    case (Resolved d)
    obtain e h1 where "f d h = (e, h1)" by fastforce
    with assms Some Resolved have "h' = snd (f d h)" by (cases e) (auto simp: handle_pinning_def)
    then show ?thesis by blast
  qed (use assms Some in \<open>simp_all add: handle_pinning_def\<close>)
qed

lemma model1_effect:
  assumes "handle_model1_call J stack method params ctx h = Some (Some (r, h'))"
  shows "service_effect ctx h h'"
proof -
  have pin: "service_effect ctx h h'" if "handle_pin params ctx h = (r, h')"
    using handle_pinning_effect [OF that [unfolded handle_pin_def]] by (auto simp: service_effect_def)
  have unpin: "service_effect ctx h h'" if "handle_unpin params ctx h = (r, h')"
    using handle_pinning_effect [OF that [unfolded handle_unpin_def]] by (auto simp: service_effect_def)
  have prune: "service_effect ctx h h'" if p: "handle_prune params ctx h = (r, h')"
  proof -
    define mx where "mx = opt_or (Option.bind params (\<lambda>p. get_u64 p ''max_bytes'')) 0"
    show ?thesis
    proof (cases "mx = 0")
      case True
      with p show ?thesis by (simp add: handle_prune_def Let_def mx_def)
    next
      case False
      obtain x h1 where x: "prune (ctx_eviction ctx) (ctx_cas ctx) mx h = (x, h1)" by fastforce
      then have "h' = h1" using p False
        by (cases x) (simp_all add: handle_prune_def Let_def mx_def [symmetric])
      then have "h' = snd (prune (ctx_eviction ctx) (ctx_cas ctx) mx h)" using x by simp
      with False show ?thesis unfolding service_effect_def by blast
    qed
  qed
  have ins: "h' = h" if "map_option (unchanged h) (handle_inspect J stack params ctx h) = Some (r, h')"
    using that by (auto simp: unchanged_def)
  show ?thesis
    using assms pin unpin prune ins handle_register_effect [of J stack params ctx h r h']
    by (auto simp: handle_model1_call_def split: if_splits)
qed

section \<open>Errors\<close>

definition MODEL1_ERRORS :: "string list" where
  "MODEL1_ERRORS = declared ''error '' IO_SYNTROP_MODEL1_INTERFACE"

definition MODEL1_METHODS :: "string list" where
  "MODEL1_METHODS = declared ''method '' IO_SYNTROP_MODEL1_INTERFACE"

lemma model1_names:
  "MODEL1_ERRORS = [''io.syntrop.Model1.NoSuchModel'', ''io.syntrop.Model1.InvalidIdentifier'',
     ''io.syntrop.Model1.InvalidParameter'', ''io.syntrop.Model1.OperationFailed'',
     ''io.syntrop.Model1.SecurityRejection'']"
  "MODEL1_METHODS = [''io.syntrop.Model1.List'', ''io.syntrop.Model1.Inspect'', ''io.syntrop.Model1.Register'',
     ''io.syntrop.Model1.Pin'', ''io.syntrop.Model1.Unpin'', ''io.syntrop.Model1.Prune'',
     ''io.syntrop.Model1.GetStorageStats'']"
  by code_simp+

text \<open>A reply without an error or with a declared one.\<close>

definition error_declared :: "varlink_reply \<Rightarrow> bool" where
  "error_declared r = (case vr_error r of None \<Rightarrow> True | Some e \<Rightarrow> e \<in> set MODEL1_ERRORS)"

lemma error_declared_simps [simp]:
  "error_declared (reply_ok p)" "error_declared (operation_failed e)" "error_declared (parameter_error a b)"
  "error_declared (reply_err ''io.syntrop.Model1.NoSuchModel'' q)"
  "error_declared (reply_err ''io.syntrop.Model1.InvalidIdentifier'' q)"
  "error_declared (reply_err ''io.syntrop.Model1.SecurityRejection'' q)"
  by (simp_all add: error_declared_def operation_failed_def parameter_error_def model1_names(1))

lemma pinning_error: "error_declared (fst (handle_pinning f params ctx h))"
  by (auto simp: handle_pinning_def split: option.split resolve_outcome.split prod.split)

lemma prune_error: "error_declared (fst (handle_prune params ctx h))"
  by (auto simp: handle_prune_def Let_def split: sum.split prod.split)

lemma inspect_error: "handle_inspect J stack params ctx h = Some r \<Longrightarrow> error_declared r"
  by (auto simp: handle_inspect_def Let_def split: option.splits resolve_outcome.splits)

lemma register_digest_error: "register_digest ctx h n t d = Inl r \<Longrightarrow> error_declared r"
  by (auto simp: register_digest_def Let_def split: option.splits sum.splits)

lemma register_reply_error: "error_declared (register_reply n t d sz pinned b)"
  by (cases b) (auto simp: register_reply_def split: prod.split)

lemma register_entry_error:
  "register_entry J stack ctx n t d h = Some (r, h') \<Longrightarrow> error_declared r"
  by (auto simp: register_entry_def Let_def register_reply_error split: sum.splits prod.splits)

lemma register_error: "handle_register J stack params ctx h = Some (r, h') \<Longrightarrow> error_declared r"
  by (auto simp: handle_register_def Let_def split: option.splits sum.splits prod.splits if_splits
      dest: register_digest_error register_entry_error)

lemma model1_error:
  assumes "handle_model1_call J stack method params ctx h = Some (Some (r, h'))"
  shows "error_declared r"
  using assms pinning_error prune_error [of params ctx h]
  by (auto simp: handle_model1_call_def unchanged_def handle_pin_def handle_unpin_def handle_list_def
      handle_get_storage_stats_def split: if_splits prod.splits dest: register_error inspect_error)
    (metis fst_conv)+

section \<open>Statistics\<close>

definition node_files :: "(string \<Rightarrow> bool) \<Rightarrow> (string \<times> node) list \<Rightarrow> nat set" where
  "node_files wanted es = {i. \<exists>f. (f, File i) \<in> set es \<and> wanted (from_utf8_lossy f)}"

definition stats_ok :: "host \<Rightarrow> nat set \<Rightarrow> stats \<Rightarrow> bool" where
  "stats_ok h I = (\<lambda>(seen, tot, n). set seen = I \<and> distinct seen \<and> n = length seen \<and>
     tot = (\<Sum>i\<leftarrow>seen. file_size h i) mod 2 ^ 64)"

lemma count_files_ok:
  assumes "\<And>f nd. (f, nd) \<in> set es \<Longrightarrow> entry_metadata h (dir @ [f]) = Ok (node_metadata h nd)"
    and "stats_ok h I acc"
  shows "stats_ok h (I \<union> node_files wanted es) (count_files h dir wanted es acc)"
  using assms
proof (induction es arbitrary: I acc)
  case Nil
  then show ?case by (simp add: node_files_def)
next
  case (Cons e es)
  obtain f nd where e: "e = (f, nd)" by fastforce
  obtain seen tot n where acc: "acc = (seen, tot, n)" by (cases acc) auto
  have meta: "entry_metadata h (dir @ [f]) = Ok (node_metadata h nd)" using Cons.prems(1) [of f nd] e by simp
  have IH: "stats_ok h I' acc' \<Longrightarrow> stats_ok h (I' \<union> node_files wanted es) (count_files h dir wanted es acc')" for I' acc'
    using Cons.IH Cons.prems(1) by simp
  show ?case
  proof (cases "wanted (from_utf8_lossy f) \<and> (\<exists>i. nd = File i)")
    case True
    then obtain i where i: "nd = File i" by blast
    have files: "node_files wanted (e # es) = insert i (node_files wanted es)"
      using True i e by (auto simp: node_files_def)
    show ?thesis
    proof (cases "i \<in> set seen")
      case old: True
      then have "i \<in> I" using Cons.prems(2) acc by (simp add: stats_ok_def)
      moreover have "count_files h dir wanted (e # es) acc = count_files h dir wanted es acc"
        using True i e acc meta old by (simp add: node_metadata_def)
      ultimately show ?thesis using IH [OF Cons.prems(2)] by (simp add: files insert_absorb)
    next
      case new: False
      have "stats_ok h (insert i I) (i # seen, u64_add tot (file_size h i), n + 1)"
        using new Cons.prems(2) acc by (auto simp: stats_ok_def u64_add_def mod_simps add.commute)
      moreover have "count_files h dir wanted (e # es) acc =
          count_files h dir wanted es (i # seen, u64_add tot (file_size h i), n + 1)"
        using True i e acc meta new by (simp add: node_metadata_def)
      ultimately show ?thesis using IH [of "insert i I"] by (simp add: files)
    qed
  next
    case False
    then have "node_files wanted (e # es) = node_files wanted es" using e by (auto simp: node_files_def)
    moreover have "count_files h dir wanted (e # es) acc = count_files h dir wanted es acc"
      using False e acc meta by (cases nd) (auto simp: node_metadata_def)
    ultimately show ?thesis using IH [OF Cons.prems(2)] by simp
  qed
qed

lemma children_metadata:
  assumes "fs_ok h" "fault_free h" "(f, nd) \<in> set (children h d)"
  shows "entry_metadata h (d @ [f]) = Ok (node_metadata h nd)"
proof -
  have l: "lookup h (d @ [f]) = Some nd" using assms(1,3) children_iff by blast
  then have "nul_free (d @ [f])" using fs_ok_lookupD(2) [OF assms(1)] by blast
  with l show ?thesis by (simp add: entry_metadata_def refuse_fault_free [OF assms(2)])
qed

section \<open>A small service\<close>

definition demo_context :: service_context where
  "demo_context = \<lparr>ctx_cas = demo_store, ctx_tags = demo_registry, ctx_eviction = demo_evm\<rparr>"

text \<open>A store that holds a pickle under \<open>demo_digest\<close>, beside an empty registry of tags.\<close>

definition pickle_host :: host where
  "pickle_host = plain_host (([''t''], Dir) # ([''m'', ''cas'', ''blobs'', ''sha256'', demo_digest], File 0) # demo_dirs)
     [(0, \<lparr>content = [CHR 0x80, CHR 0x04, CHR ''x'', CHR ''y''], mtime = 0\<rparr>)]"

lemma pickle_host_lookup:
  "prefix [''t''] q \<Longrightarrow> lookup pickle_host q = (if q = [''t''] then Some Dir else None)"
  by (auto simp: lookup_def pickle_host_def plain_host_def demo_dirs_def)

lemma pickle_host_tags: "tags_inv demo_registry pickle_host"
proof -
  have ok: "fs_ok pickle_host" by code_simp
  have "owned [''t''] pickle_host"
    unfolding owned_def plain_def
    by (auto simp: ok path_ok_def is_segment_def pickle_host_lookup split: if_splits) (simp add: pickle_host_def)
  then show ?thesis
    by (auto simp: tags_inv_def demo_registry_def tag_path_def pickle_host_lookup)
qed

definition demo_params :: "(string \<times> string) list \<Rightarrow> json option" where
  "demo_params ms = Some (J_obj (map (\<lambda>(k, v). (k, J_str v)) ms))"

definition dumb_json :: json_lib where
  "dumb_json = \<lparr>jl_parse = (\<lambda>b. Inl ''no JSON''), jl_show = (\<lambda>v. ''r'')\<rparr>"

section \<open>Properties\<close>

text \<open>
  C31. The interface.  The service answers exactly the methods its interface text declares, whatever
  the parameters, and every error it replies with is one the text declares.
\<close>

theorem service_interface:
  "(handle_model1_call J stack method params ctx h \<noteq> None \<longleftrightarrow>
      method \<in> set (declared ''method '' IO_SYNTROP_MODEL1_INTERFACE)) \<and>
   (\<forall>r h' e. handle_model1_call J stack method params ctx h = Some (Some (r, h')) \<and> vr_error r = Some e \<longrightarrow>
      e \<in> set (declared ''error '' IO_SYNTROP_MODEL1_INTERFACE))"
proof
  show "handle_model1_call J stack method params ctx h \<noteq> None \<longleftrightarrow>
      method \<in> set (declared ''method '' IO_SYNTROP_MODEL1_INTERFACE)"
    unfolding MODEL1_METHODS_def [symmetric] model1_names(2) by (auto simp: handle_model1_call_def)
  show "\<forall>r h' e. handle_model1_call J stack method params ctx h = Some (Some (r, h')) \<and> vr_error r = Some e \<longrightarrow>
      e \<in> set (declared ''error '' IO_SYNTROP_MODEL1_INTERFACE)"
    using model1_error unfolding error_declared_def MODEL1_ERRORS_def by fastforce
qed

theorem service_interface_witness:
  "handle_model1_call dumb_json 8 ''io.syntrop.Model1.Prune'' None demo_context demo_host =
     Some (Some (parameter_error ''max_bytes'' ''max_bytes must be greater than zero'', demo_host)) \<and>
   ''io.syntrop.Model1.InvalidParameter'' \<in> set (declared ''error '' IO_SYNTROP_MODEL1_INTERFACE)"
proof -
  have c: "handle_model1_call dumb_json 8 ''io.syntrop.Model1.Prune'' None demo_context demo_host =
     Some (Some (parameter_error ''max_bytes'' ''max_bytes must be greater than zero'', demo_host))"
    by (simp add: handle_model1_call_def handle_prune_def)
  with service_interface [of dumb_json 8 "''io.syntrop.Model1.Prune''" None demo_context demo_host]
  show ?thesis by (simp add: parameter_error_def)
qed

text \<open>
  C32. Registration.  With a registry in order, registering \<open>name:tag\<close> for a digest makes that
  identifier resolve to the digest and changes no other tag; the only other answer is a security
  rejection of the blob, and it too leaves the tag behind.
\<close>

theorem register_binds:
  assumes "tags_inv (ctx_tags ctx) h" and "tag_segment n" and "tag_segment t" and "is_digest_format d"
    and "str_param params ''id'' = Some (n @ '':'' @ t)" and "str_param params ''tag'' = None"
    and "str_param params ''digest'' = Some d"
    and "handle_register J stack params ctx h = Some (r, h')"
  shows "(vr_error r = None \<or> vr_error r = Some ''io.syntrop.Model1.SecurityRejection'') \<and>
    resolve (ctx_tags ctx) h' (n @ '':'' @ t) = Ok (Some d) \<and>
    tag_view (ctx_tags ctx) h' = (tag_view (ctx_tags ctx) h)((n, t) \<mapsto> d) \<and> tags_inv (ctx_tags ctx) h'"
proof -
  from set_tag_inv [OF assms(1-3), of d] assms(4) obtain h1
    where st: "set_tag (ctx_tags ctx) n t d h = (Ok (), h1)" and inv: "tags_inv (ctx_tags ctx) h1"
      and view: "tag_view (ctx_tags ctx) h1 = (tag_view (ctx_tags ctx) h)((n, t) \<mapsto> d)"
    by (auto simp: digest_format_trim)
  have v: "validate_tag_segment n = Inr n" "validate_tag_segment t = Inr t"
    using assms(2,3) by (simp_all add: validate_tag_segment_Ok)
  have "handle_register J stack params ctx h = register_entry J stack ctx n t d h"
    by (simp add: handle_register_def assms(5-7) ref_trim [OF assms(2,3), simplified]
        register_parts_ref [OF assms(2), simplified] v register_digest_def digest_format_trim [OF assms(4)]
        strip_digest_id [OF assms(4)])
  then obtain b where "h' = h1" and r: "r = register_reply n t d (unwrap_or 0 (blob_size (ctx_cas ctx) h1 d))
      (is_pinned (ctx_eviction ctx) h1 d) b"
    using assms(4,8) st
    by (cases "register_blob J stack ctx h1 d") (auto simp: register_entry_def Let_def validate_digest_format_def)
  moreover have "vr_error r = None \<or> vr_error r = Some ''io.syntrop.Model1.SecurityRejection''"
    unfolding r by (cases b) (auto simp: register_reply_def split: prod.split)
  ultimately show ?thesis
    using inv view by (simp add: resolve_ref [OF assms(2,3), simplified] get_tag_view [OF inv assms(2,3)])
qed

theorem register_binds_witness:
  "\<exists>r h'. handle_register dumb_json 8 (demo_params [(''id'', ''m:v''), (''digest'', demo_digest)]) demo_context pickle_host
      = Some (r, h') \<and> vr_error r = Some ''io.syntrop.Model1.SecurityRejection'' \<and>
     resolve demo_registry h' (''m:v'') = Ok (Some demo_digest)"
proof -
  let ?p = "demo_params [(''id'', ''m:v''), (''digest'', demo_digest)]"
  have e: "map_option (vr_error \<circ> fst) (handle_register dumb_json 8 ?p demo_context pickle_host) =
      Some (Some ''io.syntrop.Model1.SecurityRejection'')" by code_simp
  then obtain r h' where r: "handle_register dumb_json 8 ?p demo_context pickle_host = Some (r, h')"
    "vr_error r = Some ''io.syntrop.Model1.SecurityRejection''" by auto
  have p: "str_param ?p ''id'' = Some (''m'' @ '':'' @ ''v'')" "str_param ?p ''tag'' = None"
    "str_param ?p ''digest'' = Some demo_digest" by code_simp+
  have k: "tag_segment ''m''" "tag_segment ''v''" "is_digest_format demo_digest" by code_simp+
  have inv: "tags_inv (ctx_tags demo_context) pickle_host" using pickle_host_tags by (simp add: demo_context_def)
  from register_binds [OF inv k p r(1)] r show ?thesis by (auto simp: demo_context_def)
qed

text \<open>
  Unknown digests.  \<open>Inspect\<close> of a digest under which nothing is stored succeeds: it reports a
  GGUF model of size zero.
\<close>

theorem inspect_unknown_digest:
  assumes "is_digest_format d" and "str_param params ''id'' = Some d"
    and "\<forall>p \<in> blob_paths (ctx_cas ctx) d. stat h p = None"
  shows "handle_inspect J stack params ctx h = Some (reply_ok (json_object
    [(''info'', json_object
       [(''id'', J_str d), (''digest'', J_str d), (''size_bytes'', jnat 0),
        (''pinned'', J_bool (is_pinned (ctx_eviction ctx) h d)), (''format'', J_str ''gguf'')]),
     (''metadata'', J_str (''Digest: '' @ d))]))"
proof -
  have s: "stat h (blob_path (ctx_cas ctx) h d) = None" using assms(3) blob_path_in by blast
  then have "\<not> is_file h (blob_path (ctx_cas ctx) h d)" by (simp add: is_file_def)
  then have "open_blob (ctx_cas ctx) h d = Err (NotFound d)" by (simp add: open_blob_def)
  moreover have "unwrap_or 0 (blob_size (ctx_cas ctx) h d) = 0"
    using s by (simp add: blob_size_def fs_metadata_def split: option.split sum.split)
  moreover have "resolve_digest (ctx_tags ctx) h d = Resolved d"
    by (simp add: resolve_digest_def resolve_digest_self [OF assms(1)])
  ultimately show ?thesis by (simp add: handle_inspect_def assms(2) inspect_blob_def)
qed

theorem inspect_unknown_digest_witness:
  "\<exists>m. handle_inspect dumb_json 8 (demo_params [(''id'', demo_digest)]) demo_context demo_host = Some (reply_ok m)"
proof -
  have d: "is_digest_format demo_digest" by code_simp
  have p: "str_param (demo_params [(''id'', demo_digest)]) ''id'' = Some demo_digest" by code_simp
  have "\<forall>p \<in> blob_paths (ctx_cas demo_context) demo_digest. stat demo_host p = None"
    unfolding blob_paths_def by code_simp
  from inspect_unknown_digest [OF d p this] show ?thesis by blast
qed

text \<open>
  Spelling of digests.  Whichever of the prefixes and suffixes a caller puts around 64 hexadecimal
  digits, and in whichever case the digits are, registration reads the same digest.
\<close>

theorem register_digest_forms:
  assumes "length d = 64" and "list_all is_ascii_hexdigit d"
    and "p \<in> {[], ''sha256:'', ''sha256-''}" and "s \<in> {[], ''.gguf'', ''.safetensors''}"
  shows "strip_digest (p @ d @ s) = to_ascii_lowercase d \<and> is_digest_format (strip_digest (p @ d @ s))"
proof -
  have eq: "strip_digest (p @ d @ s) = to_ascii_lowercase d"
    using strip_digest_forms [OF _ assms(3,4)] assms(2) by (simp add: list_all_iff)
  have "is_lower_hex (ascii_lower_char c)" if "c \<in> set d" for c
  proof -
    have "is_ascii_hexdigit c" using that assms(2) by (simp add: list_all_iff)
    then show ?thesis by (auto simp: ascii_lower_char_def char_class_defs byte_val_char_of)
  qed
  then have "is_digest_format (to_ascii_lowercase d)"
    using assms(1) by (auto simp: is_digest_format_def DIGEST_LEN_def to_ascii_lowercase_def list_all_iff)
  with eq show ?thesis by simp
qed

theorem register_digest_forms_witness:
  "strip_digest (''sha256-'' @ replicate 64 (CHR ''A'') @ ''.gguf'') = demo_digest"
proof -
  have h: "length (replicate 64 (CHR ''A'')) = 64" "list_all is_ascii_hexdigit (replicate 64 (CHR ''A''))"
    and l: "to_ascii_lowercase (replicate 64 (CHR ''A'')) = demo_digest" by code_simp+
  show ?thesis using register_digest_forms [OF h, of "''sha256-''" "''.gguf''"] l by simp
qed

text \<open>
  Statistics.  On a host that refuses nothing, the totals count every inode once, however many
  names it has among the blobs and the flat model files.
\<close>

theorem stats_count_inodes:
  assumes "fs_ok h" and "fault_free h" and "lookup h (blobs_dir S) = Some Dir" and "lookup h (cas_dir S) = Some Dir"
    and "nul_free (blobs_dir S)" and "nul_free (cas_dir S)"
  shows "stats_ok h (node_files (\<lambda>f. True) (children h (blobs_dir S)) \<union>
      node_files flat_model_name (children h (cas_dir S))) (storage_stats S h)"
proof -
  have dir: "read_dir h d = Ok (children h d)" if "lookup h d = Some Dir" "nul_free d" for d
    using that by (simp add: read_dir_def refuse_fault_free [OF assms(2)] stat_lookup resolve_plain plainI)
  have "stats_ok h ({} \<union> node_files (\<lambda>f. True) (children h (blobs_dir S)))
      (count_files h (blobs_dir S) (\<lambda>f. True) (children h (blobs_dir S)) ([], 0, 0))"
    by (rule count_files_ok) (use children_metadata [OF assms(1,2)] in \<open>auto simp: stats_ok_def\<close>)
  then have "stats_ok h (({} \<union> node_files (\<lambda>f. True) (children h (blobs_dir S))) \<union>
        node_files flat_model_name (children h (cas_dir S)))
      (count_files h (cas_dir S) flat_model_name (children h (cas_dir S))
        (count_files h (blobs_dir S) (\<lambda>f. True) (children h (blobs_dir S)) ([], 0, 0)))"
    by - (rule count_files_ok, use children_metadata [OF assms(1,2)] in auto)
  then show ?thesis by (simp add: storage_stats_def dir assms(3-6))
qed

theorem stats_count_inodes_witness:
  "stats_ok pickle_host {0} (storage_stats demo_store pickle_host)"
proof -
  have f: "fs_ok pickle_host" "lookup pickle_host (blobs_dir demo_store) = Some Dir"
    "lookup pickle_host (cas_dir demo_store) = Some Dir" "nul_free (blobs_dir demo_store)" "nul_free (cas_dir demo_store)"
    by code_simp+
  have "children pickle_host (blobs_dir demo_store) = [(demo_digest, File 0)]"
    "children pickle_host (cas_dir demo_store) = [(''incoming'', Dir), (''blobs'', Dir)]" by code_simp+
  then have "node_files (\<lambda>f. True) (children pickle_host (blobs_dir demo_store)) = {0}"
    "node_files flat_model_name (children pickle_host (cas_dir demo_store)) = {}" by (auto simp: node_files_def)
  with stats_count_inodes [OF f(1) _ f(2-5)] show ?thesis by (simp add: pickle_host_def)
qed

end
