(* ===== verification/Varlink_Server.thy ===== *)
theory Varlink_Server
  imports Model_Service
begin

text \<open>
  The connection loop of the Varlink server (\<^verbatim>\<open>varlink/server.rs\<close>).  A connection is driven by the list
  of events its \<open>select!\<close> sees: a change of the shutdown flag, a read of at least one byte or of
  none (the end), or a failed read.  The environment holds what is outside the code: the JSON
  library, the derived decoder of calls, the stack, and the outcome of the \<open>n\<close>-th write to the peer.
  One call is served at a time; the tasks of several clients interleave only between calls here.
\<close>

definition MAX_MSG_BYTES :: nat where "MAX_MSG_BYTES = 1024 * 1024"

definition READ_CHUNK :: nat where "READ_CHUNK = 1024"

datatype conn_event = Readable bytes | Read_Failed io_error | Shutdown_Change bool

datatype conn_end = Conn_Open | Conn_Closed | Conn_Failed io_error | Daemon_Down

record connection =
  cn_buffer :: bytes
  cn_sent :: "bytes list"
  cn_host :: host

record server_env =
  se_json :: json_lib
  se_call :: "bytes \<Rightarrow> string + varlink_call"
  se_stack :: nat
  se_write :: "nat \<Rightarrow> io_error option"

section \<open>One message\<close>

definition dispatch_call :: "server_env \<Rightarrow> varlink_call \<Rightarrow> service_context \<Rightarrow> host \<Rightarrow> served" where
  "dispatch_call env call ctx h =
     (case handle_service_call (vc_method call) (vc_parameters call) of
        Some reply \<Rightarrow> Some (reply, h)
      | None \<Rightarrow>
          (case handle_model1_call (se_json env) (se_stack env) (vc_method call) (vc_parameters call) ctx h of
             Some served \<Rightarrow> served
           | None \<Rightarrow> Some (reply_err ''org.varlink.service.MethodNotFound''
               (Some (json_object [(''method'', J_str (vc_method call))])), h)))"

definition answer_message :: "server_env \<Rightarrow> service_context \<Rightarrow> bytes \<Rightarrow> host \<Rightarrow> served" where
  "answer_message env ctx payload h =
     (case se_call env payload of
        Inl e \<Rightarrow> Some (reply_err ''org.varlink.service.InvalidParameter''
          (Some (json_object [(''reason'', J_str e)])), h)
      | Inr call \<Rightarrow> dispatch_call env call ctx h)"

definition send_reply :: "server_env \<Rightarrow> varlink_reply \<Rightarrow> connection \<Rightarrow> io_error + connection" where
  "send_reply env reply c =
     (case se_write env (length (cn_sent c)) of
        Some e \<Rightarrow> Err e
      | None \<Rightarrow> Ok (c\<lparr>cn_sent := cn_sent c @ [to_bytes (se_json env) reply]\<rparr>))"

section \<open>The loops\<close>

text \<open>The inner loop: every complete message of the buffer is taken off and answered.\<close>

function drain_messages :: "server_env \<Rightarrow> service_context \<Rightarrow> connection \<Rightarrow> conn_end \<times> connection" where
  "drain_messages env ctx c =
     (case split_once (CHR 0x00) (cn_buffer c) of
        None \<Rightarrow> (Conn_Open, c)
      | Some (payload, rest) \<Rightarrow>
          (case answer_message env ctx payload (cn_host c) of
             None \<Rightarrow> (Daemon_Down, c\<lparr>cn_buffer := rest\<rparr>)
           | Some (reply, h) \<Rightarrow>
               (case send_reply env reply (c\<lparr>cn_buffer := rest, cn_host := h\<rparr>) of
                  Inl e \<Rightarrow> (Conn_Failed e, c\<lparr>cn_buffer := rest, cn_host := h\<rparr>)
                | Inr c' \<Rightarrow> drain_messages env ctx c')))"
  by pat_completeness auto
termination
  by (relation "measure (\<lambda>(env, ctx, c). length (cn_buffer c))")
     (auto simp: send_reply_def split_once_Some_iff split: option.splits)

declare drain_messages.simps [simp del]

definition too_long_reply :: varlink_reply where
  "too_long_reply = reply_err ''org.varlink.service.ProtocolError''
     (Some (json_object [(''reason'', J_str (''message exceeded '' @ show_nat MAX_MSG_BYTES @ '' bytes''))]))"

text \<open>The events after a read of some bytes: the cap, then the inner loop.\<close>

definition receive_bytes :: "server_env \<Rightarrow> service_context \<Rightarrow> bytes \<Rightarrow> connection \<Rightarrow> conn_end \<times> connection" where
  "receive_bytes env ctx bs c =
     (let c1 = c\<lparr>cn_buffer := cn_buffer c @ bs\<rparr> in
      if MAX_MSG_BYTES < length (cn_buffer c1) then (Conn_Closed, unwrap_or c1 (send_reply env too_long_reply c1))
      else drain_messages env ctx c1)"

fun handle_varlink_client ::
    "server_env \<Rightarrow> service_context \<Rightarrow> conn_event list \<Rightarrow> connection \<Rightarrow> conn_end \<times> connection" where
  "handle_varlink_client env ctx [] c = (Conn_Open, c)"
| "handle_varlink_client env ctx (Shutdown_Change b # es) c =
     (if b then (Conn_Closed, c) else handle_varlink_client env ctx es c)"
| "handle_varlink_client env ctx (Read_Failed e # es) c = (Conn_Failed e, c)"
| "handle_varlink_client env ctx (Readable bs # es) c =
     (if bs = [] then (Conn_Closed, c)
      else (case receive_bytes env ctx bs c of
              (Conn_Open, c') \<Rightarrow> handle_varlink_client env ctx es c'
            | (stop, c') \<Rightarrow> (stop, c')))"

definition new_connection :: "host \<Rightarrow> connection" where
  "new_connection h = \<lparr>cn_buffer = [], cn_sent = [], cn_host = h\<rparr>"

section \<open>Framing\<close>

text \<open>The answers to a list of messages, one after the other.\<close>

fun answers :: "server_env \<Rightarrow> service_context \<Rightarrow> bytes list \<Rightarrow> host \<Rightarrow> (varlink_reply list \<times> host) option" where
  "answers env ctx [] h = Some ([], h)"
| "answers env ctx (m # ms) h =
     (case answer_message env ctx m h of
        None \<Rightarrow> None
      | Some (r, h1) \<Rightarrow>
          (case answers env ctx ms h1 of None \<Rightarrow> None | Some (rs, h2) \<Rightarrow> Some (r # rs, h2)))"

lemma answers_append:
  "answers env ctx (ms @ ms') h =
     (case answers env ctx ms h of None \<Rightarrow> None | Some (rs, h1) \<Rightarrow>
        (case answers env ctx ms' h1 of None \<Rightarrow> None | Some (rs', h2) \<Rightarrow> Some (rs @ rs', h2)))"
  by (induction ms arbitrary: h) (auto split: option.split)

lemma split_on_once:
  "split_on d s = (case split_once d s of None \<Rightarrow> [s] | Some (a, b) \<Rightarrow> a # split_on d b)"
  by (induction s) (auto split: option.split list.split)

lemma split_on_append_last:
  "split_on d (a @ b) = butlast (split_on d a) @ split_on d (last (split_on d a) @ b)"
proof (induction a)
  case (Cons x a)
  obtain y ys where y: "split_on d a = y # ys" using split_on_not_Nil by (cases "split_on d a") auto
  show ?case
  proof (cases "x = d")
    case True
    then show ?thesis using Cons y by simp
  next
    case False
    have "split_on d ((x # a) @ b) = (case split_on d (a @ b) of [] \<Rightarrow> [[x]] | z # zs \<Rightarrow> (x # z) # zs)"
      using False by simp
    also have "\<dots> = butlast (split_on d (x # a)) @ split_on d (last (split_on d (x # a)) @ b)"
      using Cons y False by (cases ys) (auto split: list.split)
    finally show ?thesis .
  qed
qed simp

lemma split_on_last_no_sep: "d \<notin> set (last (split_on d s))"
  using split_on_not_in [of "last (split_on d s)" d s] by simp

text \<open>The inner loop answers the complete messages and leaves the rest.\<close>

lemma drain_answers:
  assumes "\<And>n. se_write env n = None"
  shows "case answers env ctx (butlast (split_on (CHR 0x00) (cn_buffer c))) (cn_host c) of
      None \<Rightarrow> fst (drain_messages env ctx c) = Daemon_Down
    | Some (rs, h) \<Rightarrow> drain_messages env ctx c = (Conn_Open, c\<lparr>cn_buffer := last (split_on (CHR 0x00) (cn_buffer c)),
        cn_sent := cn_sent c @ map (to_bytes (se_json env)) rs, cn_host := h\<rparr>)"
  using assms
proof (induction env ctx c rule: drain_messages.induct)
  case (1 env ctx c)
  show ?case
  proof (cases "split_once (CHR 0x00) (cn_buffer c)")
    case None
    then show ?thesis by (simp add: drain_messages.simps [of env ctx c] split_on_once [of _ "cn_buffer c"])
  next
    case (Some pr)
    then obtain payload rest where s: "split_once (CHR 0x00) (cn_buffer c) = Some (payload, rest)" by (cases pr) auto
    then have split: "split_on (CHR 0x00) (cn_buffer c) = payload # split_on (CHR 0x00) rest"
      by (simp add: split_on_once [of _ "cn_buffer c"])
    show ?thesis
    proof (cases "answer_message env ctx payload (cn_host c)")
      case None
      then show ?thesis by (simp add: drain_messages.simps [of env ctx c] s split)
    next
      case (Some rh)
      then obtain r h where r: "answer_message env ctx payload (cn_host c) = Some (r, h)" by (cases rh) auto
      let ?c = "c\<lparr>cn_buffer := rest, cn_host := h, cn_sent := cn_sent c @ [to_bytes (se_json env) r]\<rparr>"
      have sent: "send_reply env r (c\<lparr>cn_buffer := rest, cn_host := h\<rparr>) = Inr ?c"
        using "1.prems" by (simp add: send_reply_def)
      have "drain_messages env ctx c = drain_messages env ctx ?c"
        by (simp add: drain_messages.simps [of env ctx c] s r sent)
      with "1.IH" [OF s refl r refl sent "1.prems"] show ?thesis
        by (auto simp: split r split: option.splits prod.splits)
    qed
  qed
qed

text \<open>Every buffer the connection keeps is within the cap.\<close>

lemma drain_buffer: "drain_messages env ctx c = (e, c') \<Longrightarrow> length (cn_buffer c') \<le> length (cn_buffer c)"
proof (induction env ctx c rule: drain_messages.induct)
  case (1 env ctx c)
  show ?case
  proof (cases "split_once (CHR 0x00) (cn_buffer c)")
    case None
    then show ?thesis using "1.prems" by (simp add: drain_messages.simps [of env ctx c])
  next
    case (Some pr)
    then obtain payload rest where s: "split_once (CHR 0x00) (cn_buffer c) = Some (payload, rest)" by (cases pr) auto
    then have shorter: "length rest \<le> length (cn_buffer c)" by (auto simp: split_once_Some_iff)
    show ?thesis
    proof (cases "answer_message env ctx payload (cn_host c)")
      case None
      then show ?thesis using "1.prems" s shorter by (auto simp: drain_messages.simps [of env ctx c])
    next
      case (Some rh)
      then obtain r h where r: "answer_message env ctx payload (cn_host c) = Some (r, h)" by (cases rh) auto
      show ?thesis
      proof (cases "send_reply env r (c\<lparr>cn_buffer := rest, cn_host := h\<rparr>)")
        case (Inl x)
        then show ?thesis using "1.prems" s r shorter by (auto simp: drain_messages.simps [of env ctx c])
      next
        case (Inr c1)
        then have "cn_buffer c1 = rest" by (auto simp: send_reply_def split: option.splits)
        moreover have "drain_messages env ctx c1 = (e, c')"
          using "1.prems" s r Inr by (simp add: drain_messages.simps [of env ctx c])
        ultimately show ?thesis using "1.IH" [OF s refl r refl Inr] shorter by simp
      qed
    qed
  qed
qed

lemma split_on_head: "d \<notin> set b \<Longrightarrow> \<exists>p. hd (split_on d (b @ s)) = b @ p"
proof (induction b)
  case (Cons x b)
  then obtain p where "hd (split_on d (b @ s)) = b @ p" by auto
  with Cons.prems show ?case using split_on_not_Nil [of d "b @ s"]
    by (cases "split_on d (b @ s)") auto
qed simp

definition fits :: "bytes \<Rightarrow> bool" where
  "fits s = (\<forall>m \<in> set (split_on (CHR 0x00) s). length m + READ_CHUNK \<le> MAX_MSG_BYTES)"

lemma chunk_fits:
  assumes "CHR 0x00 \<notin> set b" and "fits (b @ s)"
  shows "length b + READ_CHUNK \<le> MAX_MSG_BYTES"
proof -
  obtain p where p: "hd (split_on (CHR 0x00) (b @ s)) = b @ p" using split_on_head [OF assms(1)] by blast
  then have "length (b @ p) + READ_CHUNK \<le> MAX_MSG_BYTES"
    using assms(2) split_on_not_Nil [of "CHR 0x00" "b @ s"] unfolding fits_def by (metis hd_in_set)
  then show ?thesis by simp
qed

lemma serve_chunks:
  assumes "\<And>n. se_write env n = None"
  shows "CHR 0x00 \<notin> set (cn_buffer c) \<Longrightarrow> fits (cn_buffer c @ concat bss) \<Longrightarrow>
    \<forall>bs \<in> set bss. bs \<noteq> [] \<and> length bs \<le> READ_CHUNK \<Longrightarrow>
    (case answers env ctx (butlast (split_on (CHR 0x00) (cn_buffer c @ concat bss))) (cn_host c) of
      None \<Rightarrow> fst (handle_varlink_client env ctx (map Readable bss) c) = Daemon_Down
    | Some (rs, h) \<Rightarrow> handle_varlink_client env ctx (map Readable bss) c =
        (Conn_Open, c\<lparr>cn_buffer := last (split_on (CHR 0x00) (cn_buffer c @ concat bss)),
           cn_sent := cn_sent c @ map (to_bytes (se_json env)) rs, cn_host := h\<rparr>))"
proof (induction bss arbitrary: c)
  case Nil
  then show ?case by (simp add: split_on_no_sep)
next
  case (Cons bs bss)
  let ?b = "cn_buffer c @ bs"
  let ?c1 = "c\<lparr>cn_buffer := ?b\<rparr>"
  have len: "length ?b \<le> MAX_MSG_BYTES"
    using chunk_fits [OF Cons.prems(1,2)] Cons.prems(3) by simp
  then have rec: "receive_bytes env ctx bs c = drain_messages env ctx ?c1" by (simp add: receive_bytes_def Let_def)
  have ne: "bs \<noteq> []" using Cons.prems(3) by simp
  have step: "handle_varlink_client env ctx (map Readable (bs # bss)) c =
      (case drain_messages env ctx ?c1 of
         (Conn_Open, c') \<Rightarrow> handle_varlink_client env ctx (map Readable bss) c' | (stop, c') \<Rightarrow> (stop, c'))"
    using ne rec by simp
  have cut: "split_on (CHR 0x00) (cn_buffer c @ concat (bs # bss)) =
      butlast (split_on (CHR 0x00) ?b) @ split_on (CHR 0x00) (last (split_on (CHR 0x00) ?b) @ concat bss)"
    using split_on_append_last [of "CHR 0x00" ?b "concat bss"] by simp
  note D = drain_answers [of env ctx ?c1, OF assms, simplified]
  show ?case
  proof (cases "answers env ctx (butlast (split_on (CHR 0x00) ?b)) (cn_host c)")
    case None
    with D have "fst (drain_messages env ctx ?c1) = Daemon_Down" by simp
    with None show ?thesis unfolding step cut
      by (cases "drain_messages env ctx ?c1") (simp add: butlast_append answers_append)
  next
    case (Some rh)
    then obtain rs h where a: "answers env ctx (butlast (split_on (CHR 0x00) ?b)) (cn_host c) = Some (rs, h)"
      by (cases rh) auto
    let ?c2 = "c\<lparr>cn_buffer := last (split_on (CHR 0x00) ?b),
      cn_sent := cn_sent c @ map (to_bytes (se_json env)) rs, cn_host := h\<rparr>"
    have d: "drain_messages env ctx ?c1 = (Conn_Open, ?c2)" using D a by simp
    have "fits (last (split_on (CHR 0x00) ?b) @ concat bss)" using Cons.prems(2) unfolding fits_def cut by auto
    then have "fits (cn_buffer ?c2 @ concat bss)" by simp
    moreover have "CHR 0x00 \<notin> set (cn_buffer ?c2)" using split_on_last_no_sep by simp
    moreover have "\<forall>bs \<in> set bss. bs \<noteq> [] \<and> length bs \<le> READ_CHUNK" using Cons.prems(3) by simp
    ultimately show ?thesis using Cons.IH [of ?c2] unfolding step cut d
      by (auto simp: butlast_append last_append answers_append a split: option.splits prod.splits)
  qed
qed

lemma receive_buffer:
  "receive_bytes env ctx bs c = (Conn_Open, c') \<Longrightarrow> length (cn_buffer c') \<le> MAX_MSG_BYTES"
  using drain_buffer [of env ctx "c\<lparr>cn_buffer := cn_buffer c @ bs\<rparr>"]
  by (force simp: receive_bytes_def Let_def split: if_splits)

lemma client_buffer:
  "handle_varlink_client env ctx es c = (Conn_Open, c') \<Longrightarrow> length (cn_buffer c) \<le> MAX_MSG_BYTES \<Longrightarrow>
   length (cn_buffer c') \<le> MAX_MSG_BYTES"
proof (induction env ctx es c rule: handle_varlink_client.induct)
  case (4 env ctx bs es c)
  then show ?case using receive_buffer by (fastforce split: if_splits prod.splits conn_end.splits)
qed (auto split: if_splits)

section \<open>A small server\<close>

text \<open>A call is its method name; every reply prints as one letter.\<close>

definition demo_env :: server_env where
  "demo_env = \<lparr>se_json = dumb_json,
     se_call = (\<lambda>b. Inr \<lparr>vc_method = b, vc_parameters = None, vc_more = None\<rparr>), se_stack = 8, se_write = (\<lambda>n. None)\<rparr>"

lemma demo_answer: "answer_message demo_env demo_context ''ab'' h =
    Some (reply_err ''org.varlink.service.MethodNotFound'' (Some (json_object [(''method'', J_str ''ab'')])), h)"
  by (simp add: answer_message_def demo_env_def dispatch_call_def handle_service_call_def handle_model1_call_def)

section \<open>Properties\<close>



text \<open>
  The cap.  Whatever a client sends, whatever its socket does and however the calls end, a
  connection that stays open never holds more than \<open>MAX_MSG_BYTES\<close> of the client's bytes.
\<close>

theorem server_buffer_bounded:
  assumes "handle_varlink_client env ctx es (new_connection h) = (Conn_Open, c)"
  shows "length (cn_buffer c) \<le> MAX_MSG_BYTES"
  using client_buffer [OF assms] by (simp add: new_connection_def)

theorem server_buffer_bounded_witness:
  "\<exists>c. handle_varlink_client demo_env demo_context [Readable ''xyz'', Shutdown_Change False] (new_connection demo_host) =
     (Conn_Open, c) \<and> length (cn_buffer c) \<le> MAX_MSG_BYTES"
proof -
  have "handle_varlink_client demo_env demo_context [Readable ''xyz'', Shutdown_Change False] (new_connection demo_host) =
      (Conn_Open, (new_connection demo_host)\<lparr>cn_buffer := ''xyz''\<rparr>)"
    by (simp add: receive_bytes_def Let_def new_connection_def MAX_MSG_BYTES_def drain_messages.simps [of _ _ "\<lparr>cn_buffer = _, cn_sent = _, cn_host = _\<rparr>"])
  with server_buffer_bounded [OF this] show ?thesis by blast
qed

text \<open>
  What the cap counts.  The cap is applied to the whole buffer before it is scanned for a NUL: a
  read that completes a message within the cap and brings the start of the next one closes the
  connection with an error, and the complete message is never answered.
\<close>

theorem server_drops_complete_message:
  assumes "length (cn_buffer c @ m) \<le> MAX_MSG_BYTES" and "MAX_MSG_BYTES < length (cn_buffer c @ m @ CHR 0x00 # m')"
    and "se_write env (length (cn_sent c)) = None"
  shows "handle_varlink_client env ctx (Readable (m @ CHR 0x00 # m') # es) c =
    (Conn_Closed, c\<lparr>cn_buffer := cn_buffer c @ m @ CHR 0x00 # m',
       cn_sent := cn_sent c @ [to_bytes (se_json env) too_long_reply]\<rparr>)"
  using assms by (simp add: receive_bytes_def Let_def send_reply_def)

theorem server_drops_complete_message_witness:
  "handle_varlink_client demo_env demo_context [Readable (''x'' @ CHR 0x00 # ''y'')]
     ((new_connection demo_host)\<lparr>cn_buffer := replicate (MAX_MSG_BYTES - 1) (CHR ''x'')\<rparr>) =
   (Conn_Closed, \<lparr>cn_buffer = replicate (MAX_MSG_BYTES - 1) (CHR ''x'') @ ''x'' @ CHR 0x00 # ''y'',
      cn_sent = [to_bytes (se_json demo_env) too_long_reply], cn_host = demo_host\<rparr>)"
proof -
  let ?c = "(new_connection demo_host)\<lparr>cn_buffer := replicate (MAX_MSG_BYTES - 1) (CHR ''x'')\<rparr>"
  have "length (cn_buffer ?c @ ''x'') \<le> MAX_MSG_BYTES" "MAX_MSG_BYTES < length (cn_buffer ?c @ ''x'' @ CHR 0x00 # ''y'')"
    "se_write demo_env (length (cn_sent ?c)) = None"
    by (simp_all add: MAX_MSG_BYTES_def demo_env_def)
  from server_drops_complete_message [OF this, of demo_context "[]"] show ?thesis
    by (simp add: new_connection_def)
qed

end
