(* ===== verification/Descriptors.thy ===== *)
theory Descriptors
  imports Model_Service
begin

text \<open>
  Sealed memory files and descriptor passing (\<^verbatim>\<open>descriptor/sealed_fd.rs\<close>, \<^verbatim>\<open>descriptor/fd_pass.rs\<close>), and
  the authorization of peers (\<^verbatim>\<open>auth.rs\<close>).  The system calls that \<^verbatim>\<open>rustix\<close> wraps are parameters: which
  of them the kernel refuses, and with what text.
\<close>

section \<open>Sealed memory files\<close>

datatype seal = Seal_Write | Seal_Shrink | Seal_Grow | Seal_Seal

record memfd =
  mf_name :: string
  mf_data :: bytes
  mf_seals :: "seal list"

text \<open>The error of each call on the memory file, if the kernel refuses it; writes by what is there already.\<close>

record memfd_sys =
  ms_create :: "string \<Rightarrow> string option"
  ms_write :: "nat \<Rightarrow> io_error option"
  ms_seal :: "string option"

definition COPY_CHUNK :: nat where "COPY_CHUNK = 1024 * 1024"

definition IMMUTABLE_SEALS :: "seal list" where
  "IMMUTABLE_SEALS = [Seal_Write, Seal_Shrink, Seal_Grow, Seal_Seal]"

definition memfd_create :: "memfd_sys \<Rightarrow> string \<Rightarrow> memfd res" where
  "memfd_create sys name =
     (case ms_create sys name of
        Some e \<Rightarrow> Err (Syscall (''memfd_create failed: '' @ e))
      | None \<Rightarrow> Ok \<lparr>mf_name = name, mf_data = [], mf_seals = []\<rparr>)"

definition memfd_write :: "memfd_sys \<Rightarrow> bytes \<Rightarrow> memfd \<Rightarrow> memfd res" where
  "memfd_write sys bs m =
     (case ms_write sys (length (mf_data m)) of
        Some e \<Rightarrow> Err (Io e) | None \<Rightarrow> Ok (m\<lparr>mf_data := mf_data m @ bs\<rparr>))"

definition add_seals :: "memfd_sys \<Rightarrow> memfd \<Rightarrow> memfd res" where
  "add_seals sys m =
     (case ms_seal sys of
        Some e \<Rightarrow> Err (Syscall (''fcntl_add_seals failed: '' @ e))
      | None \<Rightarrow> Ok (m\<lparr>mf_seals := IMMUTABLE_SEALS\<rparr>))"

definition create_sealed_memfd :: "memfd_sys \<Rightarrow> string \<Rightarrow> bytes \<Rightarrow> memfd res" where
  "create_sealed_memfd sys name data =
     (case memfd_create sys name of Inl e \<Rightarrow> Err e | Inr m \<Rightarrow>
       (case memfd_write sys data m of Inl e \<Rightarrow> Err e | Inr m1 \<Rightarrow> add_seals sys m1))"

fun copy_loop :: "memfd_sys \<Rightarrow> read_event list \<Rightarrow> memfd \<Rightarrow> memfd res" where
  "copy_loop sys [] m = Ok m"
| "copy_loop sys (Read_Error e # rs) m = Err (Io e)"
| "copy_loop sys (Chunk b # rs) m =
     (if b = [] then Ok m
      else (case memfd_write sys b m of Inl e \<Rightarrow> Err e | Inr m1 \<Rightarrow> copy_loop sys rs m1))"

definition create_sealed_memfd_from_file :: "memfd_sys \<Rightarrow> string \<Rightarrow> read_event list \<Rightarrow> memfd res" where
  "create_sealed_memfd_from_file sys name source =
     (case memfd_create sys name of Inl e \<Rightarrow> Err e | Inr m \<Rightarrow>
       (case copy_loop sys source m of Inl e \<Rightarrow> Err e | Inr m1 \<Rightarrow> add_seals sys m1))"

section \<open>Passing a descriptor\<close>

datatype 'fd ancillary = Scm_Rights "'fd list" | Scm_Other

text \<open>\<open>sk_push\<close>: whether the ancillary buffer for one descriptor takes the message.\<close>

record 'fd socket_sys =
  sk_push :: "'fd ancillary \<Rightarrow> bool"
  sk_sendmsg :: "bytes \<Rightarrow> 'fd ancillary list \<Rightarrow> string + nat"

definition send_fd_scm_rights :: "'fd socket_sys \<Rightarrow> 'fd \<Rightarrow> bytes \<Rightarrow> nat res" where
  "send_fd_scm_rights sock fd payload =
     (if \<not> sk_push sock (Scm_Rights [fd]) then Err (Syscall ''Failed to push FD to SCM_RIGHTS buffer'')
      else map_err (\<lambda>e. Syscall (''sendmsg SCM_RIGHTS failed: '' @ e)) (sk_sendmsg sock payload [Scm_Rights [fd]]))"

text \<open>The loop over the control messages: the first descriptor is kept, the others are closed.\<close>

fun first_fd :: "'fd ancillary list \<Rightarrow> 'fd option \<Rightarrow> 'fd option" where
  "first_fd [] acc = acc"
| "first_fd (Scm_Other # ms) acc = first_fd ms acc"
| "first_fd (Scm_Rights fds # ms) acc =
     first_fd ms (fold (\<lambda>fd r. if r = None then Some fd else r) fds acc)"

definition recv_fd_scm_rights :: "(string + nat \<times> 'fd ancillary list) \<Rightarrow> (nat \<times> 'fd option) res" where
  "recv_fd_scm_rights received =
     (case received of
        Inl e \<Rightarrow> Err (Syscall (''recvmsg SCM_RIGHTS failed: '' @ e))
      | Inr (n, ms) \<Rightarrow> Ok (n, first_fd ms None))"

section \<open>Authorization\<close>

text \<open>The scan of the group file, line by line.\<close>

fun scan_groups :: "string \<Rightarrow> string list \<Rightarrow> nat option" where
  "scan_groups wanted [] = None"
| "scan_groups wanted (line # lines) =
     (if line = [] \<or> starts_with line ''#'' then scan_groups wanted lines
      else (case split_on (CHR '':'') line of
              [] \<Rightarrow> scan_groups wanted lines
            | name # parts \<Rightarrow>
                if name \<noteq> wanted then scan_groups wanted lines
                else (case parts of
                        passwd # gid_str # members \<Rightarrow>
                          (case parse_uint 32 gid_str of
                             Some gid \<Rightarrow> Some gid | None \<Rightarrow> scan_groups wanted lines)
                      | _ \<Rightarrow> scan_groups wanted lines)))"

definition parse_group_file :: "host \<Rightarrow> path \<Rightarrow> string \<Rightarrow> nat option" where
  "parse_group_file h p wanted =
     (case read_to_string h p of Inl e \<Rightarrow> None | Inr text \<Rightarrow> scan_groups wanted (str_lines text))"

definition lookup_group_gid :: "host \<Rightarrow> string \<Rightarrow> nat option" where
  "lookup_group_gid h group_name = parse_group_file h [''etc'', ''group''] group_name"

record trusted_group_config =
  trusted_group :: string
  trusted_gid_override :: "nat option"

definition from_env_or_default :: "(string \<Rightarrow> string option) \<Rightarrow> trusted_group_config" where
  "from_env_or_default env =
     \<lparr>trusted_group = (case env ''MODELD_TRUSTED_GROUP'' of
        Some s \<Rightarrow> if s \<noteq> [] then s else ''modeld'' | None \<Rightarrow> ''modeld''),
      trusted_gid_override = None\<rparr>"

definition trusted_gid :: "host \<Rightarrow> trusted_group_config \<Rightarrow> nat option" where
  "trusted_gid h policy = or_else (trusted_gid_override policy) (lookup_group_gid h (trusted_group policy))"

definition check_peer :: "host \<Rightarrow> trusted_group_config \<Rightarrow> nat \<Rightarrow> nat \<Rightarrow> bool" where
  "check_peer h policy uid gid =
     (if uid = 0 then True
      else (case trusted_gid h policy of Some trusted \<Rightarrow> gid = trusted | None \<Rightarrow> False))"

definition is_authorized :: "host \<Rightarrow> trusted_group_config \<Rightarrow> nat \<times> nat \<Rightarrow> bool" where
  "is_authorized h policy peer = check_peer h policy (fst peer) (snd peer)"

section \<open>Lemmas\<close>

lemma copy_loop_data:
  "copy_loop sys rs m = Inr m' \<Longrightarrow> stream_error rs = None \<and> mf_data m' = mf_data m @ stream_bytes rs \<and>
     mf_name m' = mf_name m"
proof (induction rs arbitrary: m)
  case (Cons r rs)
  show ?case
  proof (cases r)
    case (Chunk b)
    with Cons show ?thesis
      by (cases "b = []") (fastforce simp: memfd_write_def split: sum.splits option.splits)+
  qed (use Cons in simp)
qed simp

lemma sealed_from_file:
  assumes "create_sealed_memfd_from_file sys name rs = Inr m"
  shows "stream_error rs = None \<and> mf_data m = stream_bytes rs \<and> mf_seals m = IMMUTABLE_SEALS \<and> mf_name m = name"
  using assms copy_loop_data
  by (fastforce simp: create_sealed_memfd_from_file_def memfd_create_def add_seals_def
      split: sum.splits option.splits)

lemma first_fd_Some: "first_fd ms (Some fd) = Some fd"
proof (induction ms)
  case (Cons m ms)
  have "fold (\<lambda>fd r. if r = None then Some fd else r) fds (Some fd) = Some fd" for fds
    by (induction fds) auto
  with Cons show ?case by (cases m) auto
qed simp

lemma scan_groups_skip:
  "\<forall>l \<in> set ls. hd (split_on (CHR '':'') l) \<noteq> wanted \<Longrightarrow> scan_groups wanted (ls @ ls') = scan_groups wanted ls'"
  by (induction ls) (auto split: list.split)

section \<open>Properties\<close>

text \<open>A group file with the given entries: name, password, number, members.\<close>

type_synonym group_row = "string \<times> string \<times> nat \<times> string"

definition group_line :: "group_row \<Rightarrow> string" where
  "group_line = (\<lambda>(name, passwd, gid, members). name @ '':'' @ passwd @ '':'' @ show_nat gid @ '':'' @ members)"

definition group_row_ok :: "group_row \<Rightarrow> bool" where
  "group_row_ok = (\<lambda>(name, passwd, gid, members).
     CHR '':'' \<notin> set name \<and> CHR '':'' \<notin> set passwd \<and> \<not> starts_with name ''#'' \<and> gid < 2 ^ 32 \<and>
     CHR 0x0A \<notin> set (name @ passwd @ members) \<and> CHR 0x0D \<notin> set members)"

definition group_text :: "group_row list \<Rightarrow> string" where
  "group_text rows = concat (map (\<lambda>r. group_line r @ [CHR 0x0A]) rows)"

definition group_ids :: "group_row list \<Rightarrow> string \<Rightarrow> nat option" where
  "group_ids rows = map_of (map (\<lambda>(name, passwd, gid, members). (name, gid)) rows)"

lemma split_on_sep: "d \<notin> set a \<Longrightarrow> split_on d (a @ d # b) = a # split_on d b"
  by (induction a) auto

lemma show_nat_no: "\<not> is_ascii_digit c \<Longrightarrow> c \<notin> set (show_nat n)"
  using show_nat_digits by blast

lemma not_digits: "\<not> is_ascii_digit (CHR '':'')" "\<not> is_ascii_digit (CHR 0x0A)" "\<not> is_ascii_digit (CHR 0x0D)"
  by (simp_all add: char_class_defs byte_val_def)

lemma group_line_fields:
  assumes "group_row_ok (name, passwd, gid, members)"
  shows "\<exists>ms. split_on (CHR '':'') (group_line (name, passwd, gid, members)) = name # passwd # show_nat gid # ms"
  using assms split_on_sep [of "CHR '':''" name] split_on_sep [of "CHR '':''" passwd]
    split_on_sep [OF show_nat_no [OF not_digits(1)], of gid]
  by (simp add: group_line_def group_row_ok_def)

lemma group_lines:
  assumes "\<forall>r \<in> set rows. group_row_ok r"
  shows "str_lines (group_text rows) = map group_line rows"
proof -
  have nl: "CHR 0x0A \<notin> set (group_line r)" and cr: "strip_cr (group_line r) = group_line r" if "group_row_ok r" for r
  proof -
    obtain n p g m where r: "r = (n, p, g, m)" by (cases r) auto
    show "CHR 0x0A \<notin> set (group_line r)"
      using that show_nat_no [OF not_digits(2)] by (auto simp: r group_line_def group_row_ok_def)
    have "last m \<noteq> CHR 0x0D" if "m \<noteq> []"
      using last_in_set [OF that] \<open>group_row_ok r\<close> by (auto simp: r group_row_ok_def)
    then have "last (group_line r) \<noteq> CHR 0x0D" by (simp add: r group_line_def)
    then have "group_line r \<noteq> x @ [CHR 0x0D]" for x by (metis last_snoc)
    then have "strip_suffix [CHR 0x0D] (group_line r) = None"
      using strip_suffix_Some_iff [of "[CHR 0x0D]" "group_line r"] by (cases "strip_suffix [CHR 0x0D] (group_line r)") auto
    then show "strip_cr (group_line r) = group_line r" by (simp add: strip_cr_def)
  qed
  have "split_on (CHR 0x0A) (group_text rows) = map group_line rows @ [[]]"
    using assms by (induction rows) (simp_all add: group_text_def split_on_sep nl)
  then show ?thesis using assms cr by (simp add: str_lines_def Let_def)
qed

lemma scan_group_rows:
  "\<forall>r \<in> set rows. group_row_ok r \<Longrightarrow> scan_groups wanted (map group_line rows) = group_ids rows wanted"
proof (induction rows)
  case (Cons r rows)
  obtain n p g m where r: "r = (n, p, g, m)" by (cases r) auto
  then have ok: "group_row_ok (n, p, g, m)" using Cons.prems by simp
  from group_line_fields [OF ok] obtain ms where f: "split_on (CHR '':'') (group_line r) = n # p # show_nat g # ms"
    by (auto simp: r)
  have "group_line r \<noteq> []" by (simp add: r group_line_def)
  moreover have "\<not> starts_with (group_line r) ''#''"
    using ok by (cases n) (auto simp: r group_line_def group_row_ok_def starts_with_iff)
  moreover have "parse_uint 32 (show_nat g) = Some g"
    using ok by (intro parse_show_nat) (simp add: group_row_ok_def)
  ultimately show ?case using Cons f by (auto simp: group_ids_def r)
qed (simp add: group_ids_def)

text \<open>
  C28. Who is let in.  With a well-formed group file and no override, a peer is authorized exactly if
  it is root or its group number is the one the file gives the configured group; without such an
  entry, or without a readable file, only root is.
\<close>

theorem peer_authorization:
  assumes "trusted_gid_override policy = None"
    and "read_to_string h [''etc'', ''group''] = Ok (group_text rows)" and "\<forall>r \<in> set rows. group_row_ok r"
  shows "is_authorized h policy (uid, gid) \<longleftrightarrow> uid = 0 \<or> group_ids rows (trusted_group policy) = Some gid"
  using assms
  by (auto simp: is_authorized_def check_peer_def trusted_gid_def or_else_def lookup_group_gid_def
      parse_group_file_def group_lines scan_group_rows split: option.splits)

definition group_host :: "group_row list \<Rightarrow> host" where
  "group_host rows = plain_host [([''etc''], Dir), ([''etc'', ''group''], File 0)]
     [(0, \<lparr>content = group_text rows, mtime = 0\<rparr>)]"

theorem peer_authorization_witness:
  "is_authorized (group_host [(''adm'', ''x'', 4, ''syslog''), (''modeld'', ''x'', 1234, [])])
     (from_env_or_default (\<lambda>v. None)) (1000, 1234)"
proof -
  let ?rows = "[(''adm'', ''x'', 4, ''syslog''), (''modeld'', ''x'', 1234, [])]"
  let ?policy = "from_env_or_default (\<lambda>v. None)"
  have "trusted_gid_override ?policy = None" by (simp add: from_env_or_default_def)
  moreover have "read_to_string (group_host ?rows) [''etc'', ''group''] = Ok (group_text ?rows)" by code_simp
  moreover have "\<forall>r \<in> set ?rows. group_row_ok r" by code_simp
  ultimately show ?thesis
    by (simp only: peer_authorization) (simp add: group_ids_def from_env_or_default_def)
qed

end
