(* ===== verification/Fd_Handoff.thy ===== *)
theory Fd_Handoff
  imports Descriptors Varlink_Server
begin

text \<open>
  The descriptor handoff server (\<^verbatim>\<open>fd_server.rs\<close>): one connection asks for one model and is handed a
  sealed memory file with its bytes.  The environment of a connection holds what the kernel says of
  the peer, the outcome of the one write of a reply, the calls on the memory file, how reads cut the
  blob, and the socket call that passes the descriptor.
\<close>

record fd_env =
  fe_json :: json_lib
  fe_peer :: "string + nat \<times> nat"
  fe_write :: "io_error option"
  fe_memfd :: memfd_sys
  fe_chunks :: "bytes \<Rightarrow> bytes list"
  fe_sock :: "memfd socket_sys"

text \<open>The errors of a request, and how a connection stands after a list of events.\<close>

datatype request_error = Re_Text string | Re_Io io_error | Re_Json string | Re_Model modeld_error

datatype fd_end = Fd_Waiting | Fd_Done | Fd_Failed request_error | Fd_Panicked

record fd_outcome =
  fo_end :: fd_end
  fo_replies :: "bytes list"
  fo_handed :: "(memfd \<times> bytes) option"

section \<open>Reading the request\<close>

definition FD_REQUEST_CAP :: nat where "FD_REQUEST_CAP = 64 * 1024"

definition FD_READ_CHUNK :: nat where "FD_READ_CHUNK = 4096"

text \<open>\<open>None\<close>: the function still waits for its next read.\<close>

fun read_framed_request :: "json_lib \<Rightarrow> read_event list \<Rightarrow> bytes \<Rightarrow> (request_error + json option) option" where
  "read_framed_request J [] scratch = None"
| "read_framed_request J (Read_Error e # rs) scratch = Some (Err (Re_Io e))"
| "read_framed_request J (Chunk bs # rs) scratch =
     (if bs = [] then Some (Ok None)
      else (case split_once (CHR 0x00) (scratch @ bs) of
              Some (payload, rest) \<Rightarrow>
                (case jl_parse J payload of Inl e \<Rightarrow> Some (Err (Re_Json e)) | Inr v \<Rightarrow> Some (Ok (Some v)))
            | None \<Rightarrow>
                if FD_REQUEST_CAP < length (scratch @ bs)
                then Some (Err (Re_Text ''FD handoff request exceeded 64 KiB without NUL terminator''))
                else read_framed_request J rs (scratch @ bs)))"

text \<open>
  The \<open>select!\<close> between the reads and the first change of the shutdown flag, which ends the request
  whatever the flag then says.
\<close>

fun reads_of :: "conn_event list \<Rightarrow> read_event list" where
  "reads_of (Readable bs # es) = Chunk bs # reads_of es"
| "reads_of (Read_Failed e # es) = Read_Error e # reads_of es"
| "reads_of _ = []"

fun interrupted :: "conn_event list \<Rightarrow> bool" where
  "interrupted [] = False"
| "interrupted (Shutdown_Change b # es) = True"
| "interrupted (e # es) = interrupted es"

definition await_request :: "json_lib \<Rightarrow> conn_event list \<Rightarrow> (request_error + json option) option" where
  "await_request J es =
     (case read_framed_request J (reads_of es) [] of
        Some r \<Rightarrow> Some r
      | None \<Rightarrow> if interrupted es then Some (Ok None) else None)"

section \<open>Handing over a model\<close>

definition blob_reads :: "fd_env \<Rightarrow> host \<Rightarrow> path \<times> node \<Rightarrow> read_event list" where
  "blob_reads env h f = (case read_node h (fst f) (snd f) of
     Inl e \<Rightarrow> [Read_Error e] | Inr bs \<Rightarrow> map Chunk (fe_chunks env bs))"

text \<open>The slice \<open>&digest[..16]\<close>, which panics outside the text and inside a character.\<close>

definition digest_prefix :: "string \<Rightarrow> string option" where
  "digest_prefix d =
     (if 16 \<le> length d \<and> (length d = 16 \<or> \<not> in_range 128 191 (d ! 16)) then Some (take 16 d) else None)"

definition fd_payload :: "json_lib \<Rightarrow> string \<Rightarrow> string \<Rightarrow> nat \<Rightarrow> bytes" where
  "fd_payload J ident digest sz = jl_show J (json_object
     [(''status'', J_str ''ok''), (''id'', J_str ident), (''digest'', J_str digest),
      (''size_bytes'', jnat sz), (''sealed'', J_bool True)])"

definition denied_reply :: "json_lib \<Rightarrow> trusted_group_config \<Rightarrow> bytes" where
  "denied_reply J policy = jl_show J (json_object
     [(''error'', J_str ''io.syntrop.Model1.PermissionDenied''), (''trust_group'', J_str (trusted_group policy))])"

definition not_found_reply :: "json_lib \<Rightarrow> string \<Rightarrow> bytes" where
  "not_found_reply J ident =
     jl_show J (json_object [(''error'', J_str ''Model not found''), (''id'', J_str ident)])"

definition fd_stop :: "fd_end \<Rightarrow> fd_outcome" where
  "fd_stop e = \<lparr>fo_end = e, fo_replies = [], fo_handed = None\<rparr>"

text \<open>From the digest on: size, blob, memory file, and the message that carries it.\<close>

definition hand_over :: "fd_env \<Rightarrow> cas_store \<Rightarrow> host \<Rightarrow> string \<Rightarrow> string \<Rightarrow> fd_outcome" where
  "hand_over env S h ident digest =
     (case blob_size S h digest of Inl e \<Rightarrow> fd_stop (Fd_Failed (Re_Model e)) | Inr sz \<Rightarrow>
      (case open_blob S h digest of Inl e \<Rightarrow> fd_stop (Fd_Failed (Re_Model e)) | Inr f \<Rightarrow>
       (case digest_prefix digest of None \<Rightarrow> fd_stop Fd_Panicked | Some short \<Rightarrow>
        (case create_sealed_memfd_from_file (fe_memfd env) (''modeld-'' @ short) (blob_reads env h f) of
           Inl e \<Rightarrow> fd_stop (Fd_Failed (Re_Model e))
         | Inr sealed \<Rightarrow>
             (let payload = fd_payload (fe_json env) ident digest sz in
              case send_fd_scm_rights (fe_sock env) sealed payload of
                Inl e \<Rightarrow> fd_stop (Fd_Failed (Re_Model e))
              | Inr n \<Rightarrow> \<lparr>fo_end = Fd_Done, fo_replies = [], fo_handed = Some (sealed, payload)\<rparr>)))))"

definition serve_request :: "fd_env \<Rightarrow> cas_store \<Rightarrow> tag_registry \<Rightarrow> host \<Rightarrow> json \<Rightarrow> fd_outcome" where
  "serve_request env S tags h request =
     (let ident = opt_or (get_str request ''id'') [] in
      case resolve tags h ident of
        Inl e \<Rightarrow> fd_stop (Fd_Failed (Re_Model e))
      | Inr None \<Rightarrow>
          (case fe_write env of
             Some e \<Rightarrow> fd_stop (Fd_Failed (Re_Io e))
           | None \<Rightarrow> \<lparr>fo_end = Fd_Done, fo_replies = [not_found_reply (fe_json env) ident], fo_handed = None\<rparr>)
      | Inr (Some digest) \<Rightarrow> hand_over env S h ident digest)"

definition handle_fd_request ::
    "fd_env \<Rightarrow> cas_store \<Rightarrow> tag_registry \<Rightarrow> trusted_group_config \<Rightarrow> host \<Rightarrow> conn_event list \<Rightarrow> fd_outcome" where
  "handle_fd_request env S tags policy h es =
     (case fe_peer env of
        Inl e \<Rightarrow> fd_stop (Fd_Failed (Re_Text (''SO_PEERCRED read failed: '' @ e)))
      | Inr peer \<Rightarrow>
          if \<not> is_authorized h policy peer then
            \<lparr>fo_end = Fd_Done,
             fo_replies = (if fe_write env = None then [denied_reply (fe_json env) policy] else []),
             fo_handed = None\<rparr>
          else
            (case await_request (fe_json env) es of
               None \<Rightarrow> fd_stop Fd_Waiting
             | Some (Inl e) \<Rightarrow> fd_stop (Fd_Failed e)
             | Some (Inr None) \<Rightarrow> fd_stop Fd_Done
             | Some (Inr (Some request)) \<Rightarrow> serve_request env S tags h request))"

section \<open>Lemmas\<close>

lemma reads_of_append:
  "\<not> interrupted es \<Longrightarrow> reads_of (es @ es') = reads_of es @ reads_of es'"
  by (induction es rule: reads_of.induct) auto

lemma reads_of_interrupted: "interrupted es \<Longrightarrow> reads_of (es @ es') = reads_of es \<and> interrupted (es @ es')"
  by (induction es rule: reads_of.induct) auto

lemma read_request_append:
  "read_framed_request J rs scratch = Some r \<Longrightarrow> read_framed_request J (rs @ rs') scratch = Some r"
  by (induction J rs scratch rule: read_framed_request.induct) (auto split: option.splits if_splits)

lemma await_request_append:
  assumes "await_request J es = Some r"
  shows "await_request J (es @ es') = Some r"
proof (cases "interrupted es")
  case True
  then show ?thesis using assms reads_of_interrupted [OF True, of es']
    by (simp add: await_request_def split: option.splits)
next
  case False
  then have "read_framed_request J (reads_of es) [] = Some r"
    using assms by (simp add: await_request_def split: option.splits)
  then show ?thesis by (simp add: await_request_def reads_of_append [OF False] read_request_append)
qed

text \<open>A request that arrives in pieces within the cap.\<close>

lemma read_request_pieces:
  "\<forall>bs \<in> set bss. bs \<noteq> [] \<Longrightarrow> concat bss = m @ CHR 0x00 # more' \<Longrightarrow> CHR 0x00 \<notin> set (scratch @ m) \<Longrightarrow>
   length (scratch @ m) \<le> FD_REQUEST_CAP \<Longrightarrow>
   read_framed_request J (map Chunk bss) scratch =
     Some (case jl_parse J (scratch @ m) of Inl e \<Rightarrow> Err (Re_Json e) | Inr v \<Rightarrow> Ok (Some v))"
proof (induction bss arbitrary: m scratch)
  case (Cons bs bss)
  have ne: "bs \<noteq> []" using Cons.prems(1) by simp
  show ?case
  proof (cases "CHR 0x00 \<in> set bs")
    case True
    then obtain a b where b: "bs = a @ CHR 0x00 # b" "CHR 0x00 \<notin> set a" by (metis split_list_first)
    have "split_once (CHR 0x00) (concat (bs # bss)) = Some (a, b @ concat bss)"
      "split_once (CHR 0x00) (concat (bs # bss)) = Some (m, more')"
      unfolding split_once_Some_iff using b by simp (use Cons.prems(2,3) in simp)
    then have "m = a" by simp
    moreover have "split_once (CHR 0x00) (scratch @ bs) = Some (scratch @ a, b)"
      using b Cons.prems(3) by (simp add: split_once_Some_iff)
    ultimately show ?thesis using ne by (simp split: sum.split)
  next
    case False
    have "bs @ concat bss = m @ CHR 0x00 # more'" using Cons.prems(2) by simp
    then obtain us where "bs = m @ us \<and> us @ concat bss = CHR 0x00 # more' \<or>
        bs @ us = m \<and> concat bss = us @ CHR 0x00 # more'"
      unfolding append_eq_append_conv2 by blast
    with False obtain m' where m: "m = bs @ m'" "concat bss = m' @ CHR 0x00 # more'"
      by (cases us) auto
    have "CHR 0x00 \<notin> set (scratch @ bs)" using m(1) Cons.prems(3) by simp
    then have "split_once (CHR 0x00) (scratch @ bs) = None"
      by (simp add: split_once_None_iff)
    moreover have "\<not> FD_REQUEST_CAP < length (scratch @ bs)" using m(1) Cons.prems(4) by simp
    ultimately show ?thesis
      using Cons.IH [OF _ m(2), of "scratch @ bs"] Cons.prems(1,3,4) m(1) ne by simp
  qed
qed simp

lemma send_fd_Ok: "send_fd_scm_rights sock fd p = Inr n \<Longrightarrow> sk_sendmsg sock p [Scm_Rights [fd]] = Inr n"
  by (simp add: send_fd_scm_rights_def split: if_splits)

lemma hand_over_handed:
  assumes "fo_handed (hand_over env S h ident d) = Some (m, p)"
  shows "\<exists>sz f short. blob_size S h d = Ok sz \<and> open_blob S h d = Ok f \<and> digest_prefix d = Some short \<and>
    create_sealed_memfd_from_file (fe_memfd env) (''modeld-'' @ short) (blob_reads env h f) = Ok m \<and>
    p = fd_payload (fe_json env) ident d sz \<and> (\<exists>n. sk_sendmsg (fe_sock env) p [Scm_Rights [m]] = Inr n)"
  using assms send_fd_Ok
  by (fastforce simp: hand_over_def fd_stop_def Let_def split: sum.splits option.splits)

lemma serve_request_handed:
  assumes "fo_handed (serve_request env S tags h request) = Some (m, p)"
  shows "\<exists>d. resolve tags h (opt_or (get_str request ''id'') []) = Ok (Some d) \<and>
    fo_handed (hand_over env S h (opt_or (get_str request ''id'') []) d) = Some (m, p)"
  using assms by (auto simp: serve_request_def fd_stop_def Let_def split: sum.splits option.splits)

lemma handle_fd_handed:
  assumes "fo_handed (handle_fd_request env S tags policy h es) = Some (m, p)"
  shows "\<exists>peer request. fe_peer env = Inr peer \<and> is_authorized h policy peer \<and>
    await_request (fe_json env) es = Some (Ok (Some request)) \<and>
    fo_handed (serve_request env S tags h request) = Some (m, p)"
  using assms
  by (auto simp: handle_fd_request_def fd_stop_def split: sum.splits option.splits if_splits)

text \<open>The bytes an open blob delivers.\<close>

lemma blob_reads_bytes:
  assumes "stream_error (blob_reads env h f) = None" and "\<And>bs. concat (fe_chunks env bs) = bs"
    and "\<And>bs. [] \<notin> set (fe_chunks env bs)"
  shows "read_node h (fst f) (snd f) = Ok (stream_bytes (blob_reads env h f))"
proof -
  have "stream_bytes (map Chunk bss) = concat bss" if "[] \<notin> set bss" for bss
    using that by (induction bss) auto
  then show ?thesis using assms by (auto simp: blob_reads_def split: sum.splits)
qed

text \<open>How many replies and descriptors an outcome holds.\<close>

definition deliveries :: "fd_outcome \<Rightarrow> nat" where
  "deliveries r = length (fo_replies r) + (if fo_handed r = None then 0 else 1)"

lemma deliveries_stop [simp]: "deliveries (fd_stop e) = 0"
  by (simp add: deliveries_def fd_stop_def)

lemma hand_over_deliveries: "deliveries (hand_over env S h ident d) \<le> 1"
  by (auto simp: hand_over_def Let_def split: sum.split option.split) (simp add: deliveries_def)

lemma serve_request_deliveries: "deliveries (serve_request env S tags h r) \<le> 1"
  using hand_over_deliveries
  by (auto simp: serve_request_def Let_def split: sum.split option.split) (simp add: deliveries_def)

lemma open_blob_file:
  assumes "open_blob S h d = Ok f"
  shows "\<exists>i. f = (blob_path S h d, File i) \<and> stat h (blob_path S h d) = Some (File i) \<and>
    open_file h (blob_path S h d) = Ok (File i)"
  using assms
  by (auto simp: open_blob_def Let_def is_file_def open_file_def split: if_splits sum.splits option.splits node.splits)

lemma handed_sound:
  assumes "cas_sound H S h" and "\<And>d p. is_digest_format d \<Longrightarrow> p \<in> blob_paths S d \<Longrightarrow> plain h p"
    and "\<And>bs. concat (fe_chunks env bs) = bs" and "\<And>bs. [] \<notin> set (fe_chunks env bs)"
    and "fo_handed (handle_fd_request env S tags policy h es) = Some (m, payload)"
  shows "\<exists>peer request d sz. fe_peer env = Inr peer \<and> is_authorized h policy peer \<and>
    await_request (fe_json env) es = Some (Ok (Some request)) \<and>
    resolve tags h (opt_or (get_str request ''id'') []) = Ok (Some d) \<and>
    payload = fd_payload (fe_json env) (opt_or (get_str request ''id'') []) d sz \<and>
    read_file h (blob_path S h d) = Ok (mf_data m) \<and> set (mf_seals m) = {Seal_Write, Seal_Shrink, Seal_Grow, Seal_Seal} \<and>
    sz = length (mf_data m) mod 2 ^ 64 \<and> (is_digest_format d \<longrightarrow> hex_digest H (mf_data m) = d)"
proof -
  from handle_fd_handed [OF assms(5)] obtain peer request where peer: "fe_peer env = Inr peer" "is_authorized h policy peer"
    and req: "await_request (fe_json env) es = Some (Ok (Some request))"
    and serve: "fo_handed (serve_request env S tags h request) = Some (m, payload)" by blast
  from serve_request_handed [OF serve] obtain d
    where res: "resolve tags h (opt_or (get_str request ''id'') []) = Ok (Some d)"
      and hand: "fo_handed (hand_over env S h (opt_or (get_str request ''id'') []) d) = Some (m, payload)" by blast
  from hand_over_handed [OF hand] obtain sz f short
    where sz: "blob_size S h d = Ok sz" and op: "open_blob S h d = Ok f"
      and memfd: "create_sealed_memfd_from_file (fe_memfd env) (''modeld-'' @ short) (blob_reads env h f) = Ok m"
      and pay: "payload = fd_payload (fe_json env) (opt_or (get_str request ''id'') []) d sz" by blast
  from open_blob_file [OF op] obtain i where i: "f = (blob_path S h d, File i)"
    "stat h (blob_path S h d) = Some (File i)" "open_file h (blob_path S h d) = Ok (File i)" by blast
  note M = sealed_from_file [OF memfd]
  have data: "read_node h (blob_path S h d) (File i) = Ok (mf_data m)"
    using blob_reads_bytes [OF _ assms(3,4), of h f] M i(1) by simp
  then have cont: "content (inode h i) = mf_data m" by (simp add: read_node_def split: option.splits)
  have "sz = length (mf_data m) mod 2 ^ 64"
    using sz i(2) cont
    by (simp add: blob_size_def fs_metadata_def node_metadata_def file_size_def split: option.splits)
  moreover have "hex_digest H (mf_data m) = d" if d: "is_digest_format d"
  proof -
    have "plain h (blob_path S h d)" using assms(2) [OF d blob_path_in] .
    then have "lookup h (blob_path S h d) = Some (File i)" using i(2) by (simp add: stat_plain)
    from cas_soundD [OF assms(1) d blob_path_in this] show ?thesis by (simp add: cont)
  qed
  moreover have "read_file h (blob_path S h d) = Ok (mf_data m)" using i(3) data by (simp add: read_file_def)
  ultimately show ?thesis using peer req res pay M by (auto simp: IMMUTABLE_SEALS_def)
qed

section \<open>A small handoff\<close>

definition handoff_host :: host where
  "handoff_host = plain_host (([''t''], Dir) # ([''m'', ''cas'', ''blobs'', ''sha256'', hex_digest demo_hasher ''abc''], File 0) # demo_dirs)
     [(0, \<lparr>content = ''abc'', mtime = 0\<rparr>)]"

definition handoff_env :: "nat \<times> nat \<Rightarrow> fd_env" where
  "handoff_env peer = \<lparr>fe_json = \<lparr>jl_parse = (\<lambda>b. Inr (J_obj [(''id'', J_str b)])), jl_show = (\<lambda>v. ''r'')\<rparr>,
     fe_peer = Inr peer, fe_write = None,
     fe_memfd = \<lparr>ms_create = (\<lambda>n. None), ms_write = (\<lambda>n. None), ms_seal = None\<rparr>,
     fe_chunks = (\<lambda>bs. if bs = [] then [] else [bs]),
     fe_sock = \<lparr>sk_push = (\<lambda>a. True), sk_sendmsg = (\<lambda>p a. Inr (length p))\<rparr>\<rparr>"

definition handoff_policy :: trusted_group_config where
  "handoff_policy = \<lparr>trusted_group = ''modeld'', trusted_gid_override = Some 7\<rparr>"

definition handoff_events :: "conn_event list" where
  "handoff_events = [Readable (hex_digest demo_hasher ''abc'' @ [CHR 0x00])]"

lemma handoff_plain: "plain handoff_host p"
  by (auto simp: plain_def lookup_def handoff_host_def plain_host_def demo_dirs_def split: if_splits)

lemma handoff_sound: "cas_sound demo_hasher demo_store handoff_host"
  unfolding cas_sound_def
proof (intro allI impI)
  fix d p j
  assume d: "is_digest_format d" and p: "p \<in> blob_paths demo_store d" "lookup handoff_host p = Some (File j)"
  then have "p = [''m'', ''cas'', ''blobs'', ''sha256'', hex_digest demo_hasher ''abc''] \<and> j = 0"
    by (auto simp: lookup_def handoff_host_def plain_host_def demo_dirs_def split: if_splits)
  with d p show "hex_digest demo_hasher (content (inode handoff_host j)) = d"
    by (auto simp: blob_paths_eq demo_store_def handoff_host_def plain_host_def inode_def)
qed

section \<open>Properties\<close>

text \<open>
  C15. What is handed over.  On a sound store, whenever a connection hands over a memory file, the
  peer was authorized, the file holds the bytes of the blob the requested identifier resolves to,
  under all four seals, and when that is a digest these bytes hash to it and the reply gives their
  number.
\<close>

theorem fd_handoff_sound:
  assumes "cas_sound H S h" and "\<And>d p. is_digest_format d \<Longrightarrow> p \<in> blob_paths S d \<Longrightarrow> plain h p"
    and "\<And>bs. concat (fe_chunks env bs) = bs" and "\<And>bs. [] \<notin> set (fe_chunks env bs)"
    and "fo_handed (handle_fd_request env S tags policy h es) = Some (m, payload)"
  shows "\<exists>peer request d sz. fe_peer env = Inr peer \<and> is_authorized h policy peer \<and>
    await_request (fe_json env) es = Some (Ok (Some request)) \<and>
    resolve tags h (opt_or (get_str request ''id'') []) = Ok (Some d) \<and>
    payload = fd_payload (fe_json env) (opt_or (get_str request ''id'') []) d sz \<and>
    read_file h (blob_path S h d) = Ok (mf_data m) \<and> set (mf_seals m) = {Seal_Write, Seal_Shrink, Seal_Grow, Seal_Seal} \<and>
    sz = length (mf_data m) mod 2 ^ 64 \<and> (is_digest_format d \<longrightarrow> hex_digest H (mf_data m) = d)"
  by (rule handed_sound [OF assms])

theorem fd_handoff_sound_witness:
  "\<exists>m payload. fo_handed (handle_fd_request (handoff_env (1000, 7)) demo_store demo_registry handoff_policy handoff_host
     handoff_events) = Some (m, payload) \<and> set (mf_seals m) = {Seal_Write, Seal_Shrink, Seal_Grow, Seal_Seal}"
proof -
  have "map_option fst (fo_handed (handle_fd_request (handoff_env (1000, 7)) demo_store demo_registry handoff_policy
      handoff_host handoff_events)) = Some \<lparr>mf_name = ''modeld-'' @ take 16 (hex_digest demo_hasher ''abc''),
        mf_data = ''abc'', mf_seals = IMMUTABLE_SEALS\<rparr>" by code_simp
  then obtain m payload where h: "fo_handed (handle_fd_request (handoff_env (1000, 7)) demo_store demo_registry
      handoff_policy handoff_host handoff_events) = Some (m, payload)" by auto
  have "concat (fe_chunks (handoff_env (1000, 7)) bs) = bs" "[] \<notin> set (fe_chunks (handoff_env (1000, 7)) bs)" for bs
    by (auto simp: handoff_env_def)
  from fd_handoff_sound [OF handoff_sound handoff_plain this h] h show ?thesis by blast
qed

text \<open>
  Outsiders.  A peer that is neither root nor of the trusted group gets the permission error and
  nothing else, whatever it sends and whatever the store holds: no request is read and no descriptor
  is made.
\<close>

theorem fd_outsider_refused:
  assumes "fe_peer env = Inr (uid, gid)" and "uid \<noteq> 0" and "trusted_gid h policy \<noteq> Some gid"
  shows "handle_fd_request env S tags policy h es =
    \<lparr>fo_end = Fd_Done, fo_replies = (if fe_write env = None then [denied_reply (fe_json env) policy] else []),
     fo_handed = None\<rparr>"
  using assms by (auto simp: handle_fd_request_def is_authorized_def check_peer_def split: option.splits)

theorem fd_outsider_refused_witness:
  "fo_replies (handle_fd_request (handoff_env (1000, 8)) demo_store demo_registry handoff_policy handoff_host
     handoff_events) = [denied_reply (fe_json (handoff_env (1000, 8))) handoff_policy]"
proof -
  have p: "fe_peer (handoff_env (1000, 8)) = Inr (1000, 8)" by (simp add: handoff_env_def)
  have t: "trusted_gid handoff_host handoff_policy \<noteq> Some 8" by (simp add: trusted_gid_def handoff_policy_def)
  show ?thesis using fd_outsider_refused [OF p _ t] by (simp add: handoff_env_def)
qed

text \<open>
  One request.  A connection gives at most one reply or descriptor, and once it stopped waiting
  nothing the client sends makes a difference: a second request on the same connection is never read.
\<close>

theorem fd_one_request:
  assumes "fo_end (handle_fd_request env S tags policy h es) \<noteq> Fd_Waiting"
  shows "handle_fd_request env S tags policy h (es @ es') = handle_fd_request env S tags policy h es \<and>
    deliveries (handle_fd_request env S tags policy h es) \<le> 1"
proof -
  have "handle_fd_request env S tags policy h (es @ es') = handle_fd_request env S tags policy h es"
    using assms await_request_append [of "fe_json env" es _ es']
    by (cases "await_request (fe_json env) es") (auto simp: handle_fd_request_def fd_stop_def split: sum.splits)
  moreover have "deliveries (handle_fd_request env S tags policy h es) \<le> 1"
    using serve_request_deliveries
    by (auto simp: handle_fd_request_def split: sum.split option.split) (simp_all add: deliveries_def)
  ultimately show ?thesis by blast
qed

theorem fd_one_request_witness:
  "handle_fd_request (handoff_env (0, 0)) demo_store demo_registry handoff_policy handoff_host (handoff_events @ handoff_events) =
   handle_fd_request (handoff_env (0, 0)) demo_store demo_registry handoff_policy handoff_host handoff_events"
proof -
  have "fo_end (handle_fd_request (handoff_env (0, 0)) demo_store demo_registry handoff_policy handoff_host handoff_events)
      = Fd_Done" by code_simp
  then show ?thesis using fd_one_request [of "handoff_env (0, 0)"] by simp
qed

end
