(* ===== verification/Daemon_Env.thy ===== *)
theory Daemon_Env
  imports Prelude Host_FS
begin

text \<open>
  What the daemon gets from its service manager: the sockets it adopts or binds (\<^verbatim>\<open>activation.rs\<close>), and
  the notifications and watchdog pings it sends (\<^verbatim>\<open>notify.rs\<close>).  The environment is a map from names to
  values; adopting a descriptor, binding, changing a mode and sending a datagram are kernel calls and
  parameters.
\<close>

type_synonym environment = "string \<Rightarrow> string option"

section \<open>Socket activation\<close>

definition SD_LISTEN_FDS_START :: nat where "SD_LISTEN_FDS_START = 3"

definition SOCKET_MODE :: nat where "SOCKET_MODE = 6 * 8 ^ 2 + 6 * 8"

record 'l activated_sockets =
  varlink_listener :: "'l option"
  fd_handoff_listener :: "'l option"

text \<open>\<open>adopt\<close>: the listener made of an inherited descriptor, if it can be registered.\<close>

definition parse_listen_fds :: "environment \<Rightarrow> nat \<Rightarrow> (nat \<Rightarrow> 'l option) \<Rightarrow> 'l activated_sockets" where
  "parse_listen_fds env my_pid adopt =
     (let pid_matches = (case env ''LISTEN_PID'' of
            Some pid_str \<Rightarrow> (case parse_uint 32 pid_str of Some p \<Rightarrow> p = my_pid | None \<Rightarrow> False)
          | None \<Rightarrow> False)
      in if \<not> pid_matches then \<lparr>varlink_listener = None, fd_handoff_listener = None\<rparr>
         else
           (let count = (case Option.bind (env ''LISTEN_FDS'') (parse_uint 64) of Some n \<Rightarrow> n | None \<Rightarrow> 0)
            in \<lparr>varlink_listener = (if 1 \<le> count then adopt SD_LISTEN_FDS_START else None),
                fd_handoff_listener = (if 2 \<le> count then adopt (SD_LISTEN_FDS_START + 1) else None)\<rparr>))"

record 'l bind_sys =
  bs_bind :: "path \<Rightarrow> 'l io"
  bs_chmod :: "path \<Rightarrow> nat \<Rightarrow> unit io"

definition bind_standalone :: "'l bind_sys \<Rightarrow> path \<Rightarrow> 'l io" where
  "bind_standalone sys p h =
     (case create_dir_all (butlast p) h of
        (Inl e, h1) \<Rightarrow> (Err e, h1)
      | (Inr u, h1) \<Rightarrow>
          (case bs_bind sys p h1 of
             (Inl e, h2) \<Rightarrow> (Err e, h2)
           | (Inr listener, h2) \<Rightarrow>
               (case bs_chmod sys p SOCKET_MODE h2 of
                  (Inl e, h3) \<Rightarrow> (Err e, snd (remove_file p h3))
                | (Inr u, h3) \<Rightarrow> (Ok listener, h3))))"

section \<open>Notifications\<close>

definition NOTIFY_MAX :: nat where "NOTIFY_MAX = 8 * 1024 * 1024"
definition DEFAULT_WATCHDOG_PERIOD_SECS :: nat where "DEFAULT_WATCHDOG_PERIOD_SECS = 10"
definition MIN_WATCHDOG_PERIOD_SECS :: nat where "MIN_WATCHDOG_PERIOD_SECS = 1"
definition MAX_WATCHDOG_PERIOD_SECS :: nat where "MAX_WATCHDOG_PERIOD_SECS = 300"

datatype notify_addr = Abstract_Name string | Pathname string

text \<open>\<open>ns_addr\<close>: whether the address fits; \<open>ns_unbound\<close>: whether a datagram socket is to be had.\<close>

record notify_sys =
  ns_addr :: "notify_addr \<Rightarrow> bool"
  ns_unbound :: bool
  ns_send :: "notify_addr \<Rightarrow> string \<Rightarrow> bool"

definition notify_address :: "notify_sys \<Rightarrow> string \<Rightarrow> notify_addr option" where
  "notify_address sys socket_path =
     (case strip_prefix ''@'' socket_path of
        Some name \<Rightarrow>
          if name = [] \<or> CHR 0x00 \<in> set name then None
          else if ns_addr sys (Abstract_Name name) then Some (Abstract_Name name) else None
      | None \<Rightarrow>
          if socket_path = [] then None
          else if ns_addr sys (Pathname socket_path) then Some (Pathname socket_path) else None)"

text \<open>The datagram that leaves, with its address, and the value the function returns.\<close>

definition send_notify :: "notify_sys \<Rightarrow> environment \<Rightarrow> string \<Rightarrow> (notify_addr \<times> string) option \<times> bool" where
  "send_notify sys env state =
     (if NOTIFY_MAX < length state then (None, False)
      else (case env ''NOTIFY_SOCKET'' of
              None \<Rightarrow> (None, False)
            | Some p \<Rightarrow>
                if p = [] then (None, False)
                else (case notify_address sys p of
                        None \<Rightarrow> (None, False)
                      | Some addr \<Rightarrow>
                          if \<not> ns_unbound sys then (None, False)
                          else if ns_send sys addr state then (Some (addr, state), True) else (None, False))))"

definition notify_ready :: "notify_sys \<Rightarrow> environment \<Rightarrow> (notify_addr \<times> string) option \<times> bool" where
  "notify_ready sys env = send_notify sys env (''READY=1'' @ [CHR 0x0A])"

definition notify_status :: "notify_sys \<Rightarrow> environment \<Rightarrow> string \<Rightarrow> (notify_addr \<times> string) option \<times> bool" where
  "notify_status sys env status =
     (let sanitized = filter (\<lambda>c. c \<noteq> CHR 0x0A \<and> c \<noteq> CHR 0x0D) status
      in send_notify sys env (''STATUS='' @ sanitized @ [CHR 0x0A]))"

definition notify_watchdog :: "notify_sys \<Rightarrow> environment \<Rightarrow> (notify_addr \<times> string) option \<times> bool" where
  "notify_watchdog sys env = send_notify sys env (''WATCHDOG=1'' @ [CHR 0x0A])"

definition notify_stopping :: "notify_sys \<Rightarrow> environment \<Rightarrow> (notify_addr \<times> string) option \<times> bool" where
  "notify_stopping sys env = send_notify sys env (''STOPPING=1'' @ [CHR 0x0A])"

text \<open>Durations in microseconds.\<close>

definition watchdog_period_from_env :: "environment \<Rightarrow> nat" where
  "watchdog_period_from_env env =
     (case Option.bind (env ''WATCHDOG_USEC'') (parse_uint 64) of
        Some usec \<Rightarrow>
          if usec = 0 then 0
          else if 3000000 \<le> usec then min (usec div 3) (MAX_WATCHDOG_PERIOD_SECS * 1000000)
          else min (MIN_WATCHDOG_PERIOD_SECS * 1000000) (MAX_WATCHDOG_PERIOD_SECS * 1000000)
      | None \<Rightarrow> min (DEFAULT_WATCHDOG_PERIOD_SECS * 1000000) (MAX_WATCHDOG_PERIOD_SECS * 1000000))"

section \<open>Properties\<close>

text \<open>
  The heartbeat.  The period is never above five minutes and is zero only for a timeout of
  zero.  For any other timeout over one second it is shorter than the timeout, and three periods fit
  into a timeout of three seconds or more; but for a timeout of up to one second the period is at
  least as long as the timeout, so that pings come too late.
\<close>

theorem watchdog_period:
  assumes "env ''WATCHDOG_USEC'' = Some s" and "parse_uint 64 s = Some usec"
  shows "watchdog_period_from_env env \<le> 300 * 1000000 \<and> (watchdog_period_from_env env = 0 \<longleftrightarrow> usec = 0) \<and>
    (3000000 \<le> usec \<longrightarrow> 3 * watchdog_period_from_env env \<le> usec) \<and>
    (1000000 < usec \<longrightarrow> watchdog_period_from_env env < usec) \<and>
    (0 < usec \<and> usec \<le> 1000000 \<longrightarrow> usec \<le> watchdog_period_from_env env)"
  using assms
  by (auto simp: watchdog_period_from_env_def MAX_WATCHDOG_PERIOD_SECS_def MIN_WATCHDOG_PERIOD_SECS_def)

theorem watchdog_period_witness:
  "watchdog_period_from_env (\<lambda>v. Some ''500000'') = 1000000 \<and>
   (500000 :: nat) \<le> watchdog_period_from_env (\<lambda>v. Some ''500000'')"
proof -
  have p: "parse_uint 64 ''500000'' = Some 500000" by code_simp
  have "watchdog_period_from_env (\<lambda>v. Some ''500000'') = 1000000"
    by (simp add: watchdog_period_from_env_def p MAX_WATCHDOG_PERIOD_SECS_def MIN_WATCHDOG_PERIOD_SECS_def)
  with watchdog_period [of "\<lambda>v. Some ''500000''", OF refl p] show ?thesis by simp
qed

text \<open>
  Status lines.  Whatever status the daemon reports, the datagram that leaves is the one
  assignment of \<open>STATUS\<close>: it has no line break but its last character, and it goes to the named
  socket only, which is neither empty nor an abstract name with a NUL.
\<close>

theorem status_is_one_line:
  assumes "notify_status sys env status = (Some (addr, msg), b)"
  shows "b \<and> (\<exists>line. msg = ''STATUS='' @ line @ [CHR 0x0A] \<and> set line \<subseteq> set status \<and>
      CHR 0x0A \<notin> set line \<and> CHR 0x0D \<notin> set line) \<and>
    length msg \<le> NOTIFY_MAX \<and>
    (\<exists>p. env ''NOTIFY_SOCKET'' = Some p \<and> (case addr of
       Abstract_Name n \<Rightarrow> p = ''@'' @ n \<and> n \<noteq> [] \<and> CHR 0x00 \<notin> set n | Pathname q \<Rightarrow> p = q \<and> q \<noteq> []))"
proof -
  let ?line = "filter (\<lambda>c. c \<noteq> CHR 0x0A \<and> c \<noteq> CHR 0x0D) status"
  have s: "send_notify sys env (''STATUS='' @ ?line @ [CHR 0x0A]) = (Some (addr, msg), b)"
    using assms by (simp add: notify_status_def)
  then obtain p where p: "env ''NOTIFY_SOCKET'' = Some p" "notify_address sys p = Some addr"
    and msg: "msg = ''STATUS='' @ ?line @ [CHR 0x0A]" "b" "length msg \<le> NOTIFY_MAX"
    by (auto simp: send_notify_def split: if_splits option.splits)
  have "case addr of Abstract_Name n \<Rightarrow> p = ''@'' @ n \<and> n \<noteq> [] \<and> CHR 0x00 \<notin> set n | Pathname q \<Rightarrow> p = q \<and> q \<noteq> []"
    using p(2) by (auto simp: notify_address_def strip_prefix_Some_iff split: option.splits if_splits)
  with p(1) msg show ?thesis by auto
qed

theorem status_is_one_line_witness:
  "length (snd (the (fst (notify_status \<lparr>ns_addr = \<lambda>a. True, ns_unbound = True, ns_send = \<lambda>a m. True\<rparr>
     (\<lambda>v. Some ''@n'') (''up'' @ [CHR 0x0A] @ ''X=1''))))) \<le> NOTIFY_MAX"
proof -
  have "notify_status \<lparr>ns_addr = \<lambda>a. True, ns_unbound = True, ns_send = \<lambda>a m. True\<rparr> (\<lambda>v. Some ''@n'')
      (''up'' @ [CHR 0x0A] @ ''X=1'') = (Some (Abstract_Name ''n'', ''STATUS=upX=1'' @ [CHR 0x0A]), True)" by code_simp
  from status_is_one_line [OF this] this show ?thesis by simp
qed

end
