(* ===== verification/Daemon.thy ===== *)
theory Daemon
  imports Fd_Handoff Daemon_Env Config
begin

text \<open>
  The daemon process (\<^verbatim>\<open>main.rs\<close>, and the accept loops of \<^verbatim>\<open>varlink/server.rs\<close> and \<^verbatim>\<open>fd_server.rs\<close>): start-up,
  the long-running tasks, and the shutdown.  Tasks are driven by the events their \<open>select!\<close> sees.
\<close>

section \<open>Start-up\<close>

text \<open>Next to the Varlink socket, or in the default directory where that has no parent.\<close>

definition fd_socket_path :: "path \<Rightarrow> path" where
  "fd_socket_path sock = (if sock = [] then [''run'', ''syntrop''] else butlast sock) @ [''modeld-fd.sock'']"

record 'l daemon_sys =
  dm_env :: environment
  dm_pid :: nat
  dm_adopt :: "nat \<Rightarrow> 'l option"
  dm_bind :: "'l bind_sys"
  dm_toml :: "string \<Rightarrow> string + modeld_config"
  dm_notify :: notify_sys

record 'l daemon =
  dn_context :: service_context
  dn_varlink :: 'l
  dn_handoff :: 'l
  dn_policy :: trusted_group_config
  dn_period :: nat

datatype start_error = Se_Model modeld_error | Se_Io io_error

text \<open>The three registries over one directory.\<close>

definition open_storage :: "path \<Rightarrow> host \<Rightarrow> (modeld_error + service_context) \<times> host" where
  "open_storage root h =
     (case CasStore_new root h of (Inl e, h1) \<Rightarrow> (Err e, h1) | (Inr S, h1) \<Rightarrow>
      (case TagRegistry_new root h1 of (Inl e, h2) \<Rightarrow> (Err e, h2) | (Inr R, h2) \<Rightarrow>
       (case EvictionManager_new root h2 of (Inl e, h3) \<Rightarrow> (Err e, h3) | (Inr E, h3) \<Rightarrow>
         (Ok \<lparr>ctx_cas = S, ctx_tags = R, ctx_eviction = E\<rparr>, h3))))"

definition listen_on :: "'l bind_sys \<Rightarrow> 'l option \<Rightarrow> path \<Rightarrow> 'l io" where
  "listen_on sys adopted p h = (case adopted of Some l \<Rightarrow> (Ok l, h) | None \<Rightarrow> bind_standalone sys p h)"

definition daemon_start :: "'l daemon_sys \<Rightarrow> host \<Rightarrow> (start_error + 'l daemon) \<times> host" where
  "daemon_start sys h =
     (let config = unwrap_or default_config (load_or_default (dm_toml sys) h DEFAULT_CONFIG_PATH) in
      case open_storage (abs_path (storage_path config)) h of (Inl e, h1) \<Rightarrow> (Err (Se_Model e), h1) | (Inr ctx, h1) \<Rightarrow>
       (let activated = parse_listen_fds (dm_env sys) (dm_pid sys) (dm_adopt sys);
            sock = abs_path (socket_path config) in
        case listen_on (dm_bind sys) (varlink_listener activated) sock h1 of (Inl e, h2) \<Rightarrow> (Err (Se_Io e), h2) | (Inr v, h2) \<Rightarrow>
         (case listen_on (dm_bind sys) (fd_handoff_listener activated) (fd_socket_path sock) h2 of
            (Inl e, h3) \<Rightarrow> (Err (Se_Io e), h3)
          | (Inr f, h3) \<Rightarrow>
              (Ok \<lparr>dn_context = ctx, dn_varlink = v, dn_handoff = f,
                   dn_policy = from_env_or_default (dm_env sys),
                   dn_period = watchdog_period_from_env (dm_env sys)\<rparr>, h3))))"

text \<open>The notifications of a start and of a stop, as they leave.\<close>

definition ready_messages :: "'l daemon_sys \<Rightarrow> (notify_addr \<times> string) list" where
  "ready_messages sys = List.map_filter fst
     [notify_status (dm_notify sys) (dm_env sys) ''Operating normally: CAS store active'',
      notify_ready (dm_notify sys) (dm_env sys)]"

definition stop_messages :: "'l daemon_sys \<Rightarrow> (notify_addr \<times> string) list" where
  "stop_messages sys = List.map_filter fst
     [notify_status (dm_notify sys) (dm_env sys) ''Stopping modeld daemon'',
      notify_stopping (dm_notify sys) (dm_env sys)]"

section \<open>Tasks\<close>

datatype 'c accept_event = Accepted 'c | Accept_Failed io_error | Accept_Shutdown bool

text \<open>
  Both accept loops have this shape: whether the loop has returned, and the connections whose tasks
  were spawned, in order.
\<close>

fun accept_loop :: "'c accept_event list \<Rightarrow> bool \<times> 'c list" where
  "accept_loop [] = (False, [])"
| "accept_loop (Accepted c # es) = apsnd (Cons c) (accept_loop es)"
| "accept_loop (Accept_Failed e # es) = accept_loop es"
| "accept_loop (Accept_Shutdown b # es) = (if b then (True, []) else accept_loop es)"

text \<open>A client of a server: the events of its connection.\<close>

definition run_varlink_server ::
    "server_env \<Rightarrow> service_context \<Rightarrow> (host \<times> conn_event list) accept_event list \<Rightarrow> bool \<times> (conn_end \<times> connection) list" where
  "run_varlink_server env ctx es =
     apsnd (map (\<lambda>(h, evs). handle_varlink_client env ctx evs (new_connection h))) (accept_loop es)"

definition run_fd_handoff_server ::
    "cas_store \<Rightarrow> tag_registry \<Rightarrow> trusted_group_config \<Rightarrow> (fd_env \<times> host \<times> conn_event list) accept_event list \<Rightarrow>
     bool \<times> fd_outcome list" where
  "run_fd_handoff_server S tags policy es =
     apsnd (map (\<lambda>(env, h, evs). handle_fd_request env S tags policy h evs)) (accept_loop es)"

datatype watchdog_event = Tick | Watchdog_Shutdown bool

fun watchdog_loop :: "'l daemon_sys \<Rightarrow> watchdog_event list \<Rightarrow> bool \<times> (notify_addr \<times> string) list" where
  "watchdog_loop sys [] = (False, [])"
| "watchdog_loop sys (Watchdog_Shutdown b # es) = (if b then (True, []) else watchdog_loop sys es)"
| "watchdog_loop sys (Tick # es) =
     apsnd (\<lambda>ms. (case fst (notify_watchdog (dm_notify sys) (dm_env sys)) of None \<Rightarrow> ms | Some m \<Rightarrow> m # ms))
       (watchdog_loop sys es)"

definition watchdog_task :: "'l daemon_sys \<Rightarrow> nat \<Rightarrow> watchdog_event list \<Rightarrow> bool \<times> (notify_addr \<times> string) list" where
  "watchdog_task sys period es = (if period = 0 then (True, []) else watchdog_loop sys es)"

section \<open>The main task\<close>

text \<open>
  After a signal the main task waits for the listeners and the watchdog, one after the other, within one
  limit of two seconds, here in milliseconds.  A task is given by when it ends after the signal, if it does.
\<close>

definition SHUTDOWN_DRAIN :: nat where
  "SHUTDOWN_DRAIN = 2 * 1000"

fun drain_tasks :: "nat \<Rightarrow> nat option list \<Rightarrow> bool \<times> nat" where
  "drain_tasks waited [] = (True, waited)"
| "drain_tasks waited (e # es) =
     (case e of None \<Rightarrow> (False, SHUTDOWN_DRAIN)
      | Some t \<Rightarrow> if SHUTDOWN_DRAIN < t then (False, SHUTDOWN_DRAIN) else drain_tasks (max waited t) es)"

text \<open>
  How the process ends: it did not start, a signal handler was refused (after \<^verbatim>\<open>READY=1\<close> was sent), or it
  was stopped, whether the tasks had ended by then, and after what time.
\<close>

datatype main_end = Not_Started start_error | No_Signals io_error | Stopped bool nat

text \<open>The main task with the messages it sends; \<open>sigterm\<close> and \<open>sigint\<close> are the answers to the two handlers.\<close>

definition run_main ::
    "'l daemon_sys \<Rightarrow> io_error + unit \<Rightarrow> io_error + unit \<Rightarrow> nat option list \<Rightarrow> host \<Rightarrow> (main_end \<times> (notify_addr \<times> string) list) \<times> host" where
  "run_main sys sigterm sigint ends h =
     (case daemon_start sys h of
        (Inl e, h1) \<Rightarrow> ((Not_Started e, []), h1)
      | (Inr d, h1) \<Rightarrow>
          (case sigterm of Inl e \<Rightarrow> ((No_Signals e, ready_messages sys), h1) | Inr u \<Rightarrow>
            (case sigint of Inl e \<Rightarrow> ((No_Signals e, ready_messages sys), h1) | Inr u \<Rightarrow>
              (case drain_tasks 0 ends of (drained, t) \<Rightarrow> ((Stopped drained t, ready_messages sys @ stop_messages sys), h1)))))"

section \<open>Lemmas\<close>

lemma drain_tasks_bound:
  "waited \<le> SHUTDOWN_DRAIN \<Longrightarrow> snd (drain_tasks waited es) \<le> SHUTDOWN_DRAIN \<and>
   (fst (drain_tasks waited es) \<longleftrightarrow> list_all (\<lambda>e. \<exists>t \<le> SHUTDOWN_DRAIN. e = Some t) es)"
  by (induction waited es rule: drain_tasks.induct) (auto split: option.split)

lemma run_main_stops:
  assumes "daemon_start sys h = (Ok d, h')"
  shows "\<exists>drained t. run_main sys (Ok ()) (Ok ()) ends h = ((Stopped drained t, ready_messages sys @ stop_messages sys), h') \<and>
    t \<le> SHUTDOWN_DRAIN \<and> (drained \<longleftrightarrow> list_all (\<lambda>e. \<exists>t \<le> SHUTDOWN_DRAIN. e = Some t) ends)"
  using assms drain_tasks_bound [of 0 ends] by (cases "drain_tasks 0 ends") (simp add: run_main_def)

lemma accept_loop_shutdown: "Accept_Shutdown True \<in> set es \<Longrightarrow> fst (accept_loop es)"
  by (induction es rule: accept_loop.induct) auto

lemma accept_loop_running:
  "Accept_Shutdown True \<notin> set es \<Longrightarrow> accept_loop es = (False, List.map_filter (\<lambda>e. case e of Accepted c \<Rightarrow> Some c | _ \<Rightarrow> None) es)"
  by (induction es rule: accept_loop.induct) (auto simp: List.map_filter_simps)

lemma watchdog_shutdown: "Watchdog_Shutdown True \<in> set es \<Longrightarrow> fst (watchdog_loop sys es)"
  by (induction sys es rule: watchdog_loop.induct) auto

lemma client_shutdown:
  "Shutdown_Change True \<in> set es \<Longrightarrow> fst (handle_varlink_client env ctx es c) \<noteq> Conn_Open"
proof (induction env ctx es c rule: handle_varlink_client.induct)
  case (4 env ctx bs es c)
  then show ?case by (cases "receive_bytes env ctx bs c") (auto split: conn_end.splits)
qed auto

lemma fd_interrupted:
  "Shutdown_Change b \<in> set es \<Longrightarrow> interrupted es"
  by (induction es rule: interrupted.induct) auto

lemma fd_shutdown:
  "interrupted es \<Longrightarrow> fo_end (handle_fd_request env S tags policy h es) \<noteq> Fd_Waiting"
  by (auto simp: handle_fd_request_def await_request_def fd_stop_def serve_request_def hand_over_def Let_def
      split: sum.split option.split)

lemma open_storage_Ok:
  assumes "open_storage root h = (Ok ctx, h')"
  shows "ctx_cas ctx = \<lparr>root_dir = root\<rparr> \<and> tags_dir (ctx_tags ctx) = root @ [''tags''] \<and>
    pinned_dir (ctx_eviction ctx) = root @ [''pinned''] \<and>
    (\<exists>h1 h2 h3. adds_dirs (root @ [''cas'', ''blobs'', ''sha256'']) h h1 \<and> adds_dirs (root @ [''cas'', ''incoming'']) h1 h2 \<and>
       adds_dirs (root @ [''tags'']) h2 h3 \<and> adds_dirs (root @ [''pinned'']) h3 h')"
proof -
  have seg: "join p ''tags'' = p @ [''tags'']" "join p ''pinned'' = p @ [''pinned'']" for p
    by (simp_all add: join_segment is_segment_def)
  obtain u1 h1 where 1: "create_dir_all (blobs_dir \<lparr>root_dir = root\<rparr>) h = (Inr u1, h1)"
    using assms by (auto simp: open_storage_def CasStore_new_def Let_def split: sum.splits prod.splits)
  obtain u2 h2 where 2: "create_dir_all (incoming_dir \<lparr>root_dir = root\<rparr>) h1 = (Inr u2, h2)"
    using assms 1 by (auto simp: open_storage_def CasStore_new_def Let_def split: sum.splits prod.splits)
  obtain u3 h3 where 3: "create_dir_all (root @ [''tags'']) h2 = (Inr u3, h3)"
    using assms 1 2 by (auto simp: open_storage_def CasStore_new_def TagRegistry_new_def seg Let_def split: sum.splits prod.splits)
  obtain u4 h4 where 4: "create_dir_all (root @ [''pinned'']) h3 = (Inr u4, h4)"
    using assms 1 2 3 by (auto simp: open_storage_def CasStore_new_def TagRegistry_new_def EvictionManager_new_def seg Let_def
        split: sum.splits prod.splits)
  have "ctx = \<lparr>ctx_cas = \<lparr>root_dir = root\<rparr>, ctx_tags = \<lparr>tags_dir = root @ [''tags'']\<rparr>,
      ctx_eviction = \<lparr>pinned_dir = root @ [''pinned'']\<rparr>\<rparr> \<and> h' = h4"
    using assms 1 2 3 4 by (simp add: open_storage_def CasStore_new_def TagRegistry_new_def EvictionManager_new_def seg Let_def)
  then show ?thesis
    using create_dir_all_adds_dirs [OF 1] create_dir_all_adds_dirs [OF 2] create_dir_all_adds_dirs [OF 3]
      create_dir_all_adds_dirs [OF 4] by (auto simp: path_simps)
qed

lemma daemon_start_Ok:
  assumes "daemon_start sys h = (Ok d, h')"
  defines "config \<equiv> unwrap_or default_config (load_or_default (dm_toml sys) h DEFAULT_CONFIG_PATH)"
    and "activated \<equiv> parse_listen_fds (dm_env sys) (dm_pid sys) (dm_adopt sys)"
  shows "\<exists>h1 h2. open_storage (abs_path (storage_path config)) h = (Ok (dn_context d), h1) \<and>
    listen_on (dm_bind sys) (varlink_listener activated) (abs_path (socket_path config)) h1 = (Ok (dn_varlink d), h2) \<and>
    listen_on (dm_bind sys) (fd_handoff_listener activated) (fd_socket_path (abs_path (socket_path config))) h2 =
      (Ok (dn_handoff d), h')"
  using assms(1) unfolding daemon_start_def Let_def config_def activated_def
  by (auto split: sum.splits prod.splits)

lemma adds_dirs_keeps:
  "adds_dirs p h h' \<Longrightarrow> same_files h h' \<and> (\<forall>q nd. lookup h q = Some nd \<longrightarrow> lookup h' q = Some nd)"
  using adds_dirs_lookup unfolding adds_dirs_def by blast

lemma keeps_trans:
  "same_files h h1 \<and> (\<forall>q nd. lookup h q = Some nd \<longrightarrow> lookup h1 q = Some nd) \<Longrightarrow>
   same_files h1 h2 \<and> (\<forall>q nd. lookup h1 q = Some nd \<longrightarrow> lookup h2 q = Some nd) \<Longrightarrow>
   same_files h h2 \<and> (\<forall>q nd. lookup h q = Some nd \<longrightarrow> lookup h2 q = Some nd)"
  using same_files_trans by blast

lemma open_storage_keeps:
  assumes "open_storage root h = (Ok ctx, h')"
  shows "same_files h h' \<and> (\<forall>q nd. lookup h q = Some nd \<longrightarrow> lookup h' q = Some nd)"
proof -
  obtain p1 p2 p3 p4 h1 h2 h3 where d: "adds_dirs p1 h h1" "adds_dirs p2 h1 h2" "adds_dirs p3 h2 h3" "adds_dirs p4 h3 h'"
    using open_storage_Ok [OF assms] by blast
  note K = d [THEN adds_dirs_keeps]
  show ?thesis by (rule keeps_trans [OF keeps_trans [OF keeps_trans [OF K(1,2)] K(3)] K(4)])
qed

section \<open>A small daemon\<close>

definition demo_system :: "nat daemon_sys" where
  "demo_system = \<lparr>dm_env = (\<lambda>v. if v = ''LISTEN_PID'' then Some ''77'' else if v = ''LISTEN_FDS'' then Some ''2'' else None),
     dm_pid = 77, dm_adopt = Some, dm_bind = \<lparr>bs_bind = (\<lambda>p h. (Err e_exists, h)), bs_chmod = (\<lambda>p m h. (Ok (), h))\<rparr>,
     dm_toml = Inl, dm_notify = \<lparr>ns_addr = (\<lambda>a. True), ns_unbound = True, ns_send = (\<lambda>a m. True)\<rparr>\<rparr>"

definition broken_config_host :: host where
  "broken_config_host = plain_host [([''etc''], Dir), ([''etc'', ''syntrop''], Dir), ([''etc'', ''syntrop'', ''modeld.conf''], File 0)]
     [(0, \<lparr>content = ''bad'', mtime = 0\<rparr>)]"

lemma demo_starts:
  "\<exists>d h'. daemon_start demo_system broken_config_host = (Ok d, h')"
proof -
  have "is_ok (fst (daemon_start demo_system broken_config_host))" by code_simp
  then obtain d where "fst (daemon_start demo_system broken_config_host) = Ok d" by (auto simp: is_ok_iff)
  then show ?thesis by (metis prod.collapse)
qed

section \<open>Properties\<close>

text \<open>
  C30. Activation.  Started by the service manager with two sockets for its own process, the daemon
  listens on descriptors 3 and 4 in this order, serves one directory through its three registries,
  and makes directories only: every entry and file that was there stays as it was.
\<close>

theorem activated_start:
  assumes "dm_env sys ''LISTEN_PID'' = Some (show_nat (dm_pid sys))" and "dm_pid sys < 2 ^ 32"
    and "dm_env sys ''LISTEN_FDS'' = Some (show_nat n)" and "2 \<le> n" and "n < 2 ^ 64"
    and "dm_adopt sys 3 = Some v" and "dm_adopt sys 4 = Some f"
    and "daemon_start sys h = (Ok d, h')"
  shows "dn_varlink d = v \<and> dn_handoff d = f \<and>
    tags_dir (ctx_tags (dn_context d)) = root_dir (ctx_cas (dn_context d)) @ [''tags''] \<and>
    pinned_dir (ctx_eviction (dn_context d)) = root_dir (ctx_cas (dn_context d)) @ [''pinned''] \<and>
    same_files h h' \<and> (\<forall>q nd. lookup h q = Some nd \<longrightarrow> lookup h' q = Some nd)"
proof -
  have act: "parse_listen_fds (dm_env sys) (dm_pid sys) (dm_adopt sys) =
      \<lparr>varlink_listener = Some v, fd_handoff_listener = Some f\<rparr>"
    using assms(1-7) by (simp add: parse_listen_fds_def parse_show_nat SD_LISTEN_FDS_START_def)
  from daemon_start_Ok [OF assms(8)] obtain root h1
    where st: "open_storage root h = (Ok (dn_context d), h1)"
      and l: "v = dn_varlink d" "f = dn_handoff d" "h1 = h'"
    unfolding act listen_on_def by auto
  then show ?thesis using open_storage_Ok [OF st] open_storage_keeps [OF st] by simp
qed

theorem activated_start_witness:
  "\<exists>d h'. daemon_start demo_system broken_config_host = (Ok d, h') \<and> dn_varlink d = 3 \<and> dn_handoff d = 4 \<and>
     lookup h' [''etc'', ''syntrop'', ''modeld.conf''] = Some (File 0)"
proof -
  obtain d h' where s: "daemon_start demo_system broken_config_host = (Ok d, h')" using demo_starts by blast
  have n: "show_nat 77 = ''77''" "show_nat 2 = ''2''" by code_simp+
  have e: "dm_env demo_system ''LISTEN_PID'' = Some (show_nat (dm_pid demo_system))" "dm_pid demo_system < 2 ^ 32"
    "dm_env demo_system ''LISTEN_FDS'' = Some (show_nat 2)" "dm_adopt demo_system 3 = Some 3" "dm_adopt demo_system 4 = Some 4"
    by (simp_all add: demo_system_def n)
  have "lookup broken_config_host [''etc'', ''syntrop'', ''modeld.conf''] = Some (File 0)" by code_simp
  with activated_start [OF e(1-3) _ _ e(4,5) s] s show ?thesis by auto
qed

text \<open>
  A broken configuration.  When the configuration file cannot be read or parsed, the daemon does
  not say so and does not stop: it serves the default directory.
\<close>

theorem start_ignores_broken_config:
  assumes "load_or_default (dm_toml sys) h DEFAULT_CONFIG_PATH = Err e" and "daemon_start sys h = (Ok d, h')"
  shows "root_dir (ctx_cas (dn_context d)) = [''var'', ''lib'', ''models'']"
proof -
  have "abs_path (storage_path default_config) = [''var'', ''lib'', ''models'']" by code_simp
  moreover obtain h1 where "open_storage (abs_path (storage_path default_config)) h = (Ok (dn_context d), h1)"
    using daemon_start_Ok [OF assms(2)] assms(1) by auto
  ultimately show ?thesis using open_storage_Ok by fastforce
qed

theorem start_ignores_broken_config_witness:
  "\<exists>d h'. daemon_start demo_system broken_config_host = (Ok d, h') \<and>
     root_dir (ctx_cas (dn_context d)) = [''var'', ''lib'', ''models'']"
proof -
  obtain d h' where s: "daemon_start demo_system broken_config_host = (Ok d, h')" using demo_starts by blast
  have "\<not> is_ok (load_or_default (dm_toml demo_system) broken_config_host DEFAULT_CONFIG_PATH)" by code_simp
  then obtain e where "load_or_default (dm_toml demo_system) broken_config_host DEFAULT_CONFIG_PATH = Err e"
    by (cases "load_or_default (dm_toml demo_system) broken_config_host DEFAULT_CONFIG_PATH") auto
  from start_ignores_broken_config [OF this s] s show ?thesis by blast
qed



end
