(* ===== verification/Store_System.thy ===== *)
theory Store_System
  imports Daemon
begin

text \<open>
  The running system as a transition system: the daemon with its Varlink and handoff connections, the
  client processes that store blobs beside it, and a kernel that may refuse any call at any time.
  One answered message, one handed-over model or one stored blob is one step: a handler awaits nothing
  between its first and its last call on the store.  (The runtime of the daemon has several threads
  and the clients are processes of their own, so two of them can also overlap inside a step; that is
  not modelled.)
\<close>

section \<open>Transition systems with an invariant\<close>

locale invariant_system =
  fixes init :: "'s \<Rightarrow> bool" and step :: "'s \<Rightarrow> 's \<Rightarrow> bool" and inv :: "'s \<Rightarrow> bool"
  assumes init_inv: "init s \<Longrightarrow> inv s"
    and step_inv: "inv s \<Longrightarrow> step s s' \<Longrightarrow> inv s'"
begin

lemma steps_inv: "step\<^sup>*\<^sup>* s s' \<Longrightarrow> inv s \<Longrightarrow> inv s'"
  by (induction rule: rtranclp_induct) (auto intro: step_inv)

lemma reachable_inv: "init s \<Longrightarrow> step\<^sup>*\<^sup>* s s' \<Longrightarrow> inv s'"
  using steps_inv init_inv by blast

text \<open>What holds along a run that is guarded by a condition on the states it leaves.\<close>

lemma guarded_run:
  assumes "(\<lambda>s s'. step s s' \<and> guard s)\<^sup>*\<^sup>* s s'" and "inv s" and "P s"
    and "\<And>s s'. inv s \<Longrightarrow> step s s' \<Longrightarrow> guard s \<Longrightarrow> P s \<Longrightarrow> P s'"
  shows "P s'"
proof -
  have "inv s' \<and> P s'" using assms(1)
    by (induction rule: rtranclp_induct) (use assms(2-4) step_inv in blast)+
  then show ?thesis ..
qed

end

section \<open>The invariant of the store\<close>

text \<open>The three registries over one directory.\<close>

definition over_root :: "service_context \<Rightarrow> path \<Rightarrow> bool" where
  "over_root ctx root = (path_ok root \<and> ctx_cas ctx = \<lparr>root_dir = root\<rparr> \<and>
     tags_dir (ctx_tags ctx) = root @ [''tags''] \<and> pinned_dir (ctx_eviction ctx) = root @ [''pinned''])"

text \<open>The entries of tags and pins.\<close>

definition registry_path :: "path \<Rightarrow> path \<Rightarrow> bool" where
  "registry_path root q = (prefix (root @ [''tags'']) q \<or> prefix (root @ [''pinned'']) q)"

text \<open>
  The file system is well formed and holds no symbolic link at the root and in the directories of blobs,
  tags and pins (beside them, pulls keep symbolic links), what lies under a digest hashes to it, and the
  files of tags and pins share their inodes with no other entry.
\<close>

definition store_area :: "path \<Rightarrow> path \<Rightarrow> bool" where
  "store_area root p = (p = root \<or> prefix (root @ [''cas'']) p \<or> registry_path root p)"

definition store_inv :: "'h hasher \<Rightarrow> path \<Rightarrow> host \<Rightarrow> bool" where
  "store_inv H root h =
     (fs_ok h \<and> (\<forall>p. store_area root p \<longrightarrow> plain h p) \<and> cas_sound H \<lparr>root_dir = root\<rparr> h \<and>
      (\<forall>q p i. registry_path root q \<longrightarrow> lookup h q = Some (File i) \<longrightarrow> lookup h p = Some (File i) \<longrightarrow> p = q))"

lemma store_invD:
  assumes "store_inv H root h"
  shows "fs_ok h" "store_area root p \<Longrightarrow> plain h p" "cas_sound H \<lparr>root_dir = root\<rparr> h"
    "registry_path root q \<Longrightarrow> lookup h q = Some (File i) \<Longrightarrow> lookup h p = Some (File i) \<Longrightarrow> p = q"
  using assms by (auto simp: store_inv_def)

lemma blob_path_not_registry:
  "is_digest_format d \<Longrightarrow> p \<in> blob_paths \<lparr>root_dir = root\<rparr> d \<Longrightarrow> store_area root p \<and> \<not> registry_path root p"
  by (auto simp: blob_paths_eq registry_path_def store_area_def)

lemma registry_area: "registry_path root q \<Longrightarrow> store_area root q"
  by (simp add: store_area_def)

lemma area_prefix: "store_area root q \<Longrightarrow> prefix root q"
  by (auto simp: store_area_def registry_path_def dest: append_prefixD)

lemma stage_not_registry: "prefix root (stage_path \<lparr>root_dir = root\<rparr> h) \<and> \<not> registry_path root (stage_path \<lparr>root_dir = root\<rparr> h)"
  by (simp add: stage_path_eq registry_path_def)

text \<open>Steps that add directories only, or remove entries only.\<close>

lemma store_inv_dirs:
  assumes "store_inv H root h" and "adds_dirs p h h'" and "fs_ok h'"
  shows "store_inv H root h'"
proof -
  have fl: "lookup h' q = Some (File i) \<longleftrightarrow> lookup h q = Some (File i)" for q i
    using assms(2) unfolding adds_dirs_def by (metis node.distinct(1) option.distinct(1) option.inject)
  have sf: "inode h' j = inode h j" for j using assms(2) by (simp add: adds_dirs_def same_files_def inode_def)
  show ?thesis
    using assms adds_dirs_plain [OF assms(2)] by (simp add: store_inv_def cas_sound_def fl sf)
qed

lemma store_inv_removal:
  assumes "store_inv H root h" and "same_files h h'" and "fs_ok h'"
    and "\<And>q. lookup h' q = lookup h q \<or> lookup h' q = None"
  shows "store_inv H root h'"
proof -
  have sub: "lookup h' q = Some nd \<Longrightarrow> lookup h q = Some nd" for q nd using assms(4) [of q] by auto
  have sf: "inode h' j = inode h j" for j using same_files_inode [OF assms(2)] .
  have "cas_sound H \<lparr>root_dir = root\<rparr> h'"
    using store_invD(3) [OF assms(1)] sub by (auto simp: cas_sound_def sf)
  then show ?thesis
    using assms(1,3) sub by (auto simp: store_inv_def plain_def)
qed

text \<open>Writing a file of a registry.\<close>

lemma store_inv_create:
  assumes inv: "store_inv H root h" and q: "registry_path root q" "path_ok q" and c: "create_file q h = (r, h')"
  shows "store_inv H root h' \<and> (\<forall>i. r = Ok i \<longrightarrow> lookup h' q = Some (File i)) \<and>
    (\<forall>p. p \<noteq> q \<longrightarrow> lookup h' p = lookup h p)"
proof (cases r)
  case (Inl e)
  then show ?thesis using inv c create_file_Err by auto
next
  case (Inr i)
  have pl: "plain h q" using store_invD(2) [OF inv] registry_area [OF q(1)] by blast
  note C = c [unfolded Inr] and L = create_file_lookup [OF c [unfolded Inr] pl]
  have ok: "fs_ok h'" using create_file_fs_ok [OF c store_invD(1) [OF inv] q(2)] .
  have own: "lookup h p = Some (File i) \<Longrightarrow> p = q" for p
    using create_file_Ok [OF C pl] store_invD(4) [OF inv q(1), of i p] staged_fresh [OF store_invD(1) [OF inv], of p i] by auto
  have files: "lookup h' p = Some (File j) \<Longrightarrow> p = q \<and> j = i \<or> p \<noteq> q \<and> j \<noteq> i \<and> lookup h p = Some (File j)" for p j
    using L(1,2) own by (cases "p = q") auto
  have "cas_sound H \<lparr>root_dir = root\<rparr> h'"
    unfolding cas_sound_def
  proof (intro allI impI)
    fix d p j assume d: "is_digest_format d" and p: "p \<in> blob_paths \<lparr>root_dir = root\<rparr> d" and l: "lookup h' p = Some (File j)"
    then have "p \<noteq> q" using blob_path_not_registry q(1) by blast
    with files [OF l] L(4) [of j] cas_soundD [OF store_invD(3) [OF inv] d p] show "hex_digest H (content (inode h' j)) = d" by auto
  qed
  moreover have "plain h' p" if "store_area root p" for p
    using create_file_plain [OF c pl] store_invD(2) [OF inv that] by simp
  moreover have "p = p'" if "registry_path root p'" "lookup h' p' = Some (File j)" "lookup h' p = Some (File j)" for p p' j
    using files [OF that(2)] files [OF that(3)] store_invD(4) [OF inv that(1)] by auto
  ultimately have "store_inv H root h'" using ok unfolding store_inv_def by blast
  then show ?thesis using L(1,2) Inr by blast
qed

lemma store_inv_write:
  assumes inv: "store_inv H root h" and q: "registry_path root q" "lookup h q = Some (File i)" and w: "write_all q i bs h = (r, h')"
  shows "store_inv H root h' \<and> (\<forall>p. lookup h' p = lookup h p)"
proof (cases r)
  case (Inl e)
  then show ?thesis using inv w write_all_Err [of q i bs h e h'] by simp
next
  case (Inr u)
  have h': "h' = put_inode i \<lparr>content = content (inode h i) @ bs, mtime = now h\<rparr> h"
    using write_all_Ok [of q i bs h u h'] w Inr by simp
  then have look: "lookup h' p = lookup h p" for p by (simp add: fs_simps)
  have "fs_ok h'" using write_all_fs_ok [OF w store_invD(1) [OF inv]] .
  moreover have "cas_sound H \<lparr>root_dir = root\<rparr> h'"
    unfolding cas_sound_def look
  proof (intro allI impI)
    fix d p j assume d: "is_digest_format d" and p: "p \<in> blob_paths \<lparr>root_dir = root\<rparr> d" and l: "lookup h p = Some (File j)"
    then have "p \<noteq> q" using blob_path_not_registry q(1) by blast
    then have "j \<noteq> i" using store_invD(4) [OF inv q(1,2), of p] l by blast
    then show "hex_digest H (content (inode h' j)) = d"
      using cas_soundD [OF store_invD(3) [OF inv] d p l] by (simp add: h' fs_simps)
  qed
  ultimately show ?thesis using inv look by (simp add: store_inv_def plain_def)
qed

section \<open>The operations keep the invariant\<close>

text \<open>\<open>keeps_blobs\<close>: every entry that is outside the registries stays.\<close>

definition keeps_blobs :: "path \<Rightarrow> host \<Rightarrow> host \<Rightarrow> bool" where
  "keeps_blobs root h h' = (\<forall>q nd. \<not> registry_path root q \<longrightarrow> lookup h q = Some nd \<longrightarrow> lookup h' q = Some nd)"

lemma keeps_blobs_at:
  assumes "registry_path root q0" and "\<And>p. p \<noteq> q0 \<Longrightarrow> lookup h' p = lookup h p \<or> p = q0"
  shows "keeps_blobs root h h'"
  unfolding keeps_blobs_def
proof (intro allI impI)
  fix q nd assume "\<not> registry_path root q" "lookup h q = Some nd"
  then show "lookup h' q = Some nd" using assms by (cases "q = q0") auto
qed

lemma keeps_blobs_trans: "keeps_blobs root h h1 \<Longrightarrow> keeps_blobs root h1 h2 \<Longrightarrow> keeps_blobs root h h2"
  by (simp add: keeps_blobs_def)

lemma over_root_paths:
  assumes "over_root ctx root" and "tag_segment n" and "tag_segment t" and "is_digest_format d"
  shows "join (root @ [''tags'', n]) t = root @ [''tags'', n, t]" "join (tags_dir (ctx_tags ctx)) n = root @ [''tags'', n]"
    "join (pinned_dir (ctx_eviction ctx)) d = root @ [''pinned'', d]"
    "path_ok (root @ [''tags'', n])" "path_ok (root @ [''tags'', n, t])" "path_ok (root @ [''pinned'', d])"
proof -
  have "is_segment ''tags''" "is_segment ''pinned''" by (simp_all add: is_segment_def)
  then show "join (root @ [''tags'', n]) t = root @ [''tags'', n, t]" "join (tags_dir (ctx_tags ctx)) n = root @ [''tags'', n]"
    "join (pinned_dir (ctx_eviction ctx)) d = root @ [''pinned'', d]"
    "path_ok (root @ [''tags'', n])" "path_ok (root @ [''tags'', n, t])" "path_ok (root @ [''pinned'', d])"
    using assms by (simp_all add: over_root_def join_tag join_digest path_ok_def tag_segment_segment digest_format_segment)
qed

lemma registry_paths:
  "registry_path root (root @ ''tags'' # p)" "registry_path root (root @ ''pinned'' # p)"
  by (simp_all add: registry_path_def)

lemma set_tag_keeps:
  assumes inv: "store_inv H root h" and ctx: "over_root ctx root" and n: "tag_segment n" and t: "tag_segment t"
    and d: "is_digest_format d" and s: "set_tag (ctx_tags ctx) n t d h = (r, h')"
  shows "store_inv H root h' \<and> keeps_blobs root h h'"
proof -
  note P = over_root_paths [OF ctx n t d]
  let ?q = "root @ [''tags'', n, t]"
  obtain r1 h1 where c: "create_dir_all (root @ [''tags'', n]) h = (r1, h1)" by fastforce
  note D = create_dir_all_adds_dirs [OF c]
  have inv1: "store_inv H root h1"
    using store_inv_dirs [OF inv D] create_dir_all_fs_ok [OF c store_invD(1) [OF inv] P(4)] by blast
  have keep1: "keeps_blobs root h h1" using adds_dirs_lookup [OF D] by (simp add: keeps_blobs_def)
  obtain r2 h2 where c2: "create_file ?q h1 = (r2, h2)" by fastforce
  note C = store_inv_create [OF inv1 registry_paths(1) P(5) c2]
  have "h' = h1 \<or> h' = h2 \<or> (\<exists>i r3. r2 = Ok i \<and> write_all ?q i d h2 = (r3, h'))"
    using s c c2 n t d digest_format_trim [OF d]
    by (auto simp: set_tag_def validate_tag_segment_Ok [THEN iffD2] validate_digest_format_def P(1,2) Let_def
        split: sum.splits prod.splits)
  then have "store_inv H root h' \<and> (\<forall>p. p \<noteq> ?q \<longrightarrow> lookup h' p = lookup h1 p)"
  proof (elim disjE exE conjE)
    fix i r3 assume "r2 = Ok i" "write_all ?q i d h2 = (r3, h')"
    then show ?thesis using store_inv_write [OF conjunct1 [OF C] registry_paths(1), of "[n, t]" i d r3 h'] C by simp
  qed (use inv1 C in simp_all)
  then show ?thesis using keeps_blobs_trans [OF keep1] keeps_blobs_at [OF registry_paths(1) [of root "[n, t]"], of h' h1] by auto
qed

lemma pin_keeps:
  assumes inv: "store_inv H root h" and ctx: "over_root ctx root" and s: "pin (ctx_eviction ctx) d h = (r, h')"
  shows "store_inv H root h' \<and> keeps_blobs root h h'"
proof (cases "is_digest_format (trim d)")
  case True
  note P = over_root_paths(3,6) [OF ctx _ _ True, of "''x''" "''x''"]
  have x: "tag_segment ''x''" by code_simp
  obtain r2 h2 where c: "create_file (root @ [''pinned'', trim d]) h = (r2, h2)" by fastforce
  note C = store_inv_create [OF inv registry_paths(2) P(2) [OF x x] c]
  have "h' = h2" using s c True P(1) [OF x x] by (auto simp: pin_def validate_digest_format_def split: sum.splits)
  then show ?thesis using C keeps_blobs_at [OF registry_paths(2) [of root "[trim d]"], of h' h] by auto
next
  case False
  then have "h' = h" using s by (auto simp: pin_def validate_digest_format_def)
  then show ?thesis using inv by (simp add: keeps_blobs_def)
qed

lemma unpin_keeps:
  assumes inv: "store_inv H root h" and ctx: "over_root ctx root" and s: "unpin (ctx_eviction ctx) d h = (r, h')"
  shows "store_inv H root h' \<and> keeps_blobs root h h'"
proof (cases "is_digest_format (trim d) \<and> is_file h (join (pinned_dir (ctx_eviction ctx)) (trim d))")
  case True
  then have d: "is_digest_format (trim d)" by blast
  have x: "tag_segment ''x''" by code_simp
  note P = over_root_paths(3) [OF ctx x x d]
  obtain r2 h2 where c: "remove_file (root @ [''pinned'', trim d]) h = (r2, h2)" by fastforce
  have "h' = h2" using s c True P by (auto simp: unpin_def validate_digest_format_def Let_def split: sum.splits)
  moreover note A = remove_file_any [OF c]
  have "store_inv H root h2"
    by (rule store_inv_removal [OF inv _ remove_file_fs_ok [OF c store_invD(1) [OF inv]]]) (use A in auto)
  moreover have "keeps_blobs root h h2"
    by (rule keeps_blobs_at [OF registry_paths(2) [of root "[trim d]"]]) (use A in auto)
  ultimately show ?thesis by blast
next
  case False
  then have "h' = h" using s by (auto simp: unpin_def validate_digest_format_def Let_def split: if_splits)
  then show ?thesis using inv by (simp add: keeps_blobs_def)
qed

lemma prune_loop_fs_ok:
  "prune_loop E S mx rows tot n h = (n', h') \<Longrightarrow> fs_ok h \<Longrightarrow> fs_ok h'"
proof (induction E S mx rows tot n h rule: prune_loop.induct)
  case (2 E S mx d sz m rows tot n h)
  obtain r1 h1 where r1: "remove_file (join (blobs_dir S) d) h = (r1, h1)" by fastforce
  obtain r2 h2 where r2: "remove_file (join (cas_dir S) (''sha256-'' @ d @ ''.gguf'')) h1 = (r2, h2)" by fastforce
  have "fs_ok h2" using remove_file_fs_ok [OF r2 remove_file_fs_ok [OF r1 "2.prems"(2)]] .
  then show ?case using 2 r1 r2 by (auto simp: Let_def split: if_splits)
qed simp

lemma prune_keeps:
  assumes inv: "store_inv H root h" and ctx: "over_root ctx root" and s: "prune (ctx_eviction ctx) (ctx_cas ctx) mx h = (r, h')"
  shows "store_inv H root h' \<and>
    (\<forall>d p nd. is_digest_format d \<longrightarrow> is_pinned (ctx_eviction ctx) h d \<longrightarrow> p \<in> blob_paths (ctx_cas ctx) d \<longrightarrow>
      lookup h p = Some nd \<longrightarrow> lookup h' p = Some nd)"
proof -
  have pp: "pins_plain (ctx_eviction ctx) (ctx_cas ctx) h"
    using ctx store_invD(2) [OF inv] by (simp add: pins_plain_def over_root_def store_area_def registry_path_def)
  have sf: "same_files h h'" and E: "\<And>q. lookup h' q = lookup h q \<or> lookup h' q = None \<and>
      (\<exists>x. no_slash x \<and> q \<in> prune_targets (ctx_cas ctx) x \<and> \<not> is_pinned (ctx_eviction ctx) h x)"
    using prune_effect [OF s store_invD(1) [OF inv] pp] by blast+
  have "h' = h \<or> (\<exists>rows tot n. prune_loop (ctx_eviction ctx) (ctx_cas ctx) mx rows tot 0 h = (n, h'))"
    using s by (force simp: prune_def split: sum.splits prod.splits if_splits)
  then have "fs_ok h'"
  proof (elim disjE exE)
    fix rows tot n assume "prune_loop (ctx_eviction ctx) (ctx_cas ctx) mx rows tot 0 h = (n, h')"
    from prune_loop_fs_ok [OF this store_invD(1) [OF inv]] show ?thesis .
  qed (simp add: store_invD(1) [OF inv])
  then have "store_inv H root h'" 
  proof (rule store_inv_removal [OF inv sf])
    show "lookup h' q = lookup h q \<or> lookup h' q = None" for q
      using E [of q] by (elim disjE conjE) (rule disjI1, assumption, rule disjI2, assumption)
  qed
  moreover have "lookup h' p = lookup h p"
    if "is_digest_format d" "is_pinned (ctx_eviction ctx) h d" "p \<in> blob_paths (ctx_cas ctx) d" for d p
    using E [of p] prune_targets_blob [OF _ that(1) _ that(3)] that(2) by blast
  ultimately show ?thesis by simp
qed

text \<open>A service call is one of these; the blobs of pinned digests stay.\<close>

definition keeps_pinned :: "service_context \<Rightarrow> host \<Rightarrow> host \<Rightarrow> bool" where
  "keeps_pinned ctx h h' = (\<forall>d p nd. is_digest_format d \<longrightarrow> is_pinned (ctx_eviction ctx) h d \<longrightarrow>
     p \<in> blob_paths (ctx_cas ctx) d \<longrightarrow> lookup h p = Some nd \<longrightarrow> lookup h' p = Some nd)"

lemma keeps_blobs_pinned: "over_root ctx root \<Longrightarrow> keeps_blobs root h h' \<Longrightarrow> keeps_pinned ctx h h'"
  using blob_path_not_registry unfolding keeps_blobs_def keeps_pinned_def over_root_def by metis

lemma service_effect_keeps:
  assumes inv: "store_inv H root h" and ctx: "over_root ctx root" and e: "service_effect ctx h h'"
  shows "store_inv H root h' \<and> keeps_pinned ctx h h'"
  using e unfolding service_effect_def
proof (elim disjE exE conjE)
  fix n t d assume k: "tag_segment n" "tag_segment t" "is_digest_format d" and h': "h' = snd (set_tag (ctx_tags ctx) n t d h)"
  have "set_tag (ctx_tags ctx) n t d h = (fst (set_tag (ctx_tags ctx) n t d h), h')" by (simp add: h')
  from set_tag_keeps [OF inv ctx k this] show ?thesis using keeps_blobs_pinned [OF ctx] by blast
next
  fix d assume h': "h' = snd (pin (ctx_eviction ctx) d h)"
  have "pin (ctx_eviction ctx) d h = (fst (pin (ctx_eviction ctx) d h), h')" by (simp add: h')
  from pin_keeps [OF inv ctx this] show ?thesis using keeps_blobs_pinned [OF ctx] by blast
next
  fix d assume h': "h' = snd (unpin (ctx_eviction ctx) d h)"
  have "unpin (ctx_eviction ctx) d h = (fst (unpin (ctx_eviction ctx) d h), h')" by (simp add: h')
  from unpin_keeps [OF inv ctx this] show ?thesis using keeps_blobs_pinned [OF ctx] by blast
next
  fix mx :: nat assume h': "h' = snd (prune (ctx_eviction ctx) (ctx_cas ctx) mx h)"
  have "prune (ctx_eviction ctx) (ctx_cas ctx) mx h = (fst (prune (ctx_eviction ctx) (ctx_cas ctx) mx h), h')" by (simp add: h')
  from prune_keeps [OF inv ctx this] show ?thesis by (simp add: keeps_pinned_def)
qed (use inv in \<open>simp add: keeps_pinned_def\<close>)

text \<open>A process that stores a blob.\<close>

lemma store_blob_keeps:
  assumes H: "sha256_contract H" and inv: "store_inv H root h" and root: "path_ok root"
    and unused: "lookup h (stage_path \<lparr>root_dir = root\<rparr> h) = None"
    and st: "store_blob H \<lparr>root_dir = root\<rparr> rs expected h = (r, h')"
  shows "store_inv H root h' \<and> (\<forall>q i. lookup h q = Some (File i) \<longrightarrow> (\<exists>j. lookup h' q = Some (File j)))"
proof -
  have S: "path_ok (root_dir \<lparr>root_dir = root\<rparr>)" using root by simp
  note sound = store_blob_sound [OF H store_invD(1) [OF inv] S unused store_invD(3) [OF inv] st]
  note E = store_blob_entries [OF st store_invD(1) [OF inv] H unused]
  have reg: "lookup h' q = lookup h q" if "registry_path root q" for q
    using E [of q] that stage_not_registry blob_path_not_registry [OF hex_digest_format [OF H]] by blast
  have "plain h' q" if "store_area root q" for q
    using E [of q] store_invD(2) [OF inv that] unfolding plain_def by auto
  moreover have "p = q" if "registry_path root q" "lookup h' q = Some (File i)" "lookup h' p = Some (File i)" for q p i
  proof -
    have q: "lookup h q = Some (File i)" using reg [OF that(1)] that(2) by simp
    then have "i \<noteq> next_ino h" using staged_fresh [OF store_invD(1) [OF inv]] by blast
    then have "lookup h p = Some (File i)" using E [of p] that(3) by auto
    then show ?thesis using store_invD(4) [OF inv that(1) q] by blast
  qed
  ultimately have "store_inv H root h'" using sound unfolding store_inv_def by blast
  moreover have "\<exists>j. lookup h' q = Some (File j)" if "lookup h q = Some (File i)" for q i using E [of q] that by auto
  ultimately show ?thesis by blast
qed

section \<open>The daemon's calls\<close>

lemma answer_effect:
  assumes "answer_message env ctx m h = Some (r, h')"
  shows "service_effect ctx h h'"
  using assms model1_effect
  by (fastforce simp: answer_message_def dispatch_call_def split: sum.splits option.splits)

text \<open>
  The steps of a connection, between which its task awaits and other tasks run: a read, the answer to
  one message, or an end.
\<close>

inductive conn_step :: "server_env \<Rightarrow> service_context \<Rightarrow> connection \<Rightarrow> conn_end \<times> connection \<Rightarrow> bool" for env ctx where
  Receive: "bs \<noteq> [] \<Longrightarrow> split_once (CHR 0x00) (cn_buffer c) = None \<Longrightarrow> length (cn_buffer c @ bs) \<le> MAX_MSG_BYTES \<Longrightarrow>
    conn_step env ctx c (Conn_Open, c\<lparr>cn_buffer := cn_buffer c @ bs\<rparr>)"
| Overflow: "split_once (CHR 0x00) (cn_buffer c) = None \<Longrightarrow> c1 = c\<lparr>cn_buffer := cn_buffer c @ bs\<rparr> \<Longrightarrow>
    MAX_MSG_BYTES < length (cn_buffer c1) \<Longrightarrow>
    conn_step env ctx c (Conn_Closed, unwrap_or c1 (send_reply env too_long_reply c1))"
| Hang_Up: "split_once (CHR 0x00) (cn_buffer c) = None \<Longrightarrow> conn_step env ctx c (Conn_Closed, c)"
| Read_Fails: "split_once (CHR 0x00) (cn_buffer c) = None \<Longrightarrow> conn_step env ctx c (Conn_Failed e, c)"
| Answer: "split_once (CHR 0x00) (cn_buffer c) = Some (payload, rest) \<Longrightarrow>
    answer_message env ctx payload (cn_host c) = Some (r, h) \<Longrightarrow>
    send_reply env r (c\<lparr>cn_buffer := rest, cn_host := h\<rparr>) = Inr c' \<Longrightarrow> conn_step env ctx c (Conn_Open, c')"
| Answer_Lost: "split_once (CHR 0x00) (cn_buffer c) = Some (payload, rest) \<Longrightarrow>
    answer_message env ctx payload (cn_host c) = Some (r, h) \<Longrightarrow>
    send_reply env r (c\<lparr>cn_buffer := rest, cn_host := h\<rparr>) = Inl e \<Longrightarrow>
    conn_step env ctx c (Conn_Failed e, c\<lparr>cn_buffer := rest, cn_host := h\<rparr>)"
| Crash: "split_once (CHR 0x00) (cn_buffer c) = Some (payload, rest) \<Longrightarrow>
    answer_message env ctx payload (cn_host c) = None \<Longrightarrow>
    conn_step env ctx c (Daemon_Down, c\<lparr>cn_buffer := rest\<rparr>)"

inductive_cases conn_stepE: "conn_step env ctx c (e, c')"

definition conn_steps :: "server_env \<Rightarrow> service_context \<Rightarrow> connection \<Rightarrow> connection \<Rightarrow> bool" where
  "conn_steps env ctx = (\<lambda>a b. conn_step env ctx a (Conn_Open, b))\<^sup>*\<^sup>*"

text \<open>A run of steps that ends the connection with \<open>e\<close>, or leaves it open.\<close>

definition conn_run :: "server_env \<Rightarrow> service_context \<Rightarrow> connection \<Rightarrow> conn_end \<times> connection \<Rightarrow> bool" where
  "conn_run env ctx c r = (if fst r = Conn_Open then conn_steps env ctx c (snd r)
     else (\<exists>c1. conn_steps env ctx c c1 \<and> conn_step env ctx c1 r))"

lemma conn_run_open [simp]: "conn_run env ctx c (Conn_Open, c)"
  by (simp add: conn_run_def conn_steps_def)

lemma conn_run_step: "conn_step env ctx c r \<Longrightarrow> conn_run env ctx c r"
  by (cases r) (auto simp: conn_run_def conn_steps_def)

lemma conn_run_cons: "conn_step env ctx c (Conn_Open, c1) \<Longrightarrow> conn_run env ctx c1 r \<Longrightarrow> conn_run env ctx c r"
  unfolding conn_run_def conn_steps_def
  by (auto split: if_splits intro: converse_rtranclp_into_rtranclp)

lemma conn_run_append: "conn_run env ctx c (Conn_Open, c1) \<Longrightarrow> conn_run env ctx c1 r \<Longrightarrow> conn_run env ctx c r"
  unfolding conn_run_def conn_steps_def by (auto split: if_splits intro: rtranclp_trans)

lemma drain_run: "conn_run env ctx c (drain_messages env ctx c)"
proof (induction env ctx c rule: drain_messages.induct)
  case (1 env ctx c)
  show ?case
  proof (cases "split_once (CHR 0x00) (cn_buffer c)")
    case None
    then show ?thesis by (simp add: drain_messages.simps [of env ctx c])
  next
    case (Some pr)
    then obtain payload rest where s: "split_once (CHR 0x00) (cn_buffer c) = Some (payload, rest)" by (cases pr) auto
    show ?thesis
    proof (cases "answer_message env ctx payload (cn_host c)")
      case None
      from conn_run_step [OF conn_step.Crash [OF s None]] show ?thesis
        by (simp add: drain_messages.simps [of env ctx c] s None)
    next
      case (Some rh)
      then obtain r h where r: "answer_message env ctx payload (cn_host c) = Some (r, h)" by (cases rh) auto
      show ?thesis
      proof (cases "send_reply env r (c\<lparr>cn_buffer := rest, cn_host := h\<rparr>)")
        case (Inl x)
        from conn_run_step [OF conn_step.Answer_Lost [OF s r Inl]] show ?thesis
          by (simp add: drain_messages.simps [of env ctx c] s r Inl)
      next
        case (Inr c1)
        from conn_run_cons [OF conn_step.Answer [OF s r Inr] "1.IH" [OF s refl r refl Inr]] show ?thesis
          by (simp add: drain_messages.simps [of env ctx c] s r Inr)
      qed
    qed
  qed
qed

lemma drain_drained: "drain_messages env ctx c = (Conn_Open, c') \<Longrightarrow> split_once (CHR 0x00) (cn_buffer c') = None"
proof (induction env ctx c rule: drain_messages.induct)
  case (1 env ctx c)
  show ?case
  proof (cases "split_once (CHR 0x00) (cn_buffer c)")
    case None
    then show ?thesis using "1.prems" by (simp add: drain_messages.simps [of env ctx c])
  next
    case (Some pr)
    then obtain payload rest where s: "split_once (CHR 0x00) (cn_buffer c) = Some (payload, rest)" by (cases pr) auto
    with "1.prems" obtain r h where r: "answer_message env ctx payload (cn_host c) = Some (r, h)"
      by (cases "answer_message env ctx payload (cn_host c)") (auto simp: drain_messages.simps [of env ctx c])
    with "1.prems" s obtain c1 where c1: "send_reply env r (c\<lparr>cn_buffer := rest, cn_host := h\<rparr>) = Inr c1"
      by (cases "send_reply env r (c\<lparr>cn_buffer := rest, cn_host := h\<rparr>)") (auto simp: drain_messages.simps [of env ctx c])
    have "drain_messages env ctx c1 = (Conn_Open, c')" using "1.prems" s r c1 by (simp add: drain_messages.simps [of env ctx c])
    then show ?thesis by (rule "1.IH" [OF s refl r refl c1])
  qed
qed

lemma receive_run:
  assumes "bs \<noteq> []" and "split_once (CHR 0x00) (cn_buffer c) = None"
  shows "conn_run env ctx c (receive_bytes env ctx bs c)"
proof (cases "MAX_MSG_BYTES < length (cn_buffer c @ bs)")
  case True
  then show ?thesis
    using conn_run_step [OF conn_step.Overflow [OF assms(2) refl, of bs env ctx]] by (simp add: receive_bytes_def Let_def)
next
  case False
  then have "length (cn_buffer c @ bs) \<le> MAX_MSG_BYTES" by simp
  from conn_run_cons [OF conn_step.Receive [OF assms this] drain_run] False show ?thesis
    by (simp add: receive_bytes_def Let_def)
qed

lemma client_run:
  "split_once (CHR 0x00) (cn_buffer c) = None \<Longrightarrow> conn_run env ctx c (handle_varlink_client env ctx es c)"
proof (induction env ctx es c rule: handle_varlink_client.induct)
  case (4 env ctx bs es c)
  show ?case
  proof (cases "bs = []")
    case True
    then show ?thesis using conn_run_step [OF conn_step.Hang_Up [OF "4.prems"]] by simp
  next
    case False
    obtain e1 c1 where r: "receive_bytes env ctx bs c = (e1, c1)" by fastforce
    note run = receive_run [OF False "4.prems", of env ctx, unfolded r]
    show ?thesis
    proof (cases "e1 = Conn_Open")
      case True
      then have "split_once (CHR 0x00) (cn_buffer c1) = None"
        using r drain_drained by (auto simp: receive_bytes_def Let_def split: if_splits)
      from conn_run_append [OF run [unfolded True] "4.IH" [OF False r [symmetric] True this]] show ?thesis
        using False r True by simp
    next
      case e1: False
      then have "handle_varlink_client env ctx (Readable bs # es) c = (e1, c1)" using False r by (cases e1) auto
      with run show ?thesis by simp
    qed
  qed
qed (auto intro: conn_run_step conn_step.intros)

lemma conn_step_effect: "conn_step env ctx c (e, c') \<Longrightarrow> service_effect ctx (cn_host c) (cn_host c')"
  by (erule conn_stepE) (auto simp: send_reply_def dest: answer_effect split: option.splits)

section \<open>The system\<close>

record daemon_state =
  ds_host :: host
  ds_clients :: "nat \<Rightarrow> connection option"
  ds_handed :: "(memfd \<times> bytes) list"

text \<open>Reads cut a file into non-empty pieces.\<close>

definition chunks_ok :: "fd_env \<Rightarrow> bool" where
  "chunks_ok env = (\<forall>bs. concat (fe_chunks env bs) = bs \<and> [] \<notin> set (fe_chunks env bs))"

definition handed_list :: "fd_outcome \<Rightarrow> (memfd \<times> bytes) list" where
  "handed_list r = (case fo_handed r of None \<Rightarrow> [] | Some x \<Rightarrow> [x])"

inductive daemon_step :: "'h hasher \<Rightarrow> service_context \<Rightarrow> trusted_group_config \<Rightarrow> daemon_state \<Rightarrow> daemon_state \<Rightarrow> bool"
  for H ctx policy where
  Connect: "ds_clients s i = None \<Longrightarrow>
    daemon_step H ctx policy s (s\<lparr>ds_clients := (ds_clients s)(i \<mapsto> new_connection (ds_host s))\<rparr>)"
| Client: "ds_clients s i = Some c \<Longrightarrow> conn_step env ctx (c\<lparr>cn_host := ds_host s\<rparr>) (Conn_Open, c') \<Longrightarrow>
    daemon_step H ctx policy s (s\<lparr>ds_host := cn_host c', ds_clients := (ds_clients s)(i \<mapsto> c')\<rparr>)"
| Client_Ends: "ds_clients s i = Some c \<Longrightarrow> conn_step env ctx (c\<lparr>cn_host := ds_host s\<rparr>) (e, c') \<Longrightarrow>
    e \<noteq> Conn_Open \<Longrightarrow> e \<noteq> Daemon_Down \<Longrightarrow>
    daemon_step H ctx policy s (s\<lparr>ds_host := cn_host c', ds_clients := (ds_clients s)(i := None)\<rparr>)"
| Down: "ds_clients s i = Some c \<Longrightarrow> conn_step env ctx (c\<lparr>cn_host := ds_host s\<rparr>) (Daemon_Down, c') \<Longrightarrow>
    daemon_step H ctx policy s (s\<lparr>ds_host := cn_host c', ds_clients := (\<lambda>i. None)\<rparr>)"
| Request: "chunks_ok env \<Longrightarrow> r = handle_fd_request env (ctx_cas ctx) (ctx_tags ctx) policy (ds_host s) es \<Longrightarrow>
    daemon_step H ctx policy s (s\<lparr>ds_handed := ds_handed s @ handed_list r\<rparr>)"
| Import: "h = (ds_host s)\<lparr>pid := p, stage_counter := n\<rparr> \<Longrightarrow> lookup h (stage_path (ctx_cas ctx) h) = None \<Longrightarrow>
    store_blob H (ctx_cas ctx) rs expected h = (r, h') \<Longrightarrow> daemon_step H ctx policy s (s\<lparr>ds_host := h'\<rparr>)"
| Kernel: "daemon_step H ctx policy s (s\<lparr>ds_host := (ds_host s)\<lparr>fault := f, now := t\<rparr>\<rparr>)"

text \<open>What was handed over: four seals, and the bytes the reply names.\<close>

definition delivered :: "'h hasher \<Rightarrow> memfd \<times> bytes \<Rightarrow> bool" where
  "delivered H = (\<lambda>(m, payload). set (mf_seals m) = {Seal_Write, Seal_Shrink, Seal_Grow, Seal_Seal} \<and>
     (\<exists>J ident d. payload = fd_payload J ident d (length (mf_data m) mod 2 ^ 64) \<and>
        (is_digest_format d \<longrightarrow> hex_digest H (mf_data m) = d)))"

definition daemon_inv :: "'h hasher \<Rightarrow> path \<Rightarrow> daemon_state \<Rightarrow> bool" where
  "daemon_inv H root s = (store_inv H root (ds_host s) \<and> (\<forall>x \<in> set (ds_handed s). delivered H x))"

lemma store_inv_process:
  "store_inv H root h \<Longrightarrow> store_inv H root (h\<lparr>pid := p, stage_counter := n\<rparr>)"
  "store_inv H root h \<Longrightarrow> store_inv H root (h\<lparr>fault := f, now := t\<rparr>)"
proof -
  have fs: "fs_ok h \<Longrightarrow> fs_ok (h\<lparr>pid := p, stage_counter := n\<rparr>)" "fs_ok h \<Longrightarrow> fs_ok (h\<lparr>fault := f, now := t\<rparr>)"
    by (erule fs_ok_mono; simp)+
  have look: "lookup (h\<lparr>pid := p, stage_counter := n\<rparr>) q = lookup h q" "lookup (h\<lparr>fault := f, now := t\<rparr>) q = lookup h q"
    "inode (h\<lparr>pid := p, stage_counter := n\<rparr>) j = inode h j" "inode (h\<lparr>fault := f, now := t\<rparr>) j = inode h j" for q j
    by (simp_all add: lookup_def inode_def)
  show "store_inv H root h \<Longrightarrow> store_inv H root (h\<lparr>pid := p, stage_counter := n\<rparr>)"
    "store_inv H root h \<Longrightarrow> store_inv H root (h\<lparr>fault := f, now := t\<rparr>)"
    using fs by (simp_all add: store_inv_def cas_sound_def plain_def look)
qed

lemma request_delivers:
  assumes inv: "store_inv H root h" and ctx: "over_root ctx root" and ch: "chunks_ok env"
  shows "\<forall>x \<in> set (handed_list (handle_fd_request env (ctx_cas ctx) (ctx_tags ctx) policy h es)). delivered H x"
proof (cases "fo_handed (handle_fd_request env (ctx_cas ctx) (ctx_tags ctx) policy h es)")
  case None
  then show ?thesis by (simp add: handed_list_def)
next
  case (Some x)
  obtain m payload where x: "x = (m, payload)" by (cases x)
  have "cas_sound H (ctx_cas ctx) h" using store_invD(3) [OF inv] ctx by (simp add: over_root_def)
  moreover have "plain h p" if "is_digest_format d" "p \<in> blob_paths (ctx_cas ctx) d" for d p
    using store_invD(2) [OF inv] blob_path_not_registry [OF that(1)] that(2) ctx by (simp add: over_root_def)
  moreover have "concat (fe_chunks env bs) = bs" "[] \<notin> set (fe_chunks env bs)" for bs using ch by (simp_all add: chunks_ok_def)
  ultimately obtain request d where "payload = fd_payload (fe_json env) (opt_or (get_str request ''id'') []) d
        (length (mf_data m) mod 2 ^ 64)" "set (mf_seals m) = {Seal_Write, Seal_Shrink, Seal_Grow, Seal_Seal}"
      "is_digest_format d \<longrightarrow> hex_digest H (mf_data m) = d"
    using handed_sound [OF _ _ _ _ Some [unfolded x], of H] by blast
  then have "delivered H x" unfolding delivered_def x by blast
  then show ?thesis using Some by (simp add: handed_list_def)
qed

lemma daemon_step_inv:
  assumes H: "sha256_contract H" and ctx: "over_root ctx root" and inv: "daemon_inv H root s"
    and step: "daemon_step H ctx policy s s'"
  shows "daemon_inv H root s'"
  using step
proof cases
  case (Request env r es)
  then show ?thesis
    using inv request_delivers [OF _ ctx Request(2), of H "ds_host s" policy es] by (auto simp: daemon_inv_def)
next
  case (Import h n p rs expected r h')
  have "store_inv H root h" using inv store_inv_process(1) [of H root "ds_host s"] Import(2) by (simp add: daemon_inv_def)
  moreover have "ctx_cas ctx = \<lparr>root_dir = root\<rparr>" "path_ok root" using ctx by (simp_all add: over_root_def)
  ultimately have "store_inv H root h'"
    using store_blob_keeps [OF H, of root h rs expected r h'] Import(3,4) by simp
  then show ?thesis using inv Import(1) by (simp add: daemon_inv_def)
next
  case (Client i c env c')
  have "store_inv H root (cn_host c')"
    using service_effect_keeps [OF _ ctx conn_step_effect [OF Client(3)], of H] inv by (simp add: daemon_inv_def)
  then show ?thesis using inv Client(1) by (simp add: daemon_inv_def)
next
  case (Client_Ends i c env e c')
  have "store_inv H root (cn_host c')"
    using service_effect_keeps [OF _ ctx conn_step_effect [OF Client_Ends(3)], of H] inv by (simp add: daemon_inv_def)
  then show ?thesis using inv Client_Ends(1) by (simp add: daemon_inv_def)
next
  case (Down i c env c')
  have "store_inv H root (cn_host c')"
    using service_effect_keeps [OF _ ctx conn_step_effect [OF Down(3)], of H] inv by (simp add: daemon_inv_def)
  then show ?thesis using inv Down(1) by (simp add: daemon_inv_def)
qed (use inv store_inv_process(2) [of H root "ds_host s"] in \<open>simp_all add: daemon_inv_def\<close>)

text \<open>A run starts idle, on a store in order.\<close>

definition daemon_init :: "'h hasher \<Rightarrow> service_context \<Rightarrow> path \<Rightarrow> daemon_state \<Rightarrow> bool" where
  "daemon_init H ctx root s = (store_inv H root (ds_host s) \<and> ds_clients s = (\<lambda>i. None) \<and> ds_handed s = [])"

text \<open>The parameters of a system: a hash function that keeps its contract, registries over one root.\<close>

definition system_ok :: "'h hasher \<Rightarrow> service_context \<Rightarrow> path \<Rightarrow> bool" where
  "system_ok H ctx root = (sha256_contract H \<and> over_root ctx root)"

interpretation system: invariant_system "daemon_init H ctx root" "\<lambda>s s'. system_ok H ctx root \<and> daemon_step H ctx policy s s'"
  "daemon_inv H root" for H :: "'h hasher" and ctx root policy
proof
  show "daemon_init H ctx root s \<Longrightarrow> daemon_inv H root s" for s by (simp add: daemon_init_def daemon_inv_def)
  show "daemon_inv H root s \<Longrightarrow> system_ok H ctx root \<and> daemon_step H ctx policy s s' \<Longrightarrow> daemon_inv H root s'" for s s'
    using daemon_step_inv [of H ctx root s policy s'] by (simp add: system_ok_def)
qed

section \<open>A fresh start\<close>

definition idle :: "host \<Rightarrow> daemon_state" where
  "idle h = \<lparr>ds_host = h, ds_clients = (\<lambda>i. None), ds_handed = []\<rparr>"

text \<open>An empty storage directory, or none yet.\<close>

definition fresh_root :: "path \<Rightarrow> host \<Rightarrow> bool" where
  "fresh_root root h = (fs_ok h \<and> path_ok root \<and> plain h root \<and> (\<forall>p. prefix root p \<longrightarrow> p \<noteq> root \<longrightarrow> lookup h p = None))"

lemma open_storage_fs_ok:
  assumes "open_storage root h = (Ok ctx, h')" and "fs_ok h" and "path_ok root"
  shows "fs_ok h'"
proof -
  have p: "path_ok (blobs_dir \<lparr>root_dir = root\<rparr>)" "path_ok (incoming_dir \<lparr>root_dir = root\<rparr>)"
    "path_ok (join root ''tags'')" "path_ok (join root ''pinned'')"
    using assms(3) by (simp_all add: blobs_dir_def incoming_dir_def path_ok_join)
  obtain r1 h1 where 1: "create_dir_all (blobs_dir \<lparr>root_dir = root\<rparr>) h = (r1, h1)" by fastforce
  obtain r2 h2 where 2: "create_dir_all (incoming_dir \<lparr>root_dir = root\<rparr>) h1 = (r2, h2)" by fastforce
  obtain r3 h3 where 3: "create_dir_all (join root ''tags'') h2 = (r3, h3)" by fastforce
  obtain r4 h4 where 4: "create_dir_all (join root ''pinned'') h3 = (r4, h4)" by fastforce
  note ok1 = create_dir_all_fs_ok [OF 1 assms(2) p(1)]
  note ok2 = create_dir_all_fs_ok [OF 2 ok1 p(2)]
  note ok3 = create_dir_all_fs_ok [OF 3 ok2 p(3)]
  note ok4 = create_dir_all_fs_ok [OF 4 ok3 p(4)]
  have "h' = h4"
    using assms(1) 1 2 3 4
    by (auto simp: open_storage_def CasStore_new_def TagRegistry_new_def EvictionManager_new_def Let_def
        split: sum.splits prod.splits)
  then show ?thesis using ok4 by simp
qed

lemma adds_dirs_below:
  "adds_dirs q h h' \<Longrightarrow> \<forall>p nd. prefix root p \<longrightarrow> p \<noteq> root \<longrightarrow> lookup h p = Some nd \<longrightarrow> nd = Dir \<Longrightarrow>
   \<forall>p nd. prefix root p \<longrightarrow> p \<noteq> root \<longrightarrow> lookup h' p = Some nd \<longrightarrow> nd = Dir"
  unfolding adds_dirs_def by (metis option.inject)

lemma fresh_store_inv:
  assumes "fresh_root root h" and "open_storage root h = (Ok ctx, h')"
  shows "over_root ctx root \<and> store_inv H root h'"
proof -
  note O = open_storage_Ok [OF assms(2)]
  have ok: "fs_ok h" "path_ok root" using assms(1) by (simp_all add: fresh_root_def)
  obtain p1 p2 p3 p4 h1 h2 h3 where d: "adds_dirs p1 h h1" "adds_dirs p2 h1 h2" "adds_dirs p3 h2 h3" "adds_dirs p4 h3 h'"
    using O by blast
  have "\<forall>p nd. prefix root p \<longrightarrow> p \<noteq> root \<longrightarrow> lookup h p = Some nd \<longrightarrow> nd = Dir"
    using assms(1) by (simp add: fresh_root_def)
  note below = adds_dirs_below [OF d(4) adds_dirs_below [OF d(3) adds_dirs_below [OF d(2) adds_dirs_below [OF d(1) this]]]]
  have "plain h' root"
    using assms(1) adds_dirs_plain [OF d(1)] adds_dirs_plain [OF d(2)] adds_dirs_plain [OF d(3)] adds_dirs_plain [OF d(4)]
    by (simp add: fresh_root_def)
  then have "plain h' p" if "store_area root p" for p
    using below area_prefix [OF that] by (cases "p = root") (auto simp: plain_def)
  moreover have nofile: "lookup h' p \<noteq> Some (File i)" if "prefix root p" "p \<noteq> root" for p i
    using below that by blast
  moreover have "cas_sound H \<lparr>root_dir = root\<rparr> h'"
    unfolding cas_sound_def
  proof (intro allI impI)
    fix d p j assume d: "is_digest_format d" "p \<in> blob_paths \<lparr>root_dir = root\<rparr> d" and l: "lookup h' p = Some (File j)"
    then have "p \<noteq> root" by (auto simp: blob_paths_eq)
    with nofile [of p j] l area_prefix [OF conjunct1 [OF blob_path_not_registry [OF d]]] show "hex_digest H (content (inode h' j)) = d" by blast
  qed
  moreover have "registry_path root q \<Longrightarrow> lookup h' q \<noteq> Some (File i)" for q i
  proof -
    assume q: "registry_path root q"
    then have "q \<noteq> root" by (auto simp: registry_path_def prefix_def)
    then show "lookup h' q \<noteq> Some (File i)" using nofile area_prefix [OF registry_area [OF q]] by blast
  qed
  ultimately have "store_inv H root h'" using open_storage_fs_ok [OF assms(2) ok] unfolding store_inv_def by blast
  then show ?thesis using O ok(2) by (simp add: over_root_def)
qed

section \<open>A small system\<close>

definition empty_host :: host where
  "empty_host = plain_host [([''m''], Dir)] []"

lemma empty_host_fresh: "fresh_root [''m''] empty_host"
proof -
  have "fs_ok empty_host" "path_ok [''m'']" by code_simp+
  moreover have "lookup empty_host p = None" if "prefix [''m''] p" "p \<noteq> [''m'']" for p
    using that by (auto simp: lookup_def empty_host_def plain_host_def prefix_def)
  ultimately show ?thesis by (auto simp: fresh_root_def plain_def lookup_def empty_host_def plain_host_def)
qed

definition pinned_host :: host where
  "pinned_host = plain_host (([''m'', ''tags''], Dir) # ([''m'', ''pinned''], Dir) #
     ([''m'', ''cas'', ''blobs'', ''sha256'', hex_digest demo_hasher ''abc''], File 0) #
     ([''m'', ''pinned'', hex_digest demo_hasher ''abc''], File 1) # demo_dirs)
     [(0, \<lparr>content = ''abc'', mtime = 0\<rparr>), (1, \<lparr>content = [], mtime = 0\<rparr>)]"

definition system_context :: service_context where
  "system_context = \<lparr>ctx_cas = demo_store, ctx_tags = \<lparr>tags_dir = [''m'', ''tags'']\<rparr>,
     ctx_eviction = \<lparr>pinned_dir = [''m'', ''pinned'']\<rparr>\<rparr>"

lemma pinned_host_files:
  "lookup pinned_host q = Some (File i) \<Longrightarrow>
     q = [''m'', ''cas'', ''blobs'', ''sha256'', hex_digest demo_hasher ''abc''] \<and> i = 0 \<or>
     q = [''m'', ''pinned'', hex_digest demo_hasher ''abc''] \<and> i = 1"
  by (auto simp: lookup_def pinned_host_def plain_host_def demo_dirs_def split: if_splits)

lemma pinned_host_inv: "store_inv demo_hasher [''m''] pinned_host"
proof -
  have "fs_ok pinned_host" by code_simp
  moreover have "plain pinned_host p" for p
    by (auto simp: plain_def lookup_def pinned_host_def plain_host_def demo_dirs_def split: if_splits)
  moreover have "cas_sound demo_hasher \<lparr>root_dir = [''m'']\<rparr> pinned_host"
    unfolding cas_sound_def
  proof (intro allI impI)
    fix d p j
    assume d: "is_digest_format d" and p: "p \<in> blob_paths \<lparr>root_dir = [''m'']\<rparr> d" "lookup pinned_host p = Some (File j)"
    from pinned_host_files [OF p(2)] p(1) have "d = hex_digest demo_hasher ''abc'' \<and> j = 0" by (auto simp: blob_paths_eq [OF d])
    then show "hex_digest demo_hasher (content (inode pinned_host j)) = d"
      by (simp add: pinned_host_def plain_host_def inode_def)
  qed
  moreover have "p = q" if "lookup pinned_host q = Some (File i)" "lookup pinned_host p = Some (File i)" for p q i
    using pinned_host_files [OF that(1)] pinned_host_files [OF that(2)] by auto
  ultimately show ?thesis unfolding store_inv_def by blast
qed

lemma system_context_ok: "system_ok demo_hasher system_context [''m'']"
  by (simp add: system_ok_def demo_hasher_contract over_root_def system_context_def demo_store_def path_ok_def is_segment_def)

text \<open>A step leaves the blob of a pinned digest in place.\<close>

lemma daemon_step_keeps_pinned:
  assumes sys: "system_ok H ctx root" and inv: "daemon_inv H root t" and step: "daemon_step H ctx policy t t'"
    and d: "is_digest_format d" "p \<in> blob_paths (ctx_cas ctx) d" and pin: "is_pinned (ctx_eviction ctx) (ds_host t) d"
    and f: "\<exists>i. lookup (ds_host t) p = Some (File i)"
  shows "\<exists>j. lookup (ds_host t') p = Some (File j)"
proof -
  have ctx: "over_root ctx root" and H: "sha256_contract H" using sys by (simp_all add: system_ok_def)
  have inv': "store_inv H root (ds_host t)" using inv by (simp add: daemon_inv_def)
  have call: "\<exists>j. lookup h' p = Some (File j)" if "service_effect ctx (ds_host t) h'" for h'
    using service_effect_keeps [OF inv' ctx that] pin f d unfolding keeps_pinned_def by blast
  show ?thesis
    using step
  proof cases
    case (Import h n c rs expected r h')
    have "store_inv H root h" using inv' store_inv_process(1) [of H root "ds_host t"] Import(2) by simp
    moreover have "lookup h p = lookup (ds_host t) p" by (simp add: Import(2) lookup_def)
    ultimately show ?thesis
      using store_blob_keeps [OF H, of root h rs expected r h'] Import(1,3,4) ctx f by (auto simp: over_root_def)
  next
    case (Client i c env c')
    then show ?thesis using call [of "cn_host c'"] conn_step_effect [OF Client(3)] by simp
  next
    case (Client_Ends i c env e c')
    then show ?thesis using call [of "cn_host c'"] conn_step_effect [OF Client_Ends(3)] by simp
  next
    case (Down i c env c')
    then show ?thesis using call [of "cn_host c'"] conn_step_effect [OF Down(3)] by simp
  next
    case (Kernel now' fl)
    moreover have "lookup ((ds_host t)\<lparr>fault := fl, now := now'\<rparr>) p = lookup (ds_host t) p" by (simp add: lookup_def)
    ultimately show ?thesis using f by simp
  qed (use f in simp_all)
qed

text \<open>In the directories of the store, what can be read is what the entry of that name holds.\<close>

lemma stored_contents:
  "store_inv H root h \<Longrightarrow> store_area root p \<Longrightarrow>
   contents h p = Some bs \<longleftrightarrow> (\<exists>i. lookup h p = Some (File i) \<and> bs = content (inode h i))"
  using store_invD(2) [of H root h p] stat_plain [of h p] by (auto simp: contents_def split: option.splits node.splits)

section \<open>Properties\<close>

text \<open>
  Integrity of the running system.  From a start on an empty storage directory, under any
  interleaving of client connections, service calls, handed-over descriptors, blobs stored by other
  processes, and calls the kernel refuses: in every state that is reached, what lies under a digest
  hashes to it, the file system is well formed, no tag or pin shares a file with a blob, and every
  descriptor handed over so far carries four seals and the bytes of the digest its reply names.
\<close>

theorem daemon_integrity:
  assumes "sha256_contract H" and "fresh_root root h0" and "open_storage root h0 = (Ok ctx, h)"
    and "(daemon_step H ctx policy)\<^sup>*\<^sup>* (idle h) s"
  shows "cas_sound H (ctx_cas ctx) (ds_host s) \<and> store_inv H root (ds_host s) \<and> (\<forall>x \<in> set (ds_handed s). delivered H x)"
proof -
  note F = fresh_store_inv [OF assms(2,3), of H]
  then have ok: "system_ok H ctx root" using assms(1) by (simp add: system_ok_def)
  have "daemon_init H ctx root (idle h)" using F by (simp add: daemon_init_def idle_def)
  moreover have "(\<lambda>s s'. system_ok H ctx root \<and> daemon_step H ctx policy s s')\<^sup>*\<^sup>* (idle h) s" using assms(4) ok by simp
  ultimately have "daemon_inv H root s" by (rule system.reachable_inv)
  then show ?thesis using F store_invD(3) [of H root "ds_host s"] by (simp add: daemon_inv_def over_root_def)
qed

theorem daemon_integrity_witness:
  "\<exists>ctx h (s :: daemon_state). open_storage [''m''] empty_host = (Ok ctx, h) \<and> ds_clients s 0 \<noteq> None \<and>
     cas_sound demo_hasher (ctx_cas ctx) (ds_host s)"
proof -
  have "is_ok (fst (open_storage [''m''] empty_host))" by code_simp
  then obtain ctx where "fst (open_storage [''m''] empty_host) = Ok ctx" by (auto simp: is_ok_iff)
  then obtain h where st: "open_storage [''m''] empty_host = (Ok ctx, h)" by (metis prod.collapse)
  define s where "s = (idle h)\<lparr>ds_clients := (ds_clients (idle h))(0 \<mapsto> new_connection (ds_host (idle h)))\<rparr>"
  have "daemon_step demo_hasher ctx handoff_policy (idle h) s"
    unfolding s_def by (rule daemon_step.Connect) (simp add: idle_def)
  then have "(daemon_step demo_hasher ctx handoff_policy)\<^sup>*\<^sup>* (idle h) s" by blast
  from daemon_integrity [OF demo_hasher_contract empty_host_fresh st this]
  have "cas_sound demo_hasher (ctx_cas ctx) (ds_host s)" by blast
  moreover have "ds_clients s 0 \<noteq> None" by (simp add: s_def)
  ultimately show ?thesis using st by blast
qed



text \<open>
  Refinement.  The connection loop is a run of the single steps of the system: whatever events a
  client produces, the loop takes the steps \<open>conn_step\<close> one after the other, one answer to one message
  at a time, and ends as the last of them ends.
\<close>

theorem client_loop_refines:
  "conn_run env ctx (new_connection h) (handle_varlink_client env ctx es (new_connection h))"
  by (rule client_run) (simp add: new_connection_def)

end
