(* ===== verification/Model_Select.thy ===== *)
theory Model_Select
  imports Topology
begin

text \<open>
  What a pull is asked for: the built-in aliases (\<^verbatim>\<open>pull/resolve/alias.rs\<close>) and the choice of a file and of
  a tag (\<^verbatim>\<open>pull/resolve/select.rs\<close>).  Slicing a string out of range or inside a character panics: the
  result of a function that slices is an option, \<open>None\<close> the panic.
\<close>

section \<open>Aliases\<close>

record model_alias =
  al_alias :: string
  al_repo :: string
  al_file :: string
  al_name :: string
  al_tag :: string

definition ALIASES :: "model_alias list" where
  "ALIASES =
    [\<lparr>al_alias = ''qwen2.5:0.5b'', al_repo = ''Qwen/Qwen2.5-0.5B-Instruct-GGUF'',
      al_file = ''qwen2.5-0.5b-instruct-q4_k_m.gguf'', al_name = ''qwen2.5'', al_tag = ''0.5b''\<rparr>,
     \<lparr>al_alias = ''qwen2.5:1.5b'', al_repo = ''Qwen/Qwen2.5-1.5B-Instruct-GGUF'',
      al_file = ''qwen2.5-1.5b-instruct-q4_k_m.gguf'', al_name = ''qwen2.5'', al_tag = ''1.5b''\<rparr>,
     \<lparr>al_alias = ''llama3.2:1b'', al_repo = ''bartowski/Llama-3.2-1B-Instruct-GGUF'',
      al_file = ''Llama-3.2-1B-Instruct-Q4_K_M.gguf'', al_name = ''llama3.2'', al_tag = ''1b''\<rparr>,
     \<lparr>al_alias = ''smollm2:360m'', al_repo = ''HuggingFaceTB/SmolLM2-360M-Instruct-GGUF'',
      al_file = ''smollm2-360m-instruct-q4_k_m.gguf'', al_name = ''smollm2'', al_tag = ''360m''\<rparr>,
     \<lparr>al_alias = ''gemma4:e2b'', al_repo = ''bartowski/gemma-2-2b-it-GGUF'',
      al_file = ''gemma-2-2b-it-Q4_K_M.gguf'', al_name = ''gemma4'', al_tag = ''e2b''\<rparr>,
     \<lparr>al_alias = ''qwen2.5-coder:1.5b'', al_repo = ''Qwen/Qwen2.5-Coder-1.5B-Instruct-GGUF'',
      al_file = ''qwen2.5-coder-1.5b-instruct-q4_k_m.gguf'', al_name = ''qwen2.5-coder'', al_tag = ''1.5b''\<rparr>,
     \<lparr>al_alias = ''qwen2.5-coder:7b'', al_repo = ''Qwen/Qwen2.5-Coder-7B-Instruct-GGUF'',
      al_file = ''qwen2.5-coder-7b-instruct-q4_k_m.gguf'', al_name = ''qwen2.5-coder'', al_tag = ''7b''\<rparr>]"

definition find_alias :: "string \<Rightarrow> model_alias option" where
  "find_alias spec = find (\<lambda>a. eq_ignore_ascii_case (al_alias a) spec) ALIASES"

section \<open>Tags\<close>

definition parse_tag_override :: "string \<Rightarrow> string \<Rightarrow> string option \<Rightarrow> string \<times> string" where
  "parse_tag_override default_name default_tag override_str =
     (case override_str of
        None \<Rightarrow> (default_name, default_tag)
      | Some t0 \<Rightarrow>
          (let t = trim t0 in
           case split_once (CHR '':'') t of
             Some (n, v) \<Rightarrow>
               (if trim n = [] then default_name else trim n, if trim v = [] then default_tag else trim v)
           | None \<Rightarrow> if t \<noteq> [] then (default_name, t) else (default_name, default_tag)))"

section \<open>Files\<close>

text \<open>\<open>str::find\<close>, and where a string may be sliced.\<close>

fun find_sub :: "string \<Rightarrow> string \<Rightarrow> nat option" where
  "find_sub p [] = (if p = [] then Some 0 else None)"
| "find_sub p (c # s) = (if starts_with (c # s) p then Some 0 else map_option Suc (find_sub p s))"

definition char_boundary :: "string \<Rightarrow> nat \<Rightarrow> bool" where
  "char_boundary s i = (i = 0 \<or> i = length s \<or> i < length s \<and> \<not> in_range 128 191 (s ! i))"

definition delims :: "char list" where "delims = [CHR ''-'', CHR ''_'', CHR ''.'']"

definition matches_quant_strict :: "string \<Rightarrow> string \<Rightarrow> bool" where
  "matches_quant_strict file_upper q_upper =
     (ends_with file_upper (''-'' @ q_upper @ ''.GGUF'') \<or> ends_with file_upper (''_'' @ q_upper @ ''.GGUF'') \<or>
      ends_with file_upper (''.'' @ q_upper @ ''.GGUF''))"

definition before_ok :: "string \<Rightarrow> nat \<Rightarrow> bool" where
  "before_ok s pos = (pos = 0 \<or> s ! (pos - 1) \<in> set delims)"

definition after_ok :: "string \<Rightarrow> nat \<Rightarrow> bool" where
  "after_ok s pos = (pos = length s \<or> s ! pos \<in> set delims)"

function delimited_loop :: "string \<Rightarrow> string \<Rightarrow> nat \<Rightarrow> bool option" where
  "delimited_loop file_upper q_upper search_idx =
     (if \<not> char_boundary file_upper search_idx then None
      else (case find_sub q_upper (drop search_idx file_upper) of
              None \<Rightarrow> Some False
            | Some pos \<Rightarrow>
                (let abs_pos = search_idx + pos; end_pos = abs_pos + length q_upper in
                 if before_ok file_upper abs_pos \<and> after_ok file_upper end_pos then Some True
                 else delimited_loop file_upper q_upper (abs_pos + 1))))"
  by pat_completeness auto
termination
  by (relation "measure (\<lambda>(f, q, i). length f + 1 - i)") (auto simp: char_boundary_def)

declare delimited_loop.simps [simp del]

text \<open>A \<open>BF16\<close> file is no \<open>F16\<close> file.\<close>

definition bf16_guard :: "string \<Rightarrow> string \<Rightarrow> bool" where
  "bf16_guard q_upper file_upper =
     (q_upper = ''F16'' \<and> contains_str file_upper ''BF16'' \<and> \<not> contains_str file_upper ''-F16'')"

definition matches_quant_delimited :: "string \<Rightarrow> string \<Rightarrow> bool option" where
  "matches_quant_delimited file_upper q_upper =
     (if bf16_guard q_upper file_upper then Some False else delimited_loop file_upper q_upper 0)"

definition matches_quant_loosely :: "string \<Rightarrow> string \<Rightarrow> bool" where
  "matches_quant_loosely file_upper q_upper =
     (if bf16_guard q_upper file_upper then False else contains_str file_upper q_upper)"

text \<open>\<open>Iterator::find\<close> with a predicate that may panic.\<close>

fun find_checked :: "('a \<Rightarrow> bool option) \<Rightarrow> 'a list \<Rightarrow> 'a option option" where
  "find_checked P [] = Some None"
| "find_checked P (x # xs) =
     (case P x of None \<Rightarrow> None | Some True \<Rightarrow> Some (Some x) | Some False \<Rightarrow> find_checked P xs)"

definition PREFERRED :: "string list" where
  "PREFERRED = [''Q4_K_M'', ''Q4_0'', ''Q8_0'', ''F16'']"

definition find_strict :: "string list \<Rightarrow> string \<Rightarrow> string option" where
  "find_strict files q_upper = find (\<lambda>f. matches_quant_strict (to_ascii_uppercase f) q_upper) files"

definition find_delimited :: "string list \<Rightarrow> string \<Rightarrow> string option option" where
  "find_delimited files q_upper = find_checked (\<lambda>f. matches_quant_delimited (to_ascii_uppercase f) q_upper) files"

text \<open>The two loops over the preferred quantizations.\<close>

fun first_strict :: "string list \<Rightarrow> string list \<Rightarrow> string option" where
  "first_strict files [] = None"
| "first_strict files (q # qs) = (case find_strict files q of Some f \<Rightarrow> Some f | None \<Rightarrow> first_strict files qs)"

fun first_delimited :: "string list \<Rightarrow> string list \<Rightarrow> string option option" where
  "first_delimited files [] = Some None"
| "first_delimited files (q # qs) =
     (case find_delimited files q of
        None \<Rightarrow> None
      | Some (Some f) \<Rightarrow> Some (Some f)
      | Some None \<Rightarrow> first_delimited files qs)"

fun join_with :: "string \<Rightarrow> string list \<Rightarrow> string" where
  "join_with sep [] = []"
| "join_with sep [s] = s"
| "join_with sep (s # t # ts) = s @ sep @ join_with sep (t # ts)"

definition no_quant_error :: "string \<Rightarrow> string list \<Rightarrow> string" where
  "no_quant_error q files = ''No file matching quantization '' @ [CHR 0x27] @ q @ [CHR 0x27] @
     '' found. Available: '' @ join_with '', '' files"

definition select_file :: "string list \<Rightarrow> string \<Rightarrow> string option \<Rightarrow> string anyhow option" where
  "select_file files format quant =
     (if files = [] then Some (Err ''No matching files found for selection'')
      else if format = ''safetensors'' then
        (case find (\<lambda>f. f = ''model.safetensors'') files of Some f \<Rightarrow> Some (Ok f) | None \<Rightarrow> Some (Ok (hd files)))
      else (case quant of
        Some q \<Rightarrow>
          (let q_upper = to_ascii_uppercase q in
           case find_strict files q_upper of
             Some f \<Rightarrow> Some (Ok f)
           | None \<Rightarrow>
               (case find_delimited files q_upper of
                  None \<Rightarrow> None
                | Some (Some f) \<Rightarrow> Some (Ok f)
                | Some None \<Rightarrow>
                    (case find (\<lambda>f. matches_quant_loosely (to_ascii_uppercase f) q_upper) files of
                       Some f \<Rightarrow> Some (Ok f)
                     | None \<Rightarrow> Some (Err (no_quant_error q files)))))
      | None \<Rightarrow>
          (case first_strict files PREFERRED of
             Some f \<Rightarrow> Some (Ok f)
           | None \<Rightarrow>
               (case first_delimited files PREFERRED of
                  None \<Rightarrow> None
                | Some (Some f) \<Rightarrow> Some (Ok f)
                | Some None \<Rightarrow> Some (Ok (hd files))))))"

definition select_gguf_file :: "string list \<Rightarrow> string option \<Rightarrow> string anyhow option" where
  "select_gguf_file files quant = select_file files ''gguf'' quant"

section \<open>Positions\<close>

lemma find_sub_Some:
  "find_sub p s = Some n \<Longrightarrow> n \<le> length s \<and> starts_with (drop n s) p \<and> (\<forall>m < n. \<not> starts_with (drop m s) p)"
proof (induction s arbitrary: n)
  case Nil
  then show ?case by (auto simp: starts_with_iff split: if_splits)
next
  case (Cons c s)
  show ?case
  proof (cases "starts_with (c # s) p")
    case True
    with Cons.prems show ?thesis by simp
  next
    case False
    with Cons.prems obtain k where k: "find_sub p s = Some k" "n = Suc k" by auto
    from Cons.IH [OF k(1)] False k(2) show ?thesis by (auto simp: less_Suc_eq_0_disj)
  qed
qed

lemma find_sub_None: "find_sub p s = None \<Longrightarrow> \<not> starts_with (drop m s) p"
proof (induction s arbitrary: m)
  case Nil
  then show ?case by (auto simp: starts_with_iff split: if_splits)
next
  case (Cons c s)
  then show ?case by (cases m) (auto split: if_splits)
qed

text \<open>An occurrence of \<open>q\<close> at position \<open>n\<close> that delimiters or the ends of the name surround.\<close>

definition quant_at :: "string \<Rightarrow> string \<Rightarrow> nat \<Rightarrow> bool" where
  "quant_at s q n = (starts_with (drop n s) q \<and> before_ok s n \<and> after_ok s (n + length q))"

definition has_quant :: "string \<Rightarrow> string \<Rightarrow> bool" where
  "has_quant s q = (\<exists>n < length s. quant_at s q n)"

lemma ascii_boundary:
  assumes "is_ascii s" and "i \<le> length s"
  shows "char_boundary s i"
proof (cases "i = length s")
  case False
  then have "byte_val (s ! i) < 128" using assms by (simp add: is_ascii_def list_all_length)
  with False assms(2) show ?thesis by (simp add: char_boundary_def in_range_def)
qed (simp add: char_boundary_def)

lemma delimited_loop_spec:
  assumes "is_ascii s" and "q \<noteq> []" and "i \<le> length s"
  shows "delimited_loop s q i = Some (\<exists>n < length s. i \<le> n \<and> quant_at s q n)"
  using assms
proof (induction s q i rule: delimited_loop.induct)
  case (1 s q i)
  have b: "char_boundary s i" using "1.prems" by (simp add: ascii_boundary)
  show ?case
  proof (cases "find_sub q (drop i s)")
    case None
    have "\<not> quant_at s q n" if "i \<le> n" for n
      using find_sub_None [OF None, of "n - i"] that by (simp add: quant_at_def)
    then show ?thesis using b None by (auto simp: delimited_loop.simps [of s q i])
  next
    case (Some pos)
    let ?a = "i + pos"
    have f: "pos \<le> length s - i" "starts_with (drop ?a s) q"
      and least: "\<And>m. m < pos \<Longrightarrow> \<not> starts_with (drop (i + m) s) q"
      using find_sub_Some [OF Some] by (auto simp: add.commute)
    then have a: "?a < length s" using "1.prems"(2,3)
      by (metis append_is_Nil_conv drop_eq_Nil not_le_imp_less starts_with_iff)
    have first: "?a \<le> n" if "i \<le> n" "quant_at s q n" for n
      using least [of "n - i"] that by (force simp: quant_at_def not_le)
    show ?thesis
    proof (cases "before_ok s ?a \<and> after_ok s (?a + length q)")
      case True
      then have "quant_at s q ?a" using f(2) by (simp add: quant_at_def)
      then show ?thesis using True a b Some by (auto simp: delimited_loop.simps [of s q i] Let_def intro: exI [of _ ?a])
    next
      case False
      then have no: "\<not> quant_at s q ?a" by (auto simp: quant_at_def)
      have "delimited_loop s q i = delimited_loop s q (?a + 1)"
        using b Some by (simp add: delimited_loop.simps [of s q i] Let_def False del: de_Morgan_conj)
      also have "\<dots> = Some (\<exists>n < length s. ?a + 1 \<le> n \<and> quant_at s q n)"
        using "1.IH" [of pos ?a "?a + length q"] b Some False "1.prems"(1,2) a by simp
      also have "(\<exists>n < length s. ?a + 1 \<le> n \<and> quant_at s q n) = (\<exists>n < length s. i \<le> n \<and> quant_at s q n)"
      proof -
        have "?a + 1 \<le> n \<longleftrightarrow> i \<le> n" if "quant_at s q n" for n
          using first [of n] no that by (cases "n = ?a") auto
        then show ?thesis by auto
      qed
      finally show ?thesis .
    qed
  qed
qed

lemma is_ascii_upper: "is_ascii s \<Longrightarrow> is_ascii (to_ascii_uppercase s)"
  by (auto simp: is_ascii_def to_ascii_uppercase_def list_all_iff ascii_upper_char_def is_ascii_lower_def in_range_def
      byte_val_char_of)

lemma find_checked_total:
  "\<forall>x \<in> set xs. P x = Some (Q x) \<Longrightarrow> find_checked P xs = Some (find Q xs)"
  by (induction xs) (auto split: bool.split)

lemma find_first: "find P xs = (case filter P xs of [] \<Rightarrow> None | x # _ \<Rightarrow> Some x)"
  by (induction xs) auto

lemma find_checked_In: "find_checked P xs = Some (Some x) \<Longrightarrow> x \<in> set xs"
  by (induction xs) (auto split: option.splits bool.splits)

lemma first_found:
  "first_strict files qs = Some f \<Longrightarrow> f \<in> set files" "first_delimited files qs = Some (Some f) \<Longrightarrow> f \<in> set files"
proof (induction qs)
  case (Cons q qs)
  { case 1 with Cons show ?case by (auto simp: find_strict_def find_Some_iff split: option.splits) }
  { case 2 with Cons show ?case by (auto simp: find_delimited_def dest: find_checked_In split: option.splits) }
qed simp_all

lemma select_file_listed: "select_file files format quant = Some (Ok f) \<Longrightarrow> f \<in> set files"
  by (auto simp: select_file_def Let_def find_strict_def find_delimited_def find_Some_iff intro: nth_mem
      dest: find_checked_In first_found split: if_splits option.splits)

lemma find_delimited_spec:
  assumes "\<forall>f \<in> set files. is_ascii f" and "q \<noteq> []"
  shows "find_delimited files q =
    Some (find (\<lambda>f. \<not> bf16_guard q (to_ascii_uppercase f) \<and> has_quant (to_ascii_uppercase f) q) files)"
  unfolding find_delimited_def
proof (rule find_checked_total, rule ballI)
  fix f assume "f \<in> set files"
  with assms(1) have "is_ascii (to_ascii_uppercase f)" by (simp add: is_ascii_upper)
  from delimited_loop_spec [OF this assms(2), of 0]
  show "matches_quant_delimited (to_ascii_uppercase f) q =
      Some (\<not> bf16_guard q (to_ascii_uppercase f) \<and> has_quant (to_ascii_uppercase f) q)"
    by (simp add: matches_quant_delimited_def has_quant_def)
qed

section \<open>The empty quantization\<close>

text \<open>A name that no empty match ends in: no delimiter at an end, no two in a row.\<close>

definition solid :: "string \<Rightarrow> bool" where
  "solid s = list_all (\<lambda>i. \<not> (before_ok s i \<and> after_ok s i)) [0..<Suc (length s)]"

lemma find_sub_empty: "find_sub [] s = Some 0"
  by (cases s) (auto simp: starts_with_iff)

lemma delimited_loop_empty:
  assumes "solid s"
  shows "delimited_loop s [] i = None"
  using assms
proof (induction "Suc (length s) - i" arbitrary: i)
  case 0
  then show ?case by (simp add: delimited_loop.simps [of s "[]" i] char_boundary_def)
next
  case (Suc k)
  then have "delimited_loop s [] (i + 1) = None" by simp
  moreover have "\<not> (before_ok s i \<and> after_ok s i)" using Suc.hyps(2) Suc.prems by (simp add: solid_def list_all_iff del: upt_Suc)
  ultimately show ?case by (auto simp: delimited_loop.simps [of s "[]" i] Let_def find_sub_empty)
qed

lemma case_filters:
  "(case (case A of [] \<Rightarrow> None | x # _ \<Rightarrow> Some x) of Some f \<Rightarrow> Some (Ok f)
    | None \<Rightarrow> (case (case B of [] \<Rightarrow> None | x # _ \<Rightarrow> Some x) of Some f \<Rightarrow> Some (Ok f)
       | None \<Rightarrow> (case (case C of [] \<Rightarrow> None | x # _ \<Rightarrow> Some x) of Some f \<Rightarrow> Some (Ok f) | None \<Rightarrow> Some (Err e)))) =
   Some (case A @ B @ C of [] \<Rightarrow> Err e | f # _ \<Rightarrow> Ok f)"
  by (cases A; cases B; cases C) simp_all

section \<open>Properties\<close>



text \<open>
  An empty quantization panics.  With \<^verbatim>\<open>--quant ""\<close> the loop of the delimited match runs past the end
  of the first file name and slices out of range: for any listing whose first name neither begins nor
  ends with a delimiter nor has two in a row, unless some name ends in a delimiter and \<^verbatim>\<open>.gguf\<close>.
\<close>

theorem empty_quant_panics:
  assumes "format \<noteq> ''safetensors''" and "find_strict (f # fs) [] = None" and "solid (to_ascii_uppercase f)"
  shows "select_file (f # fs) format (Some []) = None"
  using assms delimited_loop_empty [OF assms(3), of 0]
  by (simp add: select_file_def to_ascii_uppercase_def find_delimited_def matches_quant_delimited_def bf16_guard_def)

theorem empty_quant_panics_witness:
  "select_file [''model-q4.gguf''] ''gguf'' (Some []) = None"
proof -
  have "(''gguf'' :: string) \<noteq> ''safetensors''" "find_strict [''model-q4.gguf''] [] = None"
    "solid (to_ascii_uppercase ''model-q4.gguf'')" by code_simp+
  then show ?thesis using empty_quant_panics [of "''gguf''" "''model-q4.gguf''" "[]"] by simp
qed

end
