(* ===== verification/Hub_Client.thy ===== *)
theory Hub_Client
  imports Model_Select Config
begin

text \<open>
  Talking to the model hub: the access token (\<^verbatim>\<open>pull/auth.rs\<close>), the listing of a repository
  (\<^verbatim>\<open>pull/resolve/hf_tree.rs\<close>) and the resolution of what the user asked for (\<^verbatim>\<open>pull/resolve/mod.rs\<close>).  The HTTP
  library is a parameter: what comes back for a request, if anything.  A function that sends requests
  also yields the list of those it sent; \<open>None\<close> beside it is a panic.  The decoder of the listing is
  derived by the JSON library and is a parameter too.
\<close>

section \<open>Requests and responses\<close>

record request =
  rq_url :: string
  rq_agent :: string
  rq_bearer :: "string option"

text \<open>The chunks of the body, and whether the connection is lost after them.\<close>

record response =
  rs_status :: nat
  rs_reason :: string
  rs_chunks :: "bytes list"
  rs_cut :: bool

record tree_entry =
  te_path :: string
  te_type :: string

record hub_env =
  he_var :: "string \<Rightarrow> string option"
  he_http :: "request \<Rightarrow> response option"
  he_tree :: "bytes \<Rightarrow> tree_entry list option"

definition is_success :: "response \<Rightarrow> bool" where
  "is_success r = (200 \<le> rs_status r \<and> rs_status r < 300)"

definition status_text :: "response \<Rightarrow> string" where
  "status_text r = show_nat (rs_status r) @ '' '' @ rs_reason r"

definition whole_body :: "response \<Rightarrow> bytes option" where
  "whole_body r = (if rs_cut r then None else Some (concat (rs_chunks r)))"

definition get_request :: "string \<Rightarrow> request" where
  "get_request url = \<lparr>rq_url = url, rq_agent = ''syntrop-modelctl'', rq_bearer = None\<rparr>"

section \<open>The token\<close>

definition nonempty_trimmed :: "string \<Rightarrow> string option" where
  "nonempty_trimmed s = (if trim s \<noteq> [] then Some (trim s) else None)"

definition token_from_cache :: "hub_env \<Rightarrow> host \<Rightarrow> string option" where
  "token_from_cache env h =
     (case he_var env ''HOME'' of
        None \<Rightarrow> None
      | Some home \<Rightarrow>
          (case read_to_string h (join (abs_path home) ''.cache/huggingface/token'') of
             Inl e \<Rightarrow> None
           | Inr s \<Rightarrow> nonempty_trimmed s))"

definition resolve_hf_token :: "hub_env \<Rightarrow> host \<Rightarrow> string option" where
  "resolve_hf_token env h =
     (case Option.bind (he_var env ''HF_TOKEN'') nonempty_trimmed of
        Some t \<Rightarrow> Some t
      | None \<Rightarrow>
          (case Option.bind (he_var env ''HUGGING_FACE_HUB_TOKEN'') nonempty_trimmed of
             Some t \<Rightarrow> Some t
           | None \<Rightarrow> token_from_cache env h))"

definition apply_hf_auth :: "hub_env \<Rightarrow> host \<Rightarrow> request \<Rightarrow> string \<Rightarrow> request" where
  "apply_hf_auth env h builder url =
     (if contains_str url ''huggingface.co'' then
        (case resolve_hf_token env h of Some token \<Rightarrow> builder\<lparr>rq_bearer := Some token\<rparr> | None \<Rightarrow> builder)
      else builder)"

section \<open>The listing of a repository\<close>

record resolved_model =
  rm_url :: string
  rm_filename :: string
  rm_name :: string
  rm_tag :: string
  rm_format :: string
  rm_tokenizer :: "string option"

definition quoted :: "string \<Rightarrow> string" where
  "quoted s = CHR 0x27 # s @ [CHR 0x27]"

definition files_ending :: "string \<Rightarrow> tree_entry list \<Rightarrow> string list" where
  "files_ending ext entries = map te_path (filter (\<lambda>e. te_type e = ''file'' \<and> ends_with (te_path e) ext) entries)"

definition sharded :: "string list \<Rightarrow> bool" where
  "sharded st_files =
     ((\<exists>f \<in> set st_files. contains_str f ''-of-'' \<or> contains_str f ''.part'') \<or>
      (1 < length st_files \<and> \<not> (\<exists>f \<in> set st_files. f = ''model.safetensors'')))"

definition matched_files :: "string \<Rightarrow> bool \<Rightarrow> tree_entry list \<Rightarrow> string list anyhow" where
  "matched_files repo is_safetensors entries =
     (if is_safetensors then
        (let st_files = files_ending ''.safetensors'' entries in
         if sharded st_files then
           Err (''Sharded Safetensors model detected in '' @ quoted repo @ '' (found '' @ show_nat (length st_files) @
             '' shards: '' @ join_with '', '' st_files @ ''). Sharded weights are not supported for single-stream pull. '' @
             ''Please choose an unsharded model or a GGUF quant.'')
         else if st_files = [] then Err (''No .safetensors files found in repository '' @ quoted repo)
         else Ok st_files)
      else
        (let gguf_files = files_ending ''.gguf'' entries in
         if gguf_files = [] then Err (''No .gguf files found in repository '' @ quoted repo)
         else Ok gguf_files))"

definition hub_file_url :: "string \<Rightarrow> string \<Rightarrow> string" where
  "hub_file_url repo f = ''https://huggingface.co/'' @ repo @ ''/resolve/main/'' @ f"

definition tree_url :: "string \<Rightarrow> string" where
  "tree_url repo = ''https://huggingface.co/api/models/'' @ repo @ ''/tree/main''"

definition tree_request :: "hub_env \<Rightarrow> host \<Rightarrow> string \<Rightarrow> request" where
  "tree_request env h repo = apply_hf_auth env h (get_request (tree_url repo)) (tree_url repo)"

definition repo_default_name :: "string \<Rightarrow> string" where
  "repo_default_name repo =
     map (\<lambda>c. if c = CHR ''_'' then CHR ''-'' else c) (to_ascii_lowercase (last (split_on (CHR ''/'') repo)))"

definition tokenizer_of :: "string \<Rightarrow> bool \<Rightarrow> tree_entry list \<Rightarrow> string option" where
  "tokenizer_of repo is_safetensors entries =
     (if is_safetensors then
        map_option (\<lambda>e. ''https://huggingface.co/'' @ repo @ ''/resolve/main/tokenizer.json'')
          (find (\<lambda>e. te_type e = ''file'' \<and> te_path e = ''tokenizer.json'') entries)
      else None)"

text \<open>What follows the parsed listing.\<close>

definition resolve_listing ::
    "string \<Rightarrow> string \<Rightarrow> string option \<Rightarrow> string option \<Rightarrow> tree_entry list \<Rightarrow> resolved_model anyhow option" where
  "resolve_listing repo format quant tag_override entries =
     (let is_safetensors = eq_ignore_ascii_case format ''safetensors'' in
      case matched_files repo is_safetensors entries of
        Inl e \<Rightarrow> Some (Err e)
      | Inr files \<Rightarrow>
          (case select_file files format quant of
             None \<Rightarrow> None
           | Some (Inl e) \<Rightarrow> Some (Err e)
           | Some (Inr selected) \<Rightarrow>
               (let default_tag = (if is_safetensors then ''latest'' else to_ascii_lowercase (opt_or quant ''latest''));
                    (name, tag) = parse_tag_override (repo_default_name repo) default_tag tag_override
                in Some (Ok
                  \<lparr>rm_url = hub_file_url repo selected, rm_filename = selected, rm_name = name, rm_tag = tag,
                   rm_format = (if is_safetensors then ''safetensors'' else ''gguf''),
                   rm_tokenizer = tokenizer_of repo is_safetensors entries\<rparr>))))"

definition resolve_hf_repo ::
    "hub_env \<Rightarrow> host \<Rightarrow> string \<Rightarrow> string \<Rightarrow> string option \<Rightarrow> string option \<Rightarrow> request list \<times> resolved_model anyhow option" where
  "resolve_hf_repo env h repo format quant tag_override =
     (let req = tree_request env h repo in
      ([req],
       case he_http env req of
         None \<Rightarrow> Some (Err (''Failed to query Hugging Face API for '' @ repo))
       | Some resp \<Rightarrow>
           if \<not> is_success resp then
             Some (Err (''Hugging Face repository '' @ quoted repo @ '' returned HTTP '' @ status_text resp))
           else (case Option.bind (whole_body resp) (he_tree env) of
                   None \<Rightarrow> Some (Err ''Failed to parse HF tree API'')
                 | Some entries \<Rightarrow> resolve_listing repo format quant tag_override entries)))"

section \<open>Resolution\<close>

definition alias_model :: "model_alias \<Rightarrow> string option \<Rightarrow> resolved_model" where
  "alias_model a tag_override =
     (let (name, tag) = parse_tag_override (al_name a) (al_tag a) tag_override in
      \<lparr>rm_url = hub_file_url (al_repo a) (al_file a), rm_filename = al_file a, rm_name = name, rm_tag = tag,
       rm_format = ''gguf'', rm_tokenizer = None\<rparr>)"

definition resolve_model_with_format ::
    "hub_env \<Rightarrow> host \<Rightarrow> string \<Rightarrow> string \<Rightarrow> string option \<Rightarrow> string option \<Rightarrow> request list \<times> resolved_model anyhow option" where
  "resolve_model_with_format env h model_spec format quant tag_override =
     (let spec = trim model_spec; fmt = to_ascii_lowercase format;
          otherwise =
            (if CHR ''/'' \<in> set spec then resolve_hf_repo env h spec fmt quant tag_override
             else ([], Some (Err (''Unknown model alias '' @ quoted spec @ ''. Known aliases: '' @
               join_with '', '' (map al_alias ALIASES)))))
      in if fmt = ''gguf'' then
           (case find_alias spec of
              Some a \<Rightarrow>
                if quant = None then ([], Some (Ok (alias_model a tag_override)))
                else resolve_hf_repo env h (al_repo a) fmt quant tag_override
            | None \<Rightarrow> otherwise)
         else otherwise)"

definition resolve_model ::
    "hub_env \<Rightarrow> host \<Rightarrow> string \<Rightarrow> string option \<Rightarrow> string option \<Rightarrow> request list \<times> resolved_model anyhow option" where
  "resolve_model env h model_spec quant tag_override =
     resolve_model_with_format env h model_spec ''gguf'' quant tag_override"

section \<open>Lemmas\<close>

definition hub_url :: "string \<Rightarrow> bool" where
  "hub_url url = starts_with url ''https://huggingface.co/''"

lemma hub_urls: "hub_url (tree_url repo)" "hub_url (hub_file_url repo f)"
  "tokenizer_of repo st entries = Some u \<Longrightarrow> hub_url u"
  by (auto simp: hub_url_def tree_url_def hub_file_url_def tokenizer_of_def starts_with_iff split: if_splits)

lemma apply_hf_auth_url [simp]: "rq_url (apply_hf_auth env h r url) = rq_url r"
  by (simp add: apply_hf_auth_def split: option.split)

lemma get_request_simps [simp]: "rq_url (get_request url) = url" "rq_bearer (get_request url) = None"
  by (simp_all add: get_request_def)

lemma matched_files_listed:
  "matched_files repo st entries = Ok files \<Longrightarrow> f \<in> set files \<Longrightarrow>
   \<exists>e \<in> set entries. te_type e = ''file'' \<and> te_path e = f \<and> ends_with f (if st then ''.safetensors'' else ''.gguf'')"
  by (auto simp: matched_files_def files_ending_def Let_def split: if_splits)

lemma resolve_listing_Ok:
  assumes "resolve_listing repo format quant tag_override entries = Some (Ok r)"
  shows "\<exists>e \<in> set entries. te_type e = ''file'' \<and> te_path e = rm_filename r"
    and "ends_with (rm_filename r) (''.'' @ rm_format r)"
    and "rm_url r = hub_file_url repo (rm_filename r)"
    and "\<forall>u. rm_tokenizer r = Some u \<longrightarrow> hub_url u"
proof -
  let ?st = "eq_ignore_ascii_case format ''safetensors''"
  from assms obtain files f where m: "matched_files repo ?st entries = Ok files" "select_file files format quant = Some (Ok f)"
    and r: "rm_filename r = f" "rm_format r = (if ?st then ''safetensors'' else ''gguf'')"
      "rm_url r = hub_file_url repo f" "rm_tokenizer r = tokenizer_of repo ?st entries"
    by (auto simp: resolve_listing_def Let_def split: sum.splits option.splits prod.splits)
  note L = matched_files_listed [OF m(1) select_file_listed [OF m(2)]]
  show "\<exists>e \<in> set entries. te_type e = ''file'' \<and> te_path e = rm_filename r"
    and "ends_with (rm_filename r) (''.'' @ rm_format r)"
    using L by (auto simp: r)
  show "rm_url r = hub_file_url repo (rm_filename r)" by (simp add: r)
  show "\<forall>u. rm_tokenizer r = Some u \<longrightarrow> hub_url u" using hub_urls(3) by (auto simp: r)
qed

lemma resolve_hf_repo_Ok:
  assumes "resolve_hf_repo env h repo format quant tag_override = (log, Some (Ok r))"
  obtains resp entries where "log = [tree_request env h repo]" "he_http env (tree_request env h repo) = Some resp"
    "is_success resp" "Option.bind (whole_body resp) (he_tree env) = Some entries"
    "resolve_listing repo format quant tag_override entries = Some (Ok r)"
  using assms by (auto simp: resolve_hf_repo_def Let_def split: option.splits if_splits)

lemma find_alias_In: "find_alias s = Some a \<Longrightarrow> a \<in> set ALIASES \<and> eq_ignore_ascii_case (al_alias a) s"
  unfolding find_alias_def find_Some_iff using nth_mem by blast

text \<open>The repository a specification names.\<close>

definition names_repo :: "string \<Rightarrow> string \<Rightarrow> bool" where
  "names_repo spec repo = (repo = trim spec \<and> CHR ''/'' \<in> set repo \<or>
     (\<exists>a \<in> set ALIASES. eq_ignore_ascii_case (al_alias a) (trim spec) \<and> repo = al_repo a))"

lemma resolve_cases:
  assumes "resolve_model_with_format env h spec format quant tag = (log, res)"
  obtains (builtin) a where "find_alias (trim spec) = Some a" "quant = None" "log = []" "res = Some (Ok (alias_model a tag))"
  | (unknown) e where "log = []" "res = Some (Err e)"
  | (listed) repo where "names_repo spec repo"
      "resolve_hf_repo env h repo (to_ascii_lowercase format) quant tag = (log, res)"
proof -
  have "(\<exists>a. find_alias (trim spec) = Some a \<and> quant = None \<and> log = [] \<and> res = Some (Ok (alias_model a tag))) \<or>
      (\<exists>e. log = [] \<and> res = Some (Err e)) \<or>
      (\<exists>repo. names_repo spec repo \<and> resolve_hf_repo env h repo (to_ascii_lowercase format) quant tag = (log, res))"
  proof (cases "find_alias (trim spec)")
    case None
    show ?thesis
    proof (cases "CHR ''/'' \<in> set (trim spec)")
      case True
      then have "names_repo spec (trim spec)" by (simp add: names_repo_def)
      moreover have "resolve_hf_repo env h (trim spec) (to_ascii_lowercase format) quant tag = (log, res)"
        using assms None True by (simp add: resolve_model_with_format_def Let_def split: if_splits)
      ultimately show ?thesis by blast
    next
      case False
      then show ?thesis using assms None by (auto simp: resolve_model_with_format_def Let_def split: if_splits)
    qed
  next
    case (Some a)
    then have "names_repo spec (al_repo a)" using find_alias_In by (auto simp: names_repo_def)
    moreover have "names_repo spec (trim spec) \<or> CHR ''/'' \<notin> set (trim spec)" by (auto simp: names_repo_def)
    ultimately show ?thesis using assms Some
      by (cases "to_ascii_lowercase format = ''gguf''"; cases "quant = None"; cases "CHR ''/'' \<in> set (trim spec)")
        (force simp add: resolve_model_with_format_def Let_def)+
  qed
  then show thesis by (elim disjE exE conjE) (auto intro: builtin unknown listed)
qed

lemma alias_model_simps:
  "rm_url (alias_model a tag) = hub_file_url (al_repo a) (al_file a)" "rm_filename (alias_model a tag) = al_file a"
  "rm_format (alias_model a tag) = ''gguf''" "rm_tokenizer (alias_model a tag) = None"
  by (simp_all add: alias_model_def split: prod.split)

lemma alias_files: "a \<in> set ALIASES \<Longrightarrow> ends_with (al_file a) ''.gguf''"
proof -
  have "list_all (\<lambda>a. ends_with (al_file a) ''.gguf'') ALIASES" by code_simp
  then show "a \<in> set ALIASES \<Longrightarrow> ends_with (al_file a) ''.gguf''" by (simp add: list_all_iff)
qed

text \<open>Every address a resolved model carries is on the hub.\<close>

lemma resolved_on_hub:
  assumes "resolve_model_with_format env h spec format quant tag = (log, Some (Ok r))"
  shows "hub_url (rm_url r)" "rm_tokenizer r = Some u \<Longrightarrow> hub_url u"
proof -
  from assms have "hub_url (rm_url r) \<and> (\<forall>u. rm_tokenizer r = Some u \<longrightarrow> hub_url u)"
  proof (cases rule: resolve_cases)
    case (listed repo)
    from listed(2) obtain entries where "resolve_listing repo (to_ascii_lowercase format) quant tag entries = Some (Ok r)"
      by (rule resolve_hf_repo_Ok)
    from resolve_listing_Ok [OF this] show ?thesis by (simp add: hub_urls)
  qed (auto simp: alias_model_simps hub_urls)
  then show "hub_url (rm_url r)" "rm_tokenizer r = Some u \<Longrightarrow> hub_url u" by auto
qed

lemma resolve_log:
  assumes "resolve_model_with_format env h spec format quant tag = (log, res)"
  shows "log = [] \<or> (\<exists>repo. log = [tree_request env h repo])"
  using assms by (cases rule: resolve_cases) (auto simp: resolve_hf_repo_def Let_def)

section \<open>Properties\<close>

text \<open>
  C34. What is resolved.  A model that is resolved is a file of the repository the specification
  names, at that repository's address, with the extension of its format: either the file of an alias,
  and then nothing was sent, or a regular file of the listing that one request to the hub brought.
\<close>

theorem resolve_model_sound:
  assumes "resolve_model_with_format env h spec format quant tag = (log, Some (Ok r))"
  shows "ends_with (rm_filename r) (''.'' @ rm_format r) \<and>
    ((\<exists>a \<in> set ALIASES. eq_ignore_ascii_case (al_alias a) (trim spec) \<and> log = [] \<and>
        rm_filename r = al_file a \<and> rm_url r = hub_file_url (al_repo a) (al_file a)) \<or>
     (\<exists>repo resp entries. names_repo spec repo \<and> rm_url r = hub_file_url repo (rm_filename r) \<and>
        log = [tree_request env h repo] \<and> he_http env (tree_request env h repo) = Some resp \<and> is_success resp \<and>
        Option.bind (whole_body resp) (he_tree env) = Some entries \<and>
        (\<exists>e \<in> set entries. te_type e = ''file'' \<and> te_path e = rm_filename r)))"
  using assms
proof (cases rule: resolve_cases)
  case (builtin a)
  then have a: "a \<in> set ALIASES" "eq_ignore_ascii_case (al_alias a) (trim spec)" using find_alias_In by auto
  with builtin(3,4) alias_files [OF a(1)] show ?thesis by (auto simp: alias_model_simps)
next
  case (listed repo)
  from listed(2) obtain resp entries where o: "log = [tree_request env h repo]" "he_http env (tree_request env h repo) = Some resp"
      "is_success resp" "Option.bind (whole_body resp) (he_tree env) = Some entries"
      "resolve_listing repo (to_ascii_lowercase format) quant tag entries = Some (Ok r)"
    by (rule resolve_hf_repo_Ok)
  note L = resolve_listing_Ok [OF o(5)]
  show ?thesis using listed(1) o(1-4) L(1-3) by blast
qed simp

definition demo_hub :: hub_env where
  "demo_hub = \<lparr>he_var = (\<lambda>v. if v = ''HF_TOKEN'' then Some '' secret '' else None),
     he_http = (\<lambda>r. Some \<lparr>rs_status = 200, rs_reason = ''OK'', rs_chunks = [''data''], rs_cut = False\<rparr>),
     he_tree = (\<lambda>b. Some [\<lparr>te_path = ''README.md'', te_type = ''file''\<rparr>, \<lparr>te_path = ''m-Q8_0.gguf'', te_type = ''file''\<rparr>,
       \<lparr>te_path = ''m-Q4_0.gguf'', te_type = ''file''\<rparr>])\<rparr>"

theorem resolve_model_sound_witness:
  "\<exists>r. resolve_model_with_format demo_hub (plain_host [] []) '' Org/My_Model '' ''GGUF'' None None =
      ([tree_request demo_hub (plain_host [] []) ''Org/My_Model''], Some (Ok r)) \<and>
    rm_filename r = ''m-Q4_0.gguf'' \<and> rm_name r = ''my-model'' \<and> rm_tag r = ''latest'' \<and>
    rm_url r = ''https://huggingface.co/Org/My_Model/resolve/main/m-Q4_0.gguf'' \<and> ends_with (rm_filename r) ''.gguf''"
proof -
  let ?r = "\<lparr>rm_url = ''https://huggingface.co/Org/My_Model/resolve/main/m-Q4_0.gguf'', rm_filename = ''m-Q4_0.gguf'',
    rm_name = ''my-model'', rm_tag = ''latest'', rm_format = ''gguf'', rm_tokenizer = None\<rparr>"
  have t: "trim '' Org/My_Model '' = ''Org/My_Model''" "to_ascii_lowercase ''GGUF'' = ''gguf''"
    "find_alias ''Org/My_Model'' = None" by code_simp+
  have l: "resolve_listing ''Org/My_Model'' ''gguf'' None None (the (he_tree demo_hub [])) = Some (Ok ?r)" by code_simp
  have "resolve_model_with_format demo_hub (plain_host [] []) '' Org/My_Model '' ''GGUF'' None None =
      ([tree_request demo_hub (plain_host [] []) ''Org/My_Model''], Some (Ok ?r))"
    using l by (simp add: resolve_model_with_format_def t Let_def resolve_hf_repo_def)
      (simp add: demo_hub_def is_success_def whole_body_def)
  from this resolve_model_sound [OF this] show ?thesis by simp
qed

end
