(* ===== verification/Commit_Artifact.thy ===== *)
theory Commit_Artifact
  imports Hub_Client Tag_Registry Cas_Store
begin

text \<open>
  The commit of a pulled file (\<^verbatim>\<open>pull/commit_artifact.rs\<close>): the staged file becomes the flat blob, a second
  name is made under the standard path, the tag is written and symbolic links are set.  This code does
  not go through \<open>CasStore\<close> and \<open>TagRegistry\<close>, nor does it check names; so paths are kept here as the
  strings that are joined, and the kernel resolves a \<open>..\<close> only behind a directory that exists.
\<close>

section \<open>Paths as they are written\<close>

text \<open>\<open>Path::join\<close> on the strings.\<close>

definition path_join :: "string \<Rightarrow> string \<Rightarrow> string" where
  "path_join a b = (if starts_with b ''/'' then b else if a = [] \<or> last a = CHR ''/'' then a @ b else a @ ''/'' @ b)"

text \<open>Whether the kernel gets along a list of components: what a \<open>..\<close> leaves is a directory.\<close>

fun reach :: "host \<Rightarrow> path \<Rightarrow> string list \<Rightarrow> bool" where
  "reach h p [] = True"
| "reach h p (c # cs) =
     (if c = ''..'' then stat h p = Some Dir \<and> reach h (butlast p) cs else reach h (p @ [c]) cs)"

definition reachable :: "host \<Rightarrow> string \<Rightarrow> bool" where
  "reachable h s = reach h [] (path_comps s)"

definition at_path :: "string \<Rightarrow> (path \<Rightarrow> 'a io) \<Rightarrow> 'a io" where
  "at_path s f h = (if reachable h s then f (abs_path s) h else (Err e_not_found, h))"

definition is_file_at :: "host \<Rightarrow> string \<Rightarrow> bool" where
  "is_file_at h s = (reachable h s \<and> is_file h (abs_path s))"

definition exists_at :: "host \<Rightarrow> string \<Rightarrow> bool" where
  "exists_at h s = (reachable h s \<and> path_exists h (abs_path s))"

text \<open>\<open>create_dir_all\<close> on components that may hold \<open>..\<close>.\<close>

definition mkdir_at :: "string list \<Rightarrow> unit io" where
  "mkdir_at cs h = (if reach h [] cs then mkdir (walk [] cs) h else (Err e_not_found, h))"

function make_dirs :: "string list \<Rightarrow> unit io" where
  "make_dirs cs h =
     (if cs = [] then (Ok (), h) else
      (case mkdir_at cs h of
         (Inr u, h1) \<Rightarrow> (Ok (), h1)
       | (Inl e, h1) \<Rightarrow>
           if io_kind e = K_NotFound then
             (case make_dirs (butlast cs) h1 of
                (Inl e2, h2) \<Rightarrow> (Err e2, h2)
              | (Inr u, h2) \<Rightarrow>
                  (case mkdir_at cs h2 of
                     (Inr u, h3) \<Rightarrow> (Ok (), h3)
                   | (Inl e3, h3) \<Rightarrow> if reach h3 [] cs \<and> is_dir h3 (walk [] cs) then (Ok (), h3) else (Err e3, h3)))
           else if reach h1 [] cs \<and> is_dir h1 (walk [] cs) then (Ok (), h1) else (Err e, h1)))"
  by pat_completeness auto
termination
  by (relation "measure (\<lambda>(cs, h). length cs)") auto

declare make_dirs.simps [simp del]

definition make_dirs_at :: "string \<Rightarrow> unit io" where
  "make_dirs_at s h = make_dirs (path_comps s) h"

definition write_at :: "string \<Rightarrow> bytes \<Rightarrow> unit io" where
  "write_at s bs h =
     (case at_path s create_file h of
        (Inl e, h1) \<Rightarrow> (Err e, h1)
      | (Inr i, h1) \<Rightarrow> write_all (abs_path s) i bs h1)"

definition hard_link_at :: "string \<Rightarrow> string \<Rightarrow> unit io" where
  "hard_link_at a b h = (if reachable h a then at_path b (hard_link (abs_path a)) h else (Err e_not_found, h))"

definition copy_at :: "string \<Rightarrow> string \<Rightarrow> nat io" where
  "copy_at a b h = (if reachable h a then at_path b (copy_file (abs_path a)) h else (Err e_not_found, h))"

definition rename_at :: "string \<Rightarrow> string \<Rightarrow> unit io" where
  "rename_at a b h = (if reachable h a then at_path b (rename (abs_path a)) h else (Err e_not_found, h))"

section \<open>The commit\<close>

record artifact_commit =
  storage_root :: string
  ac_stage :: string
  ac_digest :: string
  ac_format :: string
  ac_name :: string
  ac_tag :: string

definition format_ext :: "string \<Rightarrow> string" where
  "format_ext format = (if eq_ignore_ascii_case format ''safetensors'' then ''safetensors'' else ''gguf'')"

definition denied_text :: "string \<Rightarrow> string \<Rightarrow> io_error \<Rightarrow> string" where
  "denied_text what path e = ''Permission denied '' @ what @ '' '' @ path @ ''. Ensure your user belongs to the '' @
     quoted ''syntrop'' @ '' group (try: newgrp syntrop) or re-run with sudo: '' @ io_text e"

text \<open>One text for a refusal for lack of rights, another one for every other error.\<close>

definition commit_error :: "string \<Rightarrow> string \<Rightarrow> string \<Rightarrow> io_error \<Rightarrow> string" where
  "commit_error what path otherwise e =
     (if io_kind e = K_PermissionDenied then denied_text what path e else otherwise @ '': '' @ io_text e)"

definition cas_dest :: "artifact_commit \<Rightarrow> string" where
  "cas_dest c = path_join (path_join (storage_root c) ''cas'')
     (''sha256-'' @ ac_digest c @ ''.'' @ format_ext (ac_format c))"

definition cas_blob :: "artifact_commit \<Rightarrow> string" where
  "cas_blob c = path_join (path_join (path_join (path_join (storage_root c) ''cas'') ''blobs'') ''sha256'') (ac_digest c)"

definition commit_blob :: "artifact_commit \<Rightarrow> host \<Rightarrow> host" where
  "commit_blob c h =
     (case make_dirs_at (path_join (path_join (path_join (storage_root c) ''cas'') ''blobs'') ''sha256'') h of
        (Inl e, h1) \<Rightarrow> h1
      | (Inr u, h1) \<Rightarrow>
          (let h2 = snd (at_path (cas_blob c) remove_file h1) in
           case hard_link_at (cas_dest c) (cas_blob c) h2 of
             (Inr u, h3) \<Rightarrow> h3
           | (Inl e, h3) \<Rightarrow> snd (copy_at (cas_dest c) (cas_blob c) h3)))"

definition tag_dir_of :: "artifact_commit \<Rightarrow> string" where
  "tag_dir_of c = path_join (path_join (storage_root c) ''tags'') (ac_name c)"

definition tag_file_of :: "artifact_commit \<Rightarrow> string" where
  "tag_file_of c = path_join (tag_dir_of c) (ac_tag c)"

definition commit_tag :: "artifact_commit \<Rightarrow> host \<Rightarrow> unit anyhow \<times> host" where
  "commit_tag c h =
     (case make_dirs_at (tag_dir_of c) h of
        (Inl e, h1) \<Rightarrow> (Err (commit_error ''creating tags directory at'' (tag_dir_of c) ''Failed to create tags directory'' e), h1)
      | (Inr u, h1) \<Rightarrow>
          (case write_at (tag_file_of c) (ac_digest c) h1 of
             (Inl e, h2) \<Rightarrow> (Err (commit_error ''writing tag file at'' (tag_file_of c) ''Failed to write tag file'' e), h2)
           | (Inr u, h2) \<Rightarrow> (Ok (), h2)))"

definition fmt_dir_of :: "artifact_commit \<Rightarrow> string" where
  "fmt_dir_of c = path_join (storage_root c) (format_ext (ac_format c))"

text \<open>Replace whatever is at a path by a symbolic link; failures of either step are ignored or logged.\<close>

definition relink :: "path \<Rightarrow> string \<Rightarrow> host \<Rightarrow> host" where
  "relink t s h = snd (at_path s (make_symlink t) (snd (at_path s remove_file h)))"

definition link_name :: "artifact_commit \<Rightarrow> string \<Rightarrow> string" where
  "link_name c stem = path_join (fmt_dir_of c) (stem @ ''.'' @ format_ext (ac_format c))"

definition commit_links :: "artifact_commit \<Rightarrow> host \<Rightarrow> host" where
  "commit_links c h =
     (let link_target = unwrap_or (abs_path (cas_dest c))
            (if reachable h (cas_dest c) then canonicalize h (abs_path (cas_dest c)) else Err e_not_found);
          symlink_dest = link_name c (ac_name c);
          h1 = (if ac_tag c = ''latest'' \<or> \<not> exists_at h symlink_dest then relink link_target symlink_dest h else h)
      in if ac_tag c \<noteq> ''latest'' then
           relink link_target (link_name c (ac_name c @ ''-'' @ ac_tag c))
             (relink link_target (link_name c (ac_name c @ '':'' @ ac_tag c)) h1)
         else h1)"

definition commit_artifact :: "artifact_commit \<Rightarrow> host \<Rightarrow> unit anyhow \<times> host" where
  "commit_artifact c h =
     (case rename_at (ac_stage c) (cas_dest c) h of
        (Inl e, h1) \<Rightarrow> (Err (commit_error ''committing CAS artifact to'' (cas_dest c) ''Failed to commit CAS artifact'' e), h1)
      | (Inr u, h1) \<Rightarrow>
          (case commit_tag c (commit_blob c h1) of
             (Inl e, h2) \<Rightarrow> (Err e, h2)
           | (Inr u, h2) \<Rightarrow>
               (case make_dirs_at (fmt_dir_of c) h2 of
                  (Inl e, h3) \<Rightarrow>
                    (Err (commit_error (''creating '' @ format_ext (ac_format c) @ '' directory at'') (fmt_dir_of c)
                       (''Failed to create '' @ format_ext (ac_format c) @ '' directory'') e), h3)
                | (Inr u, h3) \<Rightarrow> (Ok (), commit_links c h3))))"

definition commit_tokenizer :: "string \<Rightarrow> string \<Rightarrow> bytes \<Rightarrow> host \<Rightarrow> unit anyhow \<times> host" where
  "commit_tokenizer root name data h =
     (let st_dir = path_join root ''safetensors'' in
      case make_dirs_at st_dir h of
        (Inl e, h1) \<Rightarrow> (Err ''Failed to create safetensors directory'', h1)
      | (Inr u, h1) \<Rightarrow>
          (case write_at (path_join st_dir (name @ ''.tokenizer.json'')) data h1 of
             (Inl e, h2) \<Rightarrow> (Err ''Failed to write companion tokenizer.json'', h2)
           | (Inr u, h2) \<Rightarrow> (Ok (), h2)))"

section \<open>Clean paths\<close>

text \<open>A path without \<open>..\<close>: it is the list of its components.\<close>

definition clean :: "string \<Rightarrow> bool" where
  "clean s = (''..'' \<notin> set (path_comps s))"

lemma split_on_both: "split_on d (a @ d # b) = split_on d a @ split_on d b"
  by (induction a) (auto split: list.split simp: split_on_not_Nil)

lemma path_comps_slash: "path_comps (a @ CHR ''/'' # b) = path_comps a @ path_comps b"
  by (simp add: path_comps_def split_on_both)

lemma path_comps_join:
  assumes "\<not> starts_with b ''/''"
  shows "path_comps (path_join a b) = path_comps a @ path_comps b"
proof (cases "a = [] \<or> last a = CHR ''/''")
  case True
  then show ?thesis
  proof
    assume "a = []"
    then show ?thesis using assms by (simp add: path_join_def path_comps_def)
  next
    assume l: "last a = CHR ''/''"
    show ?thesis
    proof (cases "a = []")
      case False
      then obtain a' where a: "a = a' @ [CHR ''/'']" using l by (metis append_butlast_last_id)
      have "path_comps a = path_comps a'" using path_comps_slash [of a' "[]"] by (simp add: a path_comps_def)
      then show ?thesis using assms path_comps_slash [of a' b] by (simp add: path_join_def a)
    qed (use assms in \<open>simp add: path_join_def path_comps_def\<close>)
  qed
next
  case False
  then show ?thesis using assms by (simp add: path_join_def path_comps_slash)
qed

lemma path_comps_segment [simp]: "is_segment s \<Longrightarrow> path_comps s = [s]"
  by (simp add: path_comps_def is_segment_def split_on_no_sep)

lemma comps_join_segment [simp]: "is_segment b \<Longrightarrow> path_comps (path_join a b) = path_comps a @ [b]"
  by (subst path_comps_join) (auto simp: is_segment_def starts_with_slash dest: hd_in_set)

lemma clean_join [simp]: "is_segment b \<Longrightarrow> clean (path_join a b) = clean a"
  by (simp add: clean_def) (auto simp: is_segment_def)

lemma walk_clean: "''..'' \<notin> set cs \<Longrightarrow> walk p cs = p @ cs"
  by (induction p cs rule: walk.induct) auto

lemma reach_clean: "''..'' \<notin> set cs \<Longrightarrow> reach h p cs"
  by (induction h p cs rule: reach.induct) auto

lemma abs_path_clean: "clean s \<Longrightarrow> abs_path s = path_comps s"
  by (simp add: clean_def abs_path_def join_def walk_clean)

lemma reachable_clean: "clean s \<Longrightarrow> reachable h s"
  by (simp add: clean_def reachable_def reach_clean)

lemma at_path_clean: "clean s \<Longrightarrow> at_path s f h = f (path_comps s) h"
  by (simp add: at_path_def reachable_clean abs_path_clean)

lemma mkdir_at_clean: "''..'' \<notin> set cs \<Longrightarrow> mkdir_at cs h = mkdir cs h"
  by (simp add: mkdir_at_def walk_clean reach_clean)

lemma make_dirs_clean: "''..'' \<notin> set cs \<Longrightarrow> make_dirs cs h = create_dir_all cs h"
proof (induction cs h rule: make_dirs.induct)
  case (1 cs h)
  note m = mkdir_at_clean [OF "1.prems"] walk_clean [OF "1.prems"] reach_clean [OF "1.prems"]
  have b: "''..'' \<notin> set (butlast cs)" using "1.prems" by (meson in_set_butlastD)
  show ?case
  proof (cases "cs = []")
    case False
    obtain r1 h1 where m1: "mkdir cs h = (r1, h1)" by fastforce
    have "make_dirs (butlast cs) h1 = create_dir_all (butlast cs) h1" if "r1 = Inl e" "io_kind e = K_NotFound" for e
      using "1.IH" [OF False, unfolded m, OF m1 [symmetric] that b] .
    then show ?thesis using False m1
      by (subst make_dirs.simps, subst create_dir_all.simps) (auto simp: m split: sum.split prod.split)
  qed (simp add: make_dirs.simps create_dir_all.simps)
qed

lemma make_dirs_at_clean: "clean s \<Longrightarrow> make_dirs_at s h = create_dir_all (path_comps s) h"
  by (simp add: make_dirs_at_def clean_def make_dirs_clean)

lemma path_comps_ok: "clean s \<Longrightarrow> path_ok (path_comps s)"
  using path_ok_join [of "[]" s] abs_path_clean [of s] by (simp add: abs_path_def)

lemma name_segment: "is_segment n \<Longrightarrow> e \<noteq> [] \<Longrightarrow> CHR ''/'' \<notin> set e \<Longrightarrow> is_segment (n @ ''.'' @ e)"
proof -
  assume a: "is_segment n" "e \<noteq> []" "CHR ''/'' \<notin> set e"
  then have "3 \<le> length (n @ ''.'' @ e)" by (cases n; cases e) (auto simp: is_segment_def)
  then have "n @ ''.'' @ e \<noteq> ''.''" "n @ ''.'' @ e \<noteq> ''..''" by (auto simp del: length_append)
  then show ?thesis using a unfolding is_segment_def by auto
qed

end
