(* ===== verification/Ctl_Client.thy ===== *)
theory Ctl_Client
  imports Topology Varlink_Server Float_Text
begin

text \<open>
  The client side of the protocol (\<^verbatim>\<open>modelctl/src/client.rs\<close>) and the commands that are one call and its
  report: list, inspect, pin, unpin and prune.  \<open>peer\<close> is what listens on a socket: the bytes it answers
  to a request until it closes, or the I/O error of the exchange.  A command yields the lines it
  prints, or the text of its error; \<open>pretty\<close> is the indented printer of the JSON library.
\<close>

definition MAX_REPLY_BYTES :: nat where "MAX_REPLY_BYTES = 1024 * 1024"

text \<open>The loop that reads one byte at a time up to the NUL.\<close>

fun read_reply :: "bytes \<Rightarrow> bytes \<Rightarrow> bytes anyhow" where
  "read_reply [] buf = Err ''Unexpected EOF reading Varlink reply''"
| "read_reply (b # bs) buf =
     (if b = CHR 0x00 then Ok buf
      else if MAX_REPLY_BYTES \<le> length buf then Err (''Varlink reply exceeded '' @ show_nat MAX_REPLY_BYTES @ '' bytes'')
      else read_reply bs (buf @ [b]))"

definition call_bytes :: "json_lib \<Rightarrow> string \<Rightarrow> json option \<Rightarrow> bytes" where
  "call_bytes J method params =
     jl_show J (json_object [(''method'', J_str method), (''parameters'', opt_or params J_null)]) @ [CHR 0x00]"

definition reply_value :: "json \<Rightarrow> json anyhow" where
  "reply_value reply =
     (case get_str reply ''error'' of
        Some err \<Rightarrow> Err (''Varlink error: '' @ err)
      | None \<Rightarrow> Ok (opt_or (json_get reply ''parameters'') J_null))"

definition client_call :: "json_lib \<Rightarrow> peer \<Rightarrow> string \<Rightarrow> string \<Rightarrow> json option \<Rightarrow> json anyhow" where
  "client_call J peer sock method params =
     (case peer sock (call_bytes J method params) of
        Inl e \<Rightarrow> Err (io_text e)
      | Inr stream \<Rightarrow>
          (case read_reply stream [] of
             Inl e \<Rightarrow> Err e
           | Inr buf \<Rightarrow> (case jl_parse J buf of Inl e \<Rightarrow> Err e | Inr reply \<Rightarrow> reply_value reply)))"

section \<open>Reports\<close>

text \<open>Left-aligned in a column: the width counts characters, not bytes.\<close>

definition char_count :: "string \<Rightarrow> nat" where
  "char_count s = length (filter (\<lambda>c. \<not> in_range 128 191 c) s)"

definition pad_right :: "nat \<Rightarrow> string \<Rightarrow> string" where
  "pad_right n s = s @ replicate (n - char_count s) (CHR '' '')"

text \<open>\<open>bytes as f64 / unit as f64\<close> for a unit that is a power of two, to \<open>p\<close> decimals.\<close>

definition show_ratio :: "nat \<Rightarrow> nat \<Rightarrow> nat \<Rightarrow> string" where
  "show_ratio p k b = show_fixed p (Fin False (round_53 b) (- int k))"

definition format_bytes :: "nat \<Rightarrow> string" where
  "format_bytes b =
     (if 1024 * (1024 * 1024) \<le> b then show_ratio 2 30 b @ '' GiB''
      else if 1024 * 1024 \<le> b then show_ratio 1 20 b @ '' MiB''
      else if 1024 \<le> b then show_ratio 0 10 b @ '' KiB''
      else show_nat b @ '' B'')"

definition get_bool :: "json \<Rightarrow> string \<Rightarrow> bool option" where
  "get_bool v k = Option.bind (json_get v k) as_bool"

definition table_row :: "string \<Rightarrow> string \<Rightarrow> string \<Rightarrow> string \<Rightarrow> string" where
  "table_row a b c d = pad_right 24 a @ '' '' @ pad_right 12 b @ '' '' @ pad_right 10 c @ '' '' @ pad_right 64 d"

definition model_line :: "json \<Rightarrow> string" where
  "model_line m =
     table_row (opt_or (get_str m ''id'') ''-'') (format_bytes (opt_or (get_u64 m ''size_bytes'') 0))
       (if opt_or (get_bool m ''pinned'') False then ''yes'' else ''no'') (opt_or (get_str m ''digest'') ''-'')"

definition list_lines :: "json \<Rightarrow> string list" where
  "list_lines params =
     (let models = opt_or (get_array params ''models'') [] in
      if models = [] then [''No models registered in CAS store.'']
      else table_row ''ID'' ''SIZE'' ''PINNED'' ''DIGEST'' #
        (replicate 24 (CHR ''-'') @ '' '' @ replicate 12 (CHR ''-'') @ '' '' @ replicate 10 (CHR ''-'') @ '' '' @ replicate 64 (CHR ''-'')) #
        map model_line models)"

definition run_list :: "json_lib \<Rightarrow> (json \<Rightarrow> string) \<Rightarrow> peer \<Rightarrow> string \<Rightarrow> bool \<Rightarrow> string list anyhow" where
  "run_list J pretty peer sock json_output =
     (case client_call J peer sock ''io.syntrop.Model1.List'' None of
        Inl e \<Rightarrow> Err e
      | Inr params \<Rightarrow> Ok (if json_output then [pretty params] else list_lines params))"

definition inspect_lines :: "string \<Rightarrow> json \<Rightarrow> string list" where
  "inspect_lines ident params =
     (case json_get params ''info'' of
        None \<Rightarrow> []
      | Some info \<Rightarrow>
          [''Model: '' @ ident,
           ''  Digest:   '' @ opt_or (get_str info ''digest'') ''-'',
           ''  Size:     '' @ show_nat (opt_or (get_u64 info ''size_bytes'') 0) @ '' bytes'',
           ''  Format:   '' @ opt_or (get_str info ''format'') ''-'',
           ''  Pinned:   '' @ (if opt_or (get_bool info ''pinned'') False then ''true'' else ''false'')])"

definition run_inspect :: "json_lib \<Rightarrow> (json \<Rightarrow> string) \<Rightarrow> peer \<Rightarrow> string \<Rightarrow> string \<Rightarrow> bool \<Rightarrow> string list anyhow" where
  "run_inspect J pretty peer sock ident json_output =
     (case client_call J peer sock ''io.syntrop.Model1.Inspect'' (ident_member ident) of
        Inl e \<Rightarrow> Err e
      | Inr params \<Rightarrow> Ok (if json_output then [pretty params] else inspect_lines ident params))"

definition run_pin :: "json_lib \<Rightarrow> peer \<Rightarrow> string \<Rightarrow> string \<Rightarrow> string list anyhow" where
  "run_pin J peer sock ident =
     (case client_call J peer sock ''io.syntrop.Model1.Pin'' (ident_member ident) of
        Inl e \<Rightarrow> Err e
      | Inr params \<Rightarrow> Ok [''Pinned model '' @ [CHR 0x27] @ ident @ [CHR 0x27] @ '' against storage eviction.''])"

definition run_unpin :: "json_lib \<Rightarrow> peer \<Rightarrow> string \<Rightarrow> string \<Rightarrow> string list anyhow" where
  "run_unpin J peer sock ident =
     (case client_call J peer sock ''io.syntrop.Model1.Unpin'' (ident_member ident) of
        Inl e \<Rightarrow> Err e
      | Inr params \<Rightarrow> Ok [''Unpinned model '' @ [CHR 0x27] @ ident @ [CHR 0x27] @ ''.''])"

definition run_prune :: "json_lib \<Rightarrow> peer \<Rightarrow> string \<Rightarrow> nat \<Rightarrow> string list anyhow" where
  "run_prune J peer sock max_bytes =
     (if max_bytes = 0 then Err ''--max-bytes must be greater than zero to prevent deletion of all unpinned models''
      else (case client_call J peer sock ''io.syntrop.Model1.Prune'' (Some (json_object [(''max_bytes'', jnat max_bytes)])) of
              Inl e \<Rightarrow> Err e
            | Inr params \<Rightarrow>
                Ok [''Storage reclamation complete. Reclaimed '' @
                    show_nat (opt_or (get_u64 params ''reclaimed_bytes'') 0) @ '' bytes.'']))"

section \<open>Client and server\<close>

lemma read_reply_frame:
  "CHR 0x00 \<notin> set m \<Longrightarrow> length buf + length m \<le> MAX_REPLY_BYTES \<Longrightarrow>
   read_reply (m @ CHR 0x00 # more') buf = Ok (buf @ m)"
  by (induction m arbitrary: buf) auto

lemma read_reply_bounded: "read_reply bs buf = Ok m \<Longrightarrow> length buf \<le> MAX_REPLY_BYTES \<Longrightarrow> length m \<le> MAX_REPLY_BYTES"
  by (induction bs buf rule: read_reply.induct) (auto split: if_splits)

text \<open>
  The server of the model behind the socket: the request arrives in pieces, and the bytes sent are the
  replies.
\<close>

definition server_peer :: "server_env \<Rightarrow> service_context \<Rightarrow> host \<Rightarrow> (bytes \<Rightarrow> bytes list) \<Rightarrow> peer" where
  "server_peer env ctx h pieces sock request =
     Ok (concat (cn_sent (snd (handle_varlink_client env ctx (map Readable (pieces request)) (new_connection h)))))"

lemma reply_value_reply:
  "reply_value (reply_json r) =
    (case vr_error r of Some e \<Rightarrow> Err (''Varlink error: '' @ e) | None \<Rightarrow> Ok (opt_or (vr_parameters r) J_null))"
  by (auto simp: reply_value_def reply_json_def opt_member_def get_str_def split: option.split)

lemma server_peer_single:
  assumes w: "\<And>n. se_write env n = None" and m: "CHR 0x00 \<notin> set m" "length m + READ_CHUNK \<le> MAX_MSG_BYTES"
    and cut: "concat (pieces (m @ [CHR 0x00])) = m @ [CHR 0x00]"
      "\<forall>bs \<in> set (pieces (m @ [CHR 0x00])). bs \<noteq> [] \<and> length bs \<le> READ_CHUNK"
    and a: "answer_message env ctx m h = Some (r, h')"
  shows "server_peer env ctx h pieces sock (m @ [CHR 0x00]) = Ok (to_bytes (se_json env) r)"
    and "cn_host (snd (handle_varlink_client env ctx (map Readable (pieces (m @ [CHR 0x00]))) (new_connection h))) = h'"
proof -
  have s: "split_on (CHR 0x00) (m @ [CHR 0x00]) = [m, []]"
    using m(1) by (simp add: split_on_once [of _ "m @ [CHR 0x00]"])
  have f: "fits (m @ [CHR 0x00])" using m(2) by (simp add: fits_def s READ_CHUNK_def MAX_MSG_BYTES_def)
  have "handle_varlink_client env ctx (map Readable (pieces (m @ [CHR 0x00]))) (new_connection h) =
      (Conn_Open, \<lparr>cn_buffer = [], cn_sent = [to_bytes (se_json env) r], cn_host = h'\<rparr>)"
    using serve_chunks [of env "new_connection h" "pieces (m @ [CHR 0x00])" ctx, OF w] f cut a
    by (simp add: new_connection_def s)
  then show "server_peer env ctx h pieces sock (m @ [CHR 0x00]) = Ok (to_bytes (se_json env) r)"
    and "cn_host (snd (handle_varlink_client env ctx (map Readable (pieces (m @ [CHR 0x00]))) (new_connection h))) = h'"
    by (simp_all add: server_peer_def)
qed

text \<open>
  When one call and its reply get through: the printed call stays a read below the cap and is decoded as
  that call, the printed reply is within the client's cap and parses back, neither contains a NUL, and
  the kernel cuts the request into pieces that are read one by one.
\<close>

definition exchange_ok :: "server_env \<Rightarrow> (bytes \<Rightarrow> bytes list) \<Rightarrow> string \<Rightarrow> json option \<Rightarrow> varlink_reply \<Rightarrow> bool" where
  "exchange_ok env pieces meth params r =
     (let J = se_json env; reply = jl_show J (reply_json r);
          call = jl_show J (json_object [(''method'', J_str meth), (''parameters'', opt_or params J_null)])
      in (\<forall>n. se_write env n = None) \<and> CHR 0x00 \<notin> set call \<and> length call + READ_CHUNK \<le> MAX_MSG_BYTES \<and>
         concat (pieces (call @ [CHR 0x00])) = call @ [CHR 0x00] \<and>
         (\<forall>bs \<in> set (pieces (call @ [CHR 0x00])). bs \<noteq> [] \<and> length bs \<le> READ_CHUNK) \<and>
         se_call env call = Ok \<lparr>vc_method = meth, vc_parameters = params, vc_more = None\<rparr> \<and>
         json_roundtrips J (reply_json r) \<and> CHR 0x00 \<notin> set reply \<and> length reply \<le> MAX_REPLY_BYTES)"

lemma client_call_server:
  assumes "exchange_ok env pieces meth params r"
    and "dispatch_call env \<lparr>vc_method = meth, vc_parameters = params, vc_more = None\<rparr> ctx h = Some (r, h')"
  shows "client_call (se_json env) (server_peer env ctx h pieces) sock meth params =
      (case vr_error r of Some e \<Rightarrow> Err (''Varlink error: '' @ e) | None \<Rightarrow> Ok (opt_or (vr_parameters r) J_null))"
    and "cn_host (snd (handle_varlink_client env ctx (map Readable (pieces (call_bytes (se_json env) meth params))) (new_connection h))) = h'"
proof -
  let ?J = "se_json env" and ?call = "jl_show (se_json env) (json_object [(''method'', J_str meth), (''parameters'', opt_or params J_null)])"
  note E = assms(1) [unfolded exchange_ok_def Let_def]
  have "answer_message env ctx ?call h = Some (r, h')" using E assms(2) by (simp add: answer_message_def)
  note S = server_peer_single [of env ?call pieces ctx h r h', OF _ _ _ _ _ this]
  have c: "call_bytes ?J meth params = ?call @ [CHR 0x00]" by (simp add: call_bytes_def)
  have "read_reply (to_bytes ?J r) [] = Ok (jl_show ?J (reply_json r))"
    using read_reply_frame [of "jl_show ?J (reply_json r)" "[]" "[]"] E by (simp add: to_bytes_def)
  then show "client_call (se_json env) (server_peer env ctx h pieces) sock meth params =
      (case vr_error r of Some e \<Rightarrow> Err (''Varlink error: '' @ e) | None \<Rightarrow> Ok (opt_or (vr_parameters r) J_null))"
    using S(1) E by (simp add: client_call_def c json_roundtrips_def reply_value_reply)
  show "cn_host (snd (handle_varlink_client env ctx (map Readable (pieces (call_bytes (se_json env) meth params))) (new_connection h))) = h'"
    using S(2) E by (simp add: c)
qed

text \<open>A server with a printer that tells the reply to one call from everything else.\<close>

definition info_reply :: varlink_reply where
  "info_reply = the (handle_service_call ''org.varlink.service.GetInfo'' None)"

definition info_env :: server_env where
  "info_env = \<lparr>se_json = \<lparr>jl_parse = (\<lambda>b. if b = ''i'' then Ok (reply_json info_reply) else Err ''no''),
       jl_show = (\<lambda>v. if v = reply_json info_reply then ''i'' else ''call'')\<rparr>,
     se_call = (\<lambda>b. if b = ''call'' then Ok \<lparr>vc_method = ''org.varlink.service.GetInfo'', vc_parameters = None, vc_more = None\<rparr>
       else Err ''no''), se_stack = 8, se_write = (\<lambda>n. None)\<rparr>"

text \<open>
  C17. Calls arrive.  A call of the client against the server yields what the dispatch of the server
  answers to exactly that method with exactly those parameters, its error as an error and its
  parameters as a value, and leaves the server's store as that dispatch leaves it: however the kernel
  cuts the request, provided that the printed call stays 1024 bytes below the cap, the printed reply
  is within the client's cap, neither contains a NUL, the decoder reads back the call and the JSON library the reply.
\<close>

theorem client_call_dispatch:
  fixes J :: json_lib and meth :: string and params :: "json option"
  defines "call \<equiv> jl_show J (json_object [(''method'', J_str meth), (''parameters'', opt_or params J_null)])"
  assumes "se_json env = J" and "\<And>n. se_write env n = None"
    and "CHR 0x00 \<notin> set call" and "length call + READ_CHUNK \<le> MAX_MSG_BYTES"
    and "concat (pieces (call @ [CHR 0x00])) = call @ [CHR 0x00]"
    and "\<forall>bs \<in> set (pieces (call @ [CHR 0x00])). bs \<noteq> [] \<and> length bs \<le> READ_CHUNK"
    and "se_call env call = Ok \<lparr>vc_method = meth, vc_parameters = params, vc_more = None\<rparr>"
    and "dispatch_call env \<lparr>vc_method = meth, vc_parameters = params, vc_more = None\<rparr> ctx h = Some (r, h')"
    and "json_roundtrips J (reply_json r)" and "CHR 0x00 \<notin> set (jl_show J (reply_json r))"
    and "length (jl_show J (reply_json r)) \<le> MAX_REPLY_BYTES"
  shows "client_call J (server_peer env ctx h pieces) sock meth params =
      (case vr_error r of Some e \<Rightarrow> Err (''Varlink error: '' @ e) | None \<Rightarrow> Ok (opt_or (vr_parameters r) J_null)) \<and>
    cn_host (snd (handle_varlink_client env ctx (map Readable (pieces (call @ [CHR 0x00]))) (new_connection h))) = h'"
proof -
  have "exchange_ok env pieces meth params r"
    using assms(2-8,10-12) by (simp add: exchange_ok_def call_def)
  from client_call_server [OF this assms(9)] show ?thesis by (simp add: assms(2) call_bytes_def call_def)
qed

theorem client_call_dispatch_witness:
  "client_call (se_json info_env) (server_peer info_env demo_context demo_host (map (\<lambda>c. [c]))) ''s''
     ''org.varlink.service.GetInfo'' None = Ok (the (vr_parameters info_reply))"
proof -
  let ?J = "se_json info_env" and ?m = "''org.varlink.service.GetInfo''"
  have other: "json_object [(''method'', J_str ?m), (''parameters'', J_null)] \<noteq> reply_json info_reply" by code_simp
  have call: "jl_show ?J (json_object [(''method'', J_str ?m), (''parameters'', opt_or None J_null)]) = ''call''"
    using other by (simp add: info_env_def)
  have decode: "se_call info_env ''call'' = Ok \<lparr>vc_method = ?m, vc_parameters = None, vc_more = None\<rparr>" by (simp add: info_env_def)
  have dispatch: "dispatch_call info_env \<lparr>vc_method = ?m, vc_parameters = None, vc_more = None\<rparr> demo_context demo_host =
      Some (info_reply, demo_host)"
    by (simp add: dispatch_call_def info_reply_def handle_service_call_def)
  have reply: "jl_show ?J (reply_json info_reply) = ''i''" "json_roundtrips ?J (reply_json info_reply)"
    by (simp_all add: info_env_def json_roundtrips_def)
  have ok: "vr_error info_reply = None" "\<exists>p. vr_parameters info_reply = Some p"
    by (simp_all add: info_reply_def handle_service_call_def)
  show ?thesis
    using client_call_dispatch [of info_env ?J ?m None "map (\<lambda>c. [c])" demo_context demo_host info_reply demo_host "''s''",
        OF refl, unfolded call reply(1), OF _ _ _ _ _ decode dispatch reply(2)] ok
    by (auto simp: info_env_def READ_CHUNK_def MAX_MSG_BYTES_def MAX_REPLY_BYTES_def opt_or_def)
qed

end
