(* ===== verification/Pull_Cmd.thy ===== *)
theory Pull_Cmd
  imports Commit_Artifact Ctl_Client
begin

text \<open>
  The pull workflow (\<^verbatim>\<open>pull/stream.rs\<close>) and the two commands that only fix its format (\<^verbatim>\<open>visual/*.rs\<close>).
  The state of a run is the file system, the process-wide download counter, the requests sent so far
  and the lines printed; log lines and the progress bar are not modelled.  A process that listens on a
  socket may change the file system when it is called.
\<close>

definition ROUTER_SOCKET :: string where "ROUTER_SOCKET = ''/run/syntrop/io.syntrop.Router1''"

record 'h pull_env =
  pe_hub :: hub_env
  pe_hasher :: "'h hasher"
  pe_json :: json_lib
  pe_serve :: "string \<Rightarrow> bytes \<Rightarrow> host \<Rightarrow> (io_error + bytes) \<times> host"
  pe_nanos :: nat

record pull_state =
  ps_host :: host
  ps_seq :: nat
  ps_log :: "request list"
  ps_out :: "string list"

definition say :: "string \<Rightarrow> pull_state \<Rightarrow> pull_state" where
  "say line s = s\<lparr>ps_out := ps_out s @ [line]\<rparr>"

section \<open>Notifications\<close>

text \<open>A call of which only the effect on the other side matters: its outcome is logged.\<close>

definition notify_call :: "'h pull_env \<Rightarrow> string \<Rightarrow> string \<Rightarrow> json option \<Rightarrow> host \<Rightarrow> host" where
  "notify_call env sock method params h =
     (if \<not> exists_at h sock then h else snd (pe_serve env sock (call_bytes (pe_json env) method params) h))"

definition register_with_modeld :: "'h pull_env \<Rightarrow> string \<Rightarrow> string \<Rightarrow> string \<Rightarrow> string \<Rightarrow> host \<Rightarrow> host" where
  "register_with_modeld env sock name tag digest h =
     notify_call env sock ''io.syntrop.Model1.Register''
       (Some (json_object [(''id'', J_str name), (''tag'', J_str tag), (''digest'', J_str digest)])) h"

definition notify_router_reload :: "'h pull_env \<Rightarrow> string \<Rightarrow> host \<Rightarrow> host" where
  "notify_router_reload env sock h = notify_call env sock ''io.syntrop.Router1.Reload'' None h"

section \<open>The download\<close>

text \<open>The digest of a model that is already there.\<close>

definition present_digest :: "host \<Rightarrow> string \<Rightarrow> resolved_model \<Rightarrow> string option" where
  "present_digest h root r =
     (let tag_file = path_join (path_join (path_join root ''tags'') (rm_name r)) (rm_tag r) in
      if \<not> is_file_at h tag_file then None
      else (let digest_trim = trim (unwrap_or '''' (read_to_string h (abs_path tag_file)));
                cas_dir = path_join root ''cas'';
                flat_dest = path_join cas_dir (''sha256-'' @ digest_trim @ ''.'' @ format_ext (rm_format r));
                blob_dest = path_join (path_join (path_join cas_dir ''blobs'') ''sha256'') digest_trim
            in if is_file_at h flat_dest \<or> is_file_at h blob_dest then Some digest_trim else None))"

definition replace_char :: "char \<Rightarrow> char \<Rightarrow> string \<Rightarrow> string" where
  "replace_char a b s = map (\<lambda>c. if c = a then b else c) s"

definition stage_filename :: "nat \<Rightarrow> resolved_model \<Rightarrow> nat \<Rightarrow> nat \<Rightarrow> string" where
  "stage_filename process r seq nanos =
     ''pull-'' @ show_nat process @ ''-'' @ replace_char (CHR ''/'') (CHR ''-'') (rm_name r) @ ''-'' @
     replace_char (CHR '':'') (CHR ''-'') (rm_tag r) @ ''-'' @ show_nat seq @ ''-'' @ show_nat nanos"

text \<open>The loop over the chunks; the error is that of a refused write.\<close>

fun download_loop :: "'h hasher \<Rightarrow> path \<Rightarrow> nat \<Rightarrow> bytes list \<Rightarrow> 'h \<Rightarrow> host \<Rightarrow> 'h anyhow \<times> host" where
  "download_loop H p i [] st h = (Ok st, h)"
| "download_loop H p i (b # bs) st h =
     (case write_all p i b h of
        (Inl e, h1) \<Rightarrow> (Err (''Disk write failure: '' @ io_text e), h1)
      | (Inr u, h1) \<Rightarrow> download_loop H p i bs (sha_update H st b) h1)"

definition incoming_of :: "string \<Rightarrow> string" where
  "incoming_of root = path_join (path_join root ''cas'') ''incoming''"

text \<open>
  The staging file: created, filled and hashed.  The guard removes it when the function is left before
  it is disarmed.  The result is the path of the file and the digest.
\<close>

definition download :: "'h pull_env \<Rightarrow> string \<Rightarrow> resolved_model \<Rightarrow> response \<Rightarrow> nat \<Rightarrow> host \<Rightarrow> (string \<times> string) anyhow \<times> host" where
  "download env root r resp seq h =
     (let stage = path_join (incoming_of root) (stage_filename (pid h) r seq (pe_nanos env)) in
      case at_path stage create_file h of
        (Inl e, h1) \<Rightarrow> (Err (commit_error ''creating staging file at'' stage (''Failed to create staging file at '' @ stage) e), h1)
      | (Inr i, h1) \<Rightarrow>
          (case download_loop (pe_hasher env) (abs_path stage) i (rs_chunks resp) (sha_new (pe_hasher env)) h1 of
             (Inl e, h2) \<Rightarrow> (Err e, snd (at_path stage remove_file h2))
           | (Inr st, h2) \<Rightarrow>
               if rs_cut resp then (Err ''Network error during streaming download'', snd (at_path stage remove_file h2))
               else (Ok (stage, hex_bytes (sha_finalize (pe_hasher env) st)), h2)))"

text \<open>The companion tokenizer: every failure is ignored.\<close>

definition fetch_tokenizer :: "'h pull_env \<Rightarrow> string \<Rightarrow> resolved_model \<Rightarrow> pull_state \<Rightarrow> pull_state" where
  "fetch_tokenizer env root r s =
     (case rm_tokenizer r of
        None \<Rightarrow> s
      | Some tok_url \<Rightarrow>
          (let s1 = say ''  Downloading companion tokenizer.json...'' s;
               req = apply_hf_auth (pe_hub env) (ps_host s1) (get_request tok_url) tok_url;
               s2 = s1\<lparr>ps_log := ps_log s1 @ [req]\<rparr>
           in case he_http (pe_hub env) req of
                None \<Rightarrow> s2
              | Some resp \<Rightarrow>
                  (case (if is_success resp then whole_body resp else None) of
                     None \<Rightarrow> s2
                   | Some data \<Rightarrow>
                       say ''  Companion tokenizer.json saved''
                         (s2\<lparr>ps_host := snd (commit_tokenizer root (rm_name r) data (ps_host s2))\<rparr>))))"

definition artifact_of :: "string \<Rightarrow> string \<Rightarrow> string \<Rightarrow> resolved_model \<Rightarrow> artifact_commit" where
  "artifact_of root stage digest r =
     \<lparr>storage_root = root, ac_stage = stage, ac_digest = digest, ac_format = rm_format r,
      ac_name = rm_name r, ac_tag = rm_tag r\<rparr>"

text \<open>What follows a committed artifact.\<close>

definition announce :: "'h pull_env \<Rightarrow> string \<Rightarrow> string \<Rightarrow> resolved_model \<Rightarrow> string \<Rightarrow> pull_state \<Rightarrow> pull_state" where
  "announce env root sock r digest s =
     (let s1 = fetch_tokenizer env root r s;
          h1 = register_with_modeld env sock (rm_name r) (rm_tag r) digest (ps_host s1);
          router = opt_or (he_var (pe_hub env) ''SYNTROP_ROUTER_SOCKET'') ROUTER_SOCKET
      in say (''Successfully pulled and registered '' @ rm_name r @ '':'' @ rm_tag r)
           (s1\<lparr>ps_host := notify_router_reload env router h1\<rparr>))"

text \<open>From the answered download request on.\<close>

definition receive_model ::
    "'h pull_env \<Rightarrow> string \<Rightarrow> string \<Rightarrow> resolved_model \<Rightarrow> response \<Rightarrow> pull_state \<Rightarrow> unit anyhow \<times> pull_state" where
  "receive_model env root sock r resp s =
     (case make_dirs_at (incoming_of root) (ps_host s) of
        (Inl e, h1) \<Rightarrow> (Err (commit_error ''creating incoming directory at'' (incoming_of root)
          (''Failed to create incoming directory at '' @ incoming_of root) e), s\<lparr>ps_host := h1\<rparr>)
      | (Inr u, h1) \<Rightarrow>
          (let (res, h2) = download env root r resp (ps_seq s) h1;
               s1 = s\<lparr>ps_host := h2, ps_seq := (ps_seq s + 1) mod 2 ^ 64\<rparr>
           in case res of
                Inl e \<Rightarrow> (Err e, s1)
              | Inr (stage, digest) \<Rightarrow>
                  (let s2 = say (''  SHA-256: '' @ digest) s1;
                       (res, h3) = commit_artifact (artifact_of root stage digest r) (ps_host s2);
                       s3 = s2\<lparr>ps_host := h3\<rparr>
                   in case res of Inl e \<Rightarrow> (Err e, s3) | Inr u \<Rightarrow> (Ok (), announce env root sock r digest s3))))"

definition already_present :: "resolved_model \<Rightarrow> string \<Rightarrow> string" where
  "already_present r digest = ''Model '' @ rm_name r @ '':'' @ rm_tag r @ '' is already present (digest: '' @ digest @
     ''). Use --force to re-download.''"

text \<open>From the resolved model on.\<close>

definition pull_resolved ::
    "'h pull_env \<Rightarrow> string \<Rightarrow> string \<Rightarrow> bool \<Rightarrow> resolved_model \<Rightarrow> pull_state \<Rightarrow> unit anyhow \<times> pull_state" where
  "pull_resolved env root sock force r s0 =
     (let s = say (''  Source: '' @ rm_url r) (say (''  Target: '' @ rm_name r @ '':'' @ rm_tag r) s0) in
      case (if force then None else present_digest (ps_host s) root r) of
        Some d \<Rightarrow> (Ok (), say (already_present r d) s)
      | None \<Rightarrow>
          (let req = apply_hf_auth (pe_hub env) (ps_host s) (get_request (rm_url r)) (rm_url r);
               s1 = s\<lparr>ps_log := ps_log s @ [req]\<rparr>
           in case he_http (pe_hub env) req of
                None \<Rightarrow> (Err (''Failed to connect to '' @ rm_url r), s1)
              | Some resp \<Rightarrow>
                  if \<not> is_success resp then (Err (''Download failed with HTTP status '' @ status_text resp), s1)
                  else receive_model env root sock r resp s1))"

text \<open>The whole command; \<open>None\<close> is the panic of the file selection.\<close>

definition run_pull ::
    "'h pull_env \<Rightarrow> string \<Rightarrow> string \<Rightarrow> string \<Rightarrow> string \<Rightarrow> string option \<Rightarrow> string option \<Rightarrow> bool \<Rightarrow>
     pull_state \<Rightarrow> unit anyhow option \<times> pull_state" where
  "run_pull env root sock model_spec format quant tag_override force s =
     (let s1 = say (''Resolving model: '' @ model_spec @ '' (format: '' @ format @ '')'') s;
          (reqs, res) = resolve_model_with_format (pe_hub env) (ps_host s1) model_spec format quant tag_override;
          s2 = s1\<lparr>ps_log := ps_log s1 @ reqs\<rparr>
      in case res of
           None \<Rightarrow> (None, s2)
         | Some (Inl e) \<Rightarrow> (Some (Err e), s2)
         | Some (Inr r) \<Rightarrow> (let (out, s3) = pull_resolved env root sock force r s2 in (Some out, s3)))"

section \<open>Visual models and adapters\<close>

text \<open>The last line is printed only when the pull succeeded.\<close>

definition say_done :: "string \<Rightarrow> unit anyhow option \<times> pull_state \<Rightarrow> unit anyhow option \<times> pull_state" where
  "say_done line res = (case res of (Some (Inr u), s) \<Rightarrow> (Some (Ok ()), say line s) | _ \<Rightarrow> res)"

definition run_visual_pull ::
    "'h pull_env \<Rightarrow> string \<Rightarrow> string \<Rightarrow> string \<Rightarrow> string option \<Rightarrow> bool \<Rightarrow> pull_state \<Rightarrow> unit anyhow option \<times> pull_state" where
  "run_visual_pull env root sock model_spec tag force s =
     say_done ''Visual model committed to CAS successfully.''
       (run_pull env root sock model_spec ''safetensors'' None tag force (say (''Pulling visual diffusion model: '' @ model_spec) s))"

definition run_lora_pull ::
    "'h pull_env \<Rightarrow> string \<Rightarrow> string \<Rightarrow> string \<Rightarrow> string option \<Rightarrow> bool \<Rightarrow> pull_state \<Rightarrow> unit anyhow option \<times> pull_state" where
  "run_lora_pull env root sock lora_spec tag force s =
     say_done ''LoRA adapter committed to CAS successfully.''
       (run_pull env root sock lora_spec ''safetensors'' None tag force (say (''Pulling visual LoRA adapter: '' @ lora_spec) s))"

section \<open>Requests\<close>

text \<open>A request to the hub, with the token of the environment or without one.\<close>

definition hub_request :: "hub_env \<Rightarrow> request \<Rightarrow> bool" where
  "hub_request env r = (hub_url (rq_url r) \<and> (rq_bearer r = None \<or> (\<exists>h. rq_bearer r = resolve_hf_token env h)))"

lemma hub_request_auth: "hub_url url \<Longrightarrow> hub_request env (apply_hf_auth env h (get_request url) url)"
  by (auto simp: hub_request_def apply_hf_auth_def split: option.split intro: exI [of _ h])

text \<open>The log of a state after some more requests.\<close>

definition sends :: "hub_env \<Rightarrow> nat \<Rightarrow> pull_state \<Rightarrow> pull_state \<Rightarrow> bool" where
  "sends env n s s' = (\<exists>new. ps_log s' = ps_log s @ new \<and> length new \<le> n \<and> list_all (hub_request env) new)"

lemma sends_same: "ps_log s' = ps_log s \<Longrightarrow> sends env n s s'"
  by (simp add: sends_def)

lemma sends_more:
  assumes "ps_log s1 = ps_log s @ rs" and "list_all (hub_request env) rs" and "sends env n s1 s'" and "length rs + n \<le> m"
  shows "sends env m s s'"
proof -
  from assms(3) obtain new where "ps_log s' = ps_log s1 @ new" "length new \<le> n" "list_all (hub_request env) new"
    by (auto simp: sends_def)
  with assms show ?thesis by (simp add: sends_def)
qed

lemma say_log [simp]: "ps_log (say l s) = ps_log s" "ps_host (say l s) = ps_host s"
  by (simp_all add: say_def)

lemma fetch_tokenizer_sends:
  assumes "\<And>u. rm_tokenizer r = Some u \<Longrightarrow> hub_url u"
  shows "sends (pe_hub env) 1 s (fetch_tokenizer env root r s)"
proof (cases "rm_tokenizer r")
  case (Some u)
  let ?req = "apply_hf_auth (pe_hub env) (ps_host s) (get_request u) u"
  have "ps_log (fetch_tokenizer env root r s) = ps_log s @ [?req]"
    by (simp add: fetch_tokenizer_def Some Let_def split: option.split)
  with assms [OF Some] show ?thesis by (simp add: sends_def hub_request_auth)
qed (simp add: fetch_tokenizer_def sends_same)

lemma receive_model_sends:
  assumes "\<And>u. rm_tokenizer r = Some u \<Longrightarrow> hub_url u" and "receive_model env root sock r resp s = (out, s')"
  shows "sends (pe_hub env) 1 s s'"
proof -
  have ann: "sends (pe_hub env) 1 s2 (announce env root sock r d s2)" for d s2
    using fetch_tokenizer_sends [of r env s2 root, OF assms(1)] by (simp add: announce_def Let_def sends_def)
  have step: "ps_log s2 = ps_log s \<Longrightarrow> sends (pe_hub env) (Suc 0) s (announce env root sock r d s2)" for d s2
    using ann [of s2 d] by (simp add: sends_def)
  obtain md h1 where md: "make_dirs_at (incoming_of root) (ps_host s) = (md, h1)" by fastforce
  obtain res h2 where res: "download env root r resp (ps_seq s) h1 = (res, h2)" by fastforce
  show ?thesis
  proof (cases md)
    case (Inr u)
    show ?thesis
    proof (cases res)
      case (Inr sd)
      then obtain stage d where sd: "res = Inr (stage, d)" by (cases sd) auto
      obtain cr h3 where cr: "commit_artifact (artifact_of root stage d r) h2 = (cr, h3)" by fastforce
      show ?thesis
        using assms(2) md \<open>md = Inr u\<close> res sd cr step
        by (cases cr) (auto simp: receive_model_def Let_def sends_same)
    qed (use assms(2) md \<open>md = Inr u\<close> res in \<open>auto simp: receive_model_def Let_def sends_same\<close>)
  qed (use assms(2) md in \<open>auto simp: receive_model_def sends_same\<close>)
qed

lemma pull_resolved_sends:
  assumes "hub_url (rm_url r)" and "\<And>u. rm_tokenizer r = Some u \<Longrightarrow> hub_url u"
    and "pull_resolved env root sock force r s = (out, s')"
  shows "sends (pe_hub env) 2 s s'"
proof -
  let ?s = "say (''  Source: '' @ rm_url r) (say (''  Target: '' @ rm_name r @ '':'' @ rm_tag r) s)"
  let ?req = "apply_hf_auth (pe_hub env) (ps_host s) (get_request (rm_url r)) (rm_url r)"
  let ?s1 = "?s\<lparr>ps_log := ps_log s @ [?req]\<rparr>"
  have req: "list_all (hub_request (pe_hub env)) [?req]" using assms(1) by (simp add: hub_request_auth)
  consider "ps_log s' = ps_log s" | "sends (pe_hub env) 1 ?s1 s'"
    using assms(3) receive_model_sends [of r env root sock _ ?s1 out s', OF assms(2)]
    by (auto simp: pull_resolved_def Let_def sends_same split: option.splits if_splits)
  then show ?thesis
  proof cases
    case 2
    then show ?thesis using sends_more [of ?s1 s "[?req]" "pe_hub env" 1 s' 2] req by simp
  qed (rule sends_same)
qed

lemma run_pull_sends: "sends (pe_hub env) 3 s (snd (run_pull env root sock spec format quant tag force s))"
proof -
  let ?s1 = "say (''Resolving model: '' @ spec @ '' (format: '' @ format @ '')'') s"
  obtain reqs res where r: "resolve_model_with_format (pe_hub env) (ps_host s) spec format quant tag = (reqs, res)"
    by (cases "resolve_model_with_format (pe_hub env) (ps_host s) spec format quant tag") auto
  have reqs: "length reqs \<le> 1" "list_all (hub_request (pe_hub env)) reqs"
    using resolve_log [OF r] by (auto simp: tree_request_def hub_request_auth hub_urls)
  let ?s2 = "?s1\<lparr>ps_log := ps_log s @ reqs\<rparr>"
  have "sends (pe_hub env) 2 ?s2 (snd (run_pull env root sock spec format quant tag force s))"
  proof (cases "\<exists>m. res = Some (Ok m)")
    case True
    then obtain m where m: "res = Some (Ok m)" by blast
    from resolved_on_hub [OF r [unfolded m]] pull_resolved_sends [of m env root sock force ?s2]
    show ?thesis by (simp add: run_pull_def Let_def r m split: prod.split)
  next
    case False
    then show ?thesis by (auto simp: run_pull_def Let_def r sends_same split: option.split sum.split)
  qed
  from sends_more [OF _ reqs(2) this, of s 3] reqs(1) show ?thesis by auto
qed

section \<open>Properties\<close>

text \<open>
  C33. Where the token goes.  A pull sends at most three requests, whatever the specification, the tag
  and the answers are, and each of them goes to an address that begins with \<^verbatim>\<open>https://huggingface.co/\<close>; the
  only credential one carries is the token of the environment.  (The check in \<open>apply_hf_auth\<close> alone
  would also accept that name elsewhere in an address.)
\<close>

theorem pull_stays_on_hub:
  "\<exists>new. ps_log (snd (run_pull env root sock spec format quant tag force s)) = ps_log s @ new \<and>
     length new \<le> 3 \<and> list_all (hub_request (pe_hub env)) new"
  using run_pull_sends by (simp add: sends_def)

end
