(* ===== verification/Pull_Safety.thy ===== *)
theory Pull_Safety
  imports Pull_Cmd Store_System
begin

text \<open>
  A pull beside the daemon: the commit of a pulled model writes into the store without going through
  its operations.  The lemmas take every step of it through the invariant of the store, for every
  refusal of the kernel except one: the copy that stands in for a refused hard link is not checked, so
  a read or write refused there leaves a broken blob, which the last theorem exhibits.
\<close>

section \<open>Steps and the invariant\<close>

text \<open>A step that makes no file and changes none, in the store only removes.\<close>

lemma store_inv_nofile:
  assumes "store_inv H root h" and "same_files h h'" and "fs_ok h'"
    and "\<And>q. lookup h' q = lookup h q \<or> lookup h' q = None \<or> (\<not> store_area root q \<and> (\<forall>i. lookup h' q \<noteq> Some (File i)))"
  shows "store_inv H root h'"
proof -
  have sub: "lookup h q = Some (File i)" if "lookup h' q = Some (File i)" for q i using assms(4) [of q] that by auto
  have sf: "inode h' j = inode h j" for j using same_files_inode [OF assms(2)] .
  have "plain h' p" if "store_area root p" for p
    using assms(4) [of p] store_invD(2) [OF assms(1) that] that by (auto simp: plain_def)
  moreover have "cas_sound H \<lparr>root_dir = root\<rparr> h'"
    using store_invD(3) [OF assms(1)] sub by (auto simp: cas_sound_def sf)
  ultimately show ?thesis using assms(1,3) sub unfolding store_inv_def by blast
qed

text \<open>A file that has one name, and that is no blob and no file of the registries.\<close>

definition private_file :: "path \<Rightarrow> path \<Rightarrow> nat \<Rightarrow> host \<Rightarrow> bool" where
  "private_file root q i h = (lookup h q = Some (File i) \<and> (\<forall>p. lookup h p = Some (File i) \<longrightarrow> p = q) \<and>
     \<not> registry_path root q \<and> (\<forall>d. is_digest_format d \<longrightarrow> q \<notin> blob_paths \<lparr>root_dir = root\<rparr> d))"

lemma private_fileD:
  assumes "private_file root q i h"
  shows "lookup h q = Some (File i)" "lookup h p = Some (File i) \<Longrightarrow> p = q" "\<not> registry_path root q"
    "is_digest_format d \<Longrightarrow> q \<notin> blob_paths \<lparr>root_dir = root\<rparr> d"
  using assms by (auto simp: private_file_def)

lemma store_inv_new_file:
  assumes inv: "store_inv H root h" and c: "create_file q h = (r, h')" and q: "path_ok q" "lookup h q = None"
    and outside: "\<not> registry_path root q" "\<And>d. is_digest_format d \<Longrightarrow> q \<notin> blob_paths \<lparr>root_dir = root\<rparr> d"
  shows "store_inv H root h' \<and> (\<forall>i. r = Ok i \<longrightarrow> private_file root q i h' \<and> content (inode h' i) = []) \<and>
    fault h' = fault h \<and> (\<forall>p. p \<noteq> q \<longrightarrow> lookup h' p = lookup h p)"
proof (cases r)
  case (Inl e)
  then show ?thesis using inv c create_file_Err by auto
next
  case (Inr i)
  have pl: "plain h q" using q(2) by (simp add: plain_def)
  note C = create_file_Ok [OF c [unfolded Inr] pl] and L = create_file_lookup [OF c [unfolded Inr] pl]
  have i: "i = next_ino h" using C q(2) by auto
  have fresh: "lookup h p \<noteq> Some (File i)" for p using staged_fresh [OF store_invD(1) [OF inv], of p i] i by auto
  have files: "lookup h' p = Some (File j) \<Longrightarrow> p = q \<and> j = i \<or> p \<noteq> q \<and> j \<noteq> i \<and> lookup h p = Some (File j)" for p j
    using L(1,2) fresh by (cases "p = q") auto
  have "private_file root q i h'" unfolding private_file_def using L(1) files outside by blast
  moreover have "cas_sound H \<lparr>root_dir = root\<rparr> h'"
    unfolding cas_sound_def
  proof (intro allI impI)
    fix d p j assume d: "is_digest_format d" and p: "p \<in> blob_paths \<lparr>root_dir = root\<rparr> d" and l: "lookup h' p = Some (File j)"
    with files [OF l] L(4) [of j] cas_soundD [OF store_invD(3) [OF inv] d p] outside(2) [OF d]
    show "hex_digest H (content (inode h' j)) = d" by auto
  qed
  moreover have "plain h' p" if "store_area root p" for p
    using create_file_plain [OF c pl] store_invD(2) [OF inv that] by simp
  moreover have "p = p'" if "registry_path root p'" "lookup h' p' = Some (File j)" "lookup h' p = Some (File j)" for p p' j
    using files [OF that(2)] files [OF that(3)] store_invD(4) [OF inv that(1)] outside(1) that(1) by auto
  ultimately show ?thesis
    using create_file_fs_ok [OF c store_invD(1) [OF inv] q(1)] L(2,3,5) Inr unfolding store_inv_def by blast
qed

lemma store_inv_fill:
  assumes inv: "store_inv H root h" and pf: "private_file root q i h" and w: "write_all q i bs h = (r, h')"
  shows "store_inv H root h' \<and> private_file root q i h' \<and> fault h' = fault h \<and> (\<forall>p. lookup h' p = lookup h p) \<and>
    content (inode h' i) = (if is_ok r then content (inode h i) @ bs else content (inode h i))"
proof (cases r)
  case (Inl e)
  then show ?thesis using inv pf w write_all_Err [of q i bs h e h'] by simp
next
  case (Inr u)
  have h': "h' = put_inode i \<lparr>content = content (inode h i) @ bs, mtime = now h\<rparr> h"
    using write_all_Ok [of q i bs h u h'] w Inr by simp
  then have look: "lookup h' p = lookup h p" for p by (simp add: fs_simps)
  have "cas_sound H \<lparr>root_dir = root\<rparr> h'"
    unfolding cas_sound_def look
  proof (intro allI impI)
    fix d p j assume d: "is_digest_format d" and p: "p \<in> blob_paths \<lparr>root_dir = root\<rparr> d" and l: "lookup h p = Some (File j)"
    then have "j \<noteq> i" using private_fileD(2,4) [OF pf] by blast
    then show "hex_digest H (content (inode h' j)) = d"
      using cas_soundD [OF store_invD(3) [OF inv] d p l] by (simp add: h' fs_simps)
  qed
  then show ?thesis
    using inv pf look write_all_fs_ok [OF w store_invD(1) [OF inv]] Inr
    by (simp add: store_inv_def plain_def private_file_def h' fs_simps)
qed

lemma store_inv_unlink:
  assumes inv: "store_inv H root h" and r: "remove_file q h = (r, h')"
  shows "store_inv H root h'"
proof (rule store_inv_removal [OF inv remove_file_same_files [OF r] remove_file_fs_ok [OF r store_invD(1) [OF inv]]])
  show "lookup h' p = lookup h p \<or> lookup h' p = None" for p using remove_file_lookup [OF r, of p] by simp
qed

text \<open>A symbolic link replaces whatever is beside the store.\<close>

lemma store_inv_relink:
  assumes inv: "store_inv H root h" and q: "clean s" "\<not> store_area root (path_comps s)" and t: "path_ok t" "nul_free t"
  shows "store_inv H root (relink t s h)"
proof -
  obtain r1 h1 where r: "remove_file (path_comps s) h = (r1, h1)" by fastforce
  obtain r2 h2 where m: "make_symlink t (path_comps s) h1 = (r2, h2)" by fastforce
  note inv1 = store_inv_unlink [OF inv r]
  have "h2 = h1 \<or> h2 = put_ent (path_comps s) (Symlink t) h1"
  proof (cases r2)
    case (Inl e)
    with m make_symlink_Err show ?thesis by blast
  next
    case (Inr u)
    with m make_symlink_Ok show ?thesis by blast
  qed
  then have sf: "same_files h1 h2" and look: "lookup h2 p = lookup h1 p \<or> p = path_comps s \<and> lookup h2 p = Some (Symlink t)" for p
    by (auto simp: fs_simps split: if_splits)
  have "store_inv H root h2"
  proof (rule store_inv_nofile [OF inv1 sf make_symlink_fs_ok [OF m store_invD(1) [OF inv1] path_comps_ok [OF q(1)] t]])
    show "lookup h2 p = lookup h1 p \<or> lookup h2 p = None \<or> \<not> store_area root p \<and> (\<forall>i. lookup h2 p \<noteq> Some (File i))" for p
      using look [of p] q(2) by auto
  qed
  then show ?thesis by (simp add: relink_def at_path_clean [OF q(1)] r m)
qed

text \<open>
  The blob under construction: its file \<open>i\<close> holds the bytes of the digest \<open>d\<close> and has only the one
  name \<open>t\<close>, a path of that digest.
\<close>

definition placed :: "'h hasher \<Rightarrow> path \<Rightarrow> string \<Rightarrow> path \<Rightarrow> nat \<Rightarrow> host \<Rightarrow> bool" where
  "placed H root d t i h = (lookup h t = Some (File i) \<and> (\<forall>p. lookup h p = Some (File i) \<longrightarrow> p = t) \<and>
     hex_digest H (content (inode h i)) = d \<and> t \<in> blob_paths \<lparr>root_dir = root\<rparr> d)"

lemma store_inv_place:
  assumes inv: "store_inv H root h" and pf: "private_file root q i h" and d: "is_digest_format d"
    and t: "t \<in> blob_paths \<lparr>root_dir = root\<rparr> d" "path_ok root" and bs: "hex_digest H (content (inode h i)) = d"
    and r: "rename q t h = (r, h')"
  shows "store_inv H root h' \<and> fault h' = fault h \<and> (is_ok r \<longrightarrow> placed H root d t i h')"
proof (cases r)
  case (Inl e)
  then show ?thesis using inv r rename_Err [of q t h e h'] by (simp add: is_ok_def)
next
  case (Inr u)
  note P = private_fileD [OF pf]
  have neq: "t \<noteq> q" using P(4) [OF d] t(1) by blast
  have h': "h' = put_ent t (File i) (del_ent q h)" and t0: "t \<noteq> []"
    using rename_Ok [OF r [unfolded Inr]] P(1) P(2) [of t] neq by auto
  have q0: "q \<noteq> []" using P(1) by auto
  have look: "lookup h' p = (if p = t then Some (File i) else if p = q then None else lookup h p)" for p
    by (simp add: h' fs_simps t0 q0)
  have ino: "inode h' j = inode h j" for j by (simp add: h' fs_simps)
  have tok: "path_ok t" using blob_paths_path_ok [of "\<lparr>root_dir = root\<rparr>" t d] t by simp
  have files: "lookup h' p = Some (File j) \<Longrightarrow> p = t \<and> j = i \<or> p \<noteq> t \<and> j \<noteq> i \<and> lookup h p = Some (File j)" for p j
    using P(2) by (auto simp: look split: if_splits)
  have "cas_sound H \<lparr>root_dir = root\<rparr> h'"
    unfolding cas_sound_def ino
  proof (intro allI impI)
    fix d' p j assume d': "is_digest_format d'" and p: "p \<in> blob_paths \<lparr>root_dir = root\<rparr> d'" and l: "lookup h' p = Some (File j)"
    show "hex_digest H (content (inode h j)) = d'"
    proof (cases "p = t")
      case True
      then have "d' = d" using blob_paths_disjoint [OF d' d] p t(1) by blast
      with True files [OF l] bs show ?thesis by simp
    next
      case False
      with files [OF l] cas_soundD [OF store_invD(3) [OF inv] d' p] show ?thesis by simp
    qed
  qed
  moreover have "plain h' p" if "store_area root p" for p
    using store_invD(2) [OF inv that] by (simp add: plain_def look)
  moreover have "p = p'" if "registry_path root p'" "lookup h' p' = Some (File j)" "lookup h' p = Some (File j)" for p p' j
    using files [OF that(2)] files [OF that(3)] store_invD(4) [OF inv that(1)] blob_path_not_registry [OF d t(1)] that(1) by auto
  ultimately have "store_inv H root h'"
    using rename_fs_ok [OF r store_invD(1) [OF inv] tok] unfolding store_inv_def by blast
  moreover have "placed H root d t i h'"
  proof -
    have "p = t" if "lookup h' p = Some (File i)" for p using files [OF that] by blast
    moreover have "lookup h' t = Some (File i)" by (simp add: look)
    ultimately show ?thesis using bs t(1) unfolding placed_def ino by blast
  qed
  ultimately show ?thesis using rename_same_files [OF r] by (simp add: same_files_def)
qed

lemma store_inv_link:
  assumes inv: "store_inv H root h" and pl: "placed H root d t i h" and d: "is_digest_format d"
    and b: "b \<in> blob_paths \<lparr>root_dir = root\<rparr> d" "path_ok root" and r: "hard_link t b h = (r, h')"
  shows "store_inv H root h'"
proof (cases r)
  case (Inl e)
  then show ?thesis using inv r hard_link_Err [of t b h e h'] by simp
next
  case (Inr u)
  have t: "lookup h t = Some (File i)" "\<And>p. lookup h p = Some (File i) \<Longrightarrow> p = t"
    "hex_digest H (content (inode h i)) = d" "t \<in> blob_paths \<lparr>root_dir = root\<rparr> d" using pl by (auto simp: placed_def)
  have h': "h' = put_ent b (File i) h" and b0: "b \<noteq> []" "lookup h b = None"
    using hard_link_Ok [OF r [unfolded Inr]] t(1) by auto
  have look: "lookup h' p = (if p = b then Some (File i) else lookup h p)" for p by (simp add: h' fs_simps b0)
  have bok: "path_ok b" using blob_paths_path_ok [of "\<lparr>root_dir = root\<rparr>" b d] b by simp
  have "cas_sound H \<lparr>root_dir = root\<rparr> h'"
    unfolding cas_sound_def
  proof (intro allI impI)
    fix d' p j assume d': "is_digest_format d'" and p: "p \<in> blob_paths \<lparr>root_dir = root\<rparr> d'" and l: "lookup h' p = Some (File j)"
    show "hex_digest H (content (inode h' j)) = d'"
    proof (cases "p = b")
      case True
      then have "d' = d" using blob_paths_disjoint [OF d' d] p b(1) by blast
      with True l t(3) show ?thesis by (simp add: h' fs_simps b0)
    next
      case False
      with l cas_soundD [OF store_invD(3) [OF inv] d' p] show ?thesis by (simp add: look) (simp add: h' fs_simps)
    qed
  qed
  moreover have "plain h' p" if "store_area root p" for p
    using store_invD(2) [OF inv that] by (simp add: plain_def look)
  moreover have "p = p'" if p': "registry_path root p'" "lookup h' p' = Some (File j)" and l: "lookup h' p = Some (File j)" for p p' j
  proof -
    have "p' \<noteq> b" "p' \<noteq> t" using blob_path_not_registry [OF d b(1)] blob_path_not_registry [OF d t(4)] p'(1) by auto
    then have j: "lookup h p' = Some (File j)" "j \<noteq> i" using p'(2) t(2) by (auto simp: look)
    then have "lookup h p = Some (File j)" using l by (auto simp: look split: if_splits)
    then show ?thesis by (rule store_invD(4) [OF inv p'(1) j(1)])
  qed
  ultimately show ?thesis
    using hard_link_fs_ok [OF r store_invD(1) [OF inv] bok] unfolding store_inv_def by blast
qed

text \<open>The copy, when neither its write nor its read is refused.\<close>

lemma store_inv_copy:
  assumes inv: "store_inv H root h" and pl: "placed H root d t i h" and d: "is_digest_format d"
    and b: "b \<in> blob_paths \<lparr>root_dir = root\<rparr> d" "path_ok root" "b \<noteq> t" and w: "fault h Op_write b = None" "fault h Op_read t = None"
    and r: "copy_file t b h = (r, h')"
  shows "store_inv H root h'"
proof -
  have t: "lookup h t = Some (File i)" "\<And>p. lookup h p = Some (File i) \<Longrightarrow> p = t"
    "hex_digest H (content (inode h i)) = d" using pl by (auto simp: placed_def)
  have area: "store_area root b" "\<not> registry_path root b" using blob_path_not_registry [OF d b(1)] by auto
  have plb: "plain h b" using store_invD(2) [OF inv area(1)] .
  have bok: "path_ok b" using blob_paths_path_ok [of "\<lparr>root_dir = root\<rparr>" b d] b by simp
  show ?thesis
  proof (cases "\<exists>k h1. open_file h t = Ok (File i) \<and> create_file b h = (Ok k, h1)")
    case False
    then have "h' = h" using r create_file_Err t(1)
      by (auto simp: copy_file_def open_file_def stat_lookup split: sum.splits prod.splits option.splits)
    with inv show ?thesis by simp
  next
    case True
    then obtain k h1 where op: "open_file h t = Ok (File i)" and c: "create_file b h = (Ok k, h1)" by blast
    define bs where "bs = content (inode h i)"
    note C = create_file_Ok [OF c plb] and L = create_file_lookup [OF c plb]
    have ki: "k \<noteq> i"
    proof
      assume "k = i"
      then have "lookup h b \<noteq> Some (File i)" using t(2) b(3) by blast
      with C \<open>k = i\<close> staged_fresh [OF store_invD(1) [OF inv], of t i] t(1) show False by auto
    qed
    have "nul_free t" using op by (auto simp: open_file_def dest: refuse_nul split: option.splits)
    then have "refuse h1 Op_write b = None" "refuse h1 Op_read t = None" using w C L(5) by (auto simp: refuse_def nul_free_def)
    then have h': "h' = put_inode k \<lparr>content = bs, mtime = now h1\<rparr> h1"
      using r op c L(3,4) ki by (simp add: copy_file_def write_all_def read_node_def bs_def)
    have look: "lookup h' p = (if p = b then Some (File k) else lookup h p)" for p
      using L(1,2) by (simp add: h' fs_simps)
    have ino: "inode h' j = (if j = k then \<lparr>content = bs, mtime = now h1\<rparr> else inode h j)" for j
      using L(4) by (simp add: h' fs_simps)
    have old: "lookup h p = Some (File k) \<Longrightarrow> lookup h b = Some (File k)" for p
      using C staged_fresh [OF store_invD(1) [OF inv], of p k] by auto
    have "fs_ok h'" using create_file_fs_ok [OF c store_invD(1) [OF inv] bok] by (simp add: h')
    moreover have "cas_sound H \<lparr>root_dir = root\<rparr> h'"
      unfolding cas_sound_def
    proof (intro allI impI)
      fix d' p j assume d': "is_digest_format d'" and p: "p \<in> blob_paths \<lparr>root_dir = root\<rparr> d'" and l: "lookup h' p = Some (File j)"
      show "hex_digest H (content (inode h' j)) = d'"
      proof (cases "p = b")
        case True
        then have "d' = d" using blob_paths_disjoint [OF d' d] p b(1) by blast
        with True l t(3) bs_def show ?thesis by (simp add: look ino)
      next
        case False
        then have lh: "lookup h p = Some (File j)" using l by (simp add: look)
        note old_digest = cas_soundD [OF store_invD(3) [OF inv] d' p lh]
        show ?thesis
        proof (cases "j = k")
          case True
          with old lh have "lookup h b = Some (File j)" by blast
          from cas_soundD [OF store_invD(3) [OF inv] d b(1) this] old_digest t(3) bs_def True show ?thesis by (simp add: ino)
        qed (simp add: ino old_digest)
      qed
    qed
    moreover have "plain h' p" if "store_area root p" for p
      using store_invD(2) [OF inv that] by (simp add: plain_def look)
    moreover have "p = p'" if p': "registry_path root p'" "lookup h' p' = Some (File j)" and l: "lookup h' p = Some (File j)" for p p' j
    proof -
      have "p' \<noteq> b" using area(2) p'(1) by auto
      then have p'l: "lookup h p' = Some (File j)" using p'(2) by (simp add: look)
      have "j \<noteq> k" using old [of p'] p'l store_invD(4) [OF inv p'(1) p'l, of b] \<open>p' \<noteq> b\<close> by auto
      then have "lookup h p = Some (File j)" using l by (auto simp: look split: if_splits)
      then show ?thesis by (rule store_invD(4) [OF inv p'(1) p'l])
    qed
    ultimately show ?thesis unfolding store_inv_def by blast
  qed
qed

section \<open>The commit\<close>

text \<open>A commit with a root without \<open>..\<close>, a digest, and names that the tag registry would accept.\<close>

definition good_commit :: "artifact_commit \<Rightarrow> bool" where
  "good_commit c = (clean (storage_root c) \<and> clean (ac_stage c) \<and> is_digest_format (ac_digest c) \<and>
     tag_segment (ac_name c) \<and> tag_segment (ac_tag c))"

definition commit_root :: "artifact_commit \<Rightarrow> path" where
  "commit_root c = path_comps (storage_root c)"

lemma format_ext_cases: "format_ext f = ''safetensors'' \<or> format_ext f = ''gguf''"
  by (simp add: format_ext_def)

lemma plain_names [simp]:
  "is_segment ''cas''" "is_segment ''blobs''" "is_segment ''sha256''" "is_segment ''tags''" "is_segment ''incoming''"
  "is_segment ''safetensors''" "is_segment ''gguf''"
  by code_simp+

lemma commit_names:
  assumes "good_commit c"
  shows "is_segment (''sha256-'' @ ac_digest c @ ''.'' @ format_ext (ac_format c))" "is_segment (ac_digest c)"
    "is_segment (ac_name c)" "is_segment (ac_tag c)" "is_segment (format_ext (ac_format c))"
    "is_segment (ac_name c @ ''.'' @ format_ext (ac_format c))"
    "is_segment ((ac_name c @ '':'' @ ac_tag c) @ ''.'' @ format_ext (ac_format c))"
    "is_segment ((ac_name c @ ''-'' @ ac_tag c) @ ''.'' @ format_ext (ac_format c))"
proof -
  have d: "is_segment (ac_digest c)" and n: "is_segment (ac_name c)" and t: "is_segment (ac_tag c)"
    using assms by (auto simp: good_commit_def digest_format_segment tag_segment_segment)
  have e: "format_ext (ac_format c) \<noteq> []" "CHR ''/'' \<notin> set (format_ext (ac_format c))"
    using format_ext_cases [of "ac_format c"] by auto
  have "is_segment (''sha256-'' @ ac_digest c)" using d by (simp add: is_segment_def)
  from name_segment [OF this e] show "is_segment (''sha256-'' @ ac_digest c @ ''.'' @ format_ext (ac_format c))" by simp
  have join: "is_segment (ac_name c @ x # ac_tag c)" if "x \<noteq> CHR ''/''" "x \<noteq> CHR ''.''" for x
    using n t that by (cases "ac_name c"; cases "tl (ac_name c)") (auto simp: is_segment_def)
  show "is_segment ((ac_name c @ '':'' @ ac_tag c) @ ''.'' @ format_ext (ac_format c))"
    "is_segment ((ac_name c @ ''-'' @ ac_tag c) @ ''.'' @ format_ext (ac_format c))"
    using name_segment [OF join [of "CHR '':''"] e] name_segment [OF join [of "CHR ''-''"] e] by simp_all
  show "is_segment (format_ext (ac_format c))" using format_ext_cases [of "ac_format c"] by auto
qed (use assms name_segment [OF _ _ _, of "ac_name c" "format_ext (ac_format c)"] format_ext_cases [of "ac_format c"]
  in \<open>auto simp: good_commit_def digest_format_segment tag_segment_segment\<close>)

lemma commit_paths:
  assumes "good_commit c"
  shows "path_comps (cas_dest c) = commit_root c @ [''cas'', ''sha256-'' @ ac_digest c @ ''.'' @ format_ext (ac_format c)]"
    "path_comps (cas_blob c) = commit_root c @ [''cas'', ''blobs'', ''sha256'', ac_digest c]"
    "path_comps (tag_dir_of c) = commit_root c @ [''tags'', ac_name c]"
    "path_comps (tag_file_of c) = commit_root c @ [''tags'', ac_name c, ac_tag c]"
    "path_comps (fmt_dir_of c) = commit_root c @ [format_ext (ac_format c)]"
    "clean (cas_dest c)" "clean (cas_blob c)" "clean (tag_dir_of c)" "clean (tag_file_of c)" "clean (fmt_dir_of c)"
    "path_ok (commit_root c)"
  using assms commit_names [OF assms] path_comps_ok [of "storage_root c"]
  by (simp_all add: cas_dest_def cas_blob_def tag_dir_of_def tag_file_of_def fmt_dir_of_def commit_root_def good_commit_def)

lemma commit_blob_paths:
  assumes "good_commit c"
  shows "path_comps (cas_dest c) \<in> blob_paths \<lparr>root_dir = commit_root c\<rparr> (ac_digest c)"
    "path_comps (cas_blob c) \<in> blob_paths \<lparr>root_dir = commit_root c\<rparr> (ac_digest c)"
    "path_comps (cas_blob c) \<noteq> path_comps (cas_dest c)"
  using assms format_ext_cases [of "ac_format c"]
  by (auto simp: commit_paths [OF assms] blob_paths_eq good_commit_def)

text \<open>The kernel refuses neither to read nor to write a file of a blob that was opened.\<close>

definition blob_io_ok :: "path \<Rightarrow> host \<Rightarrow> bool" where
  "blob_io_ok root h = (\<forall>d p. is_digest_format d \<longrightarrow> p \<in> blob_paths \<lparr>root_dir = root\<rparr> d \<longrightarrow>
     fault h Op_read p = None \<and> fault h Op_write p = None)"

lemma placed_mono:
  assumes "placed H root d t i h" and "same_files h h'" and "lookup h' t = lookup h t"
    and "\<And>p j. lookup h' p = Some (File j) \<Longrightarrow> lookup h p = Some (File j)"
  shows "placed H root d t i h'"
  using assms same_files_inode [OF assms(2)] unfolding placed_def by metis

lemma commit_blob_keeps:
  assumes g: "good_commit c" and inv: "store_inv H (commit_root c) h"
    and pl: "placed H (commit_root c) (ac_digest c) (path_comps (cas_dest c)) i h"
    and w: "blob_io_ok (commit_root c) h"
  shows "store_inv H (commit_root c) (commit_blob c h)"
proof -
  let ?R = "commit_root c" and ?t = "path_comps (cas_dest c)" and ?b = "path_comps (cas_blob c)" and ?d = "ac_digest c"
  have d: "is_digest_format ?d" using g by (simp add: good_commit_def)
  note P = commit_paths [OF g] and B = commit_blob_paths [OF g]
  have dir: "clean (path_join (path_join (path_join (storage_root c) ''cas'') ''blobs'') ''sha256'')"
    "path_comps (path_join (path_join (path_join (storage_root c) ''cas'') ''blobs'') ''sha256'') = ?R @ [''cas'', ''blobs'', ''sha256'']"
    using g by (simp_all add: good_commit_def commit_root_def)
  obtain r1 h1 where m: "create_dir_all (?R @ [''cas'', ''blobs'', ''sha256'']) h = (r1, h1)" by fastforce
  have pok: "path_ok (?R @ [''cas'', ''blobs'', ''sha256''])" using P(11) by (simp add: path_ok_def)
  note A = create_dir_all_adds_dirs [OF m]
  have inv1: "store_inv H ?R h1" by (rule store_inv_dirs [OF inv A create_dir_all_fs_ok [OF m store_invD(1) [OF inv] pok]])
  have pl1: "placed H ?R ?d ?t i h1"
  proof (rule placed_mono [OF pl])
    show "same_files h h1" using A by (simp add: adds_dirs_def)
    show "lookup h1 ?t = lookup h ?t" using adds_dirs_lookup [OF A] pl by (simp add: placed_def)
    show "lookup h1 p = Some (File j) \<Longrightarrow> lookup h p = Some (File j)" for p j using A unfolding adds_dirs_def by (metis node.distinct(1) option.inject)
  qed
  obtain r2 h2 where rm: "remove_file ?b h1 = (r2, h2)" by fastforce
  note inv2 = store_inv_unlink [OF inv1 rm]
  have pl2: "placed H ?R ?d ?t i h2"
    by (rule placed_mono [OF pl1 remove_file_same_files [OF rm]]) (use remove_file_lookup [OF rm] B(3) in \<open>auto split: if_splits\<close>)
  have "fault h2 = fault h" using A remove_file_same_files [OF rm] by (simp add: adds_dirs_def same_files_def)
  then have w2: "fault h2 Op_write ?b = None" "fault h2 Op_read ?t = None" using w d B(1,2) by (simp_all add: blob_io_ok_def)
  obtain r3 h3 where hl: "hard_link ?t ?b h2 = (r3, h3)" by fastforce
  obtain r4 h4 where cp: "copy_file ?t ?b h2 = (r4, h4)" by fastforce
  have "h3 = h2" if "r3 = Inl e" for e using hl that hard_link_Err by blast
  then have "commit_blob c h = (case r1 of Inl e \<Rightarrow> h1 | Inr u \<Rightarrow> (case r3 of Inr u \<Rightarrow> h3 | Inl e \<Rightarrow> h4))"
    by (auto simp: commit_blob_def make_dirs_at_clean [OF dir(1)] dir(2) m at_path_clean [OF P(7)] rm hard_link_at_def
        copy_at_def reachable_clean [OF P(6)] abs_path_clean [OF P(6)] hl cp split: sum.split)
  then show ?thesis
    using inv1 store_inv_link [OF inv2 pl2 d B(2) P(11) hl] store_inv_copy [OF inv2 pl2 d B(2) P(11) B(3) w2 cp]
    by (simp split: sum.split)
qed

lemma store_inv_mkdirs:
  assumes "store_inv H root h" and "clean s" and "make_dirs_at s h = (r, h')"
  shows "store_inv H root h'"
  using assms store_inv_dirs [OF assms(1) create_dir_all_adds_dirs] create_dir_all_fs_ok [OF _ store_invD(1) [OF assms(1)] path_comps_ok]
  by (metis make_dirs_at_clean)

lemma commit_tag_keeps:
  assumes g: "good_commit c" and inv: "store_inv H (commit_root c) h"
  shows "store_inv H (commit_root c) (snd (commit_tag c h))"
proof -
  let ?R = "commit_root c" and ?q = "commit_root c @ ''tags'' # [ac_name c, ac_tag c]"
  note P = commit_paths [OF g]
  obtain r1 h1 where m: "make_dirs_at (tag_dir_of c) h = (r1, h1)" by fastforce
  note inv1 = store_inv_mkdirs [OF inv P(8) m]
  obtain r2 h2 where cf: "create_file ?q h1 = (r2, h2)" by fastforce
  have pok: "path_ok ?q" using path_comps_ok [OF P(9)] P(4) by simp
  note C = store_inv_create [OF inv1 registry_paths(1) pok cf]
  have w: "store_inv H ?R h3" if "r2 = Inr i" "write_all ?q i (ac_digest c) h2 = (r3, h3)" for i r3 h3
    using store_inv_write [OF conjunct1 [OF C] registry_paths(1) _ that(2)] C that(1) by blast
  have "write_at (tag_file_of c) (ac_digest c) h1 = (case r2 of Inl e \<Rightarrow> (Err e, h2) | Inr i \<Rightarrow> write_all ?q i (ac_digest c) h2)"
    using cf by (simp add: write_at_def at_path_clean [OF P(9)] abs_path_clean [OF P(9)] P(4) split: sum.split)
  then have "store_inv H ?R (snd (write_at (tag_file_of c) (ac_digest c) h1))"
    using C w by (auto split: sum.split simp: prod_eq_iff)
  then show ?thesis using m inv1
    by (cases "write_at (tag_file_of c) (ac_digest c) h1") (simp add: commit_tag_def split: sum.split)
qed

lemma fmt_outside: "good_commit c \<Longrightarrow> \<not> store_area (commit_root c) (commit_root c @ [format_ext (ac_format c), x])"
  using format_ext_cases [of "ac_format c"] by (auto simp: store_area_def registry_path_def)

lemma canonicalize_ok:
  "fs_ok h \<Longrightarrow> path_ok p \<Longrightarrow> nul_free p \<Longrightarrow> path_ok (unwrap_or p (canonicalize h p)) \<and> nul_free (unwrap_or p (canonicalize h p))"
  using follow_path_ok [of h p 40] by (auto simp: canonicalize_def resolve_path_def unwrap_or_def split: option.split)

lemma commit_links_keeps:
  assumes g: "good_commit c" and inv: "store_inv H (commit_root c) h" and nul: "nul_free (path_comps (cas_dest c))"
  shows "store_inv H (commit_root c) (commit_links c h)"
proof -
  let ?R = "commit_root c" and ?p = "path_comps (cas_dest c)"
  note P = commit_paths [OF g] and N = commit_names [OF g]
  let ?t = "unwrap_or ?p (canonicalize h ?p)"
  have t: "path_ok ?t" "nul_free ?t" using canonicalize_ok [OF store_invD(1) [OF inv] path_comps_ok [OF P(6)] nul] by simp_all
  have relink: "store_inv H ?R h1 \<Longrightarrow> is_segment (stem @ ''.'' @ format_ext (ac_format c)) \<Longrightarrow>
      store_inv H ?R (relink ?t (link_name c stem) h1)" for stem h1
    by (rule store_inv_relink) (use fmt_outside [OF g] P(5,10) t in \<open>simp_all add: link_name_def\<close>)
  show ?thesis
    using inv N(6) N(7) N(8) relink
    by (simp add: commit_links_def Let_def reachable_clean [OF P(6)] abs_path_clean [OF P(6)])
qed

lemma commit_artifact_keeps:
  assumes g: "good_commit c" and inv: "store_inv H (commit_root c) h"
    and st: "private_file (commit_root c) (path_comps (ac_stage c)) i h"
    and bs: "hex_digest H (content (inode h i)) = ac_digest c"
    and w: "blob_io_ok (commit_root c) h"
  shows "store_inv H (commit_root c) (snd (commit_artifact c h))"
proof -
  note P = commit_paths [OF g] and B = commit_blob_paths [OF g]
  have d: "is_digest_format (ac_digest c)" and stc: "clean (ac_stage c)" using g by (auto simp: good_commit_def)
  obtain r1 h1 where rn: "rename (path_comps (ac_stage c)) (path_comps (cas_dest c)) h = (r1, h1)" by fastforce
  note S = store_inv_place [OF inv st d B(1) P(11) bs rn]
  have rename: "rename_at (ac_stage c) (cas_dest c) h = (r1, h1)"
    by (simp add: rename_at_def reachable_clean [OF stc] abs_path_clean [OF stc] at_path_clean [OF P(6)] rn)
  show ?thesis
  proof (cases r1)
    case (Inl e)
    then show ?thesis using S by (simp add: commit_artifact_def rename)
  next
    case (Inr u)
    then have pl: "placed H (commit_root c) (ac_digest c) (path_comps (cas_dest c)) i h1" using S by (simp add: is_ok_def)
    have nul: "nul_free (path_comps (cas_dest c))" using rename_Ok [OF rn [unfolded Inr]] by auto
    have inv2: "store_inv H (commit_root c) (commit_blob c h1)"
      using commit_blob_keeps [OF g _ pl] S w by (simp add: blob_io_ok_def)
    obtain r3 h3 where ct: "commit_tag c (commit_blob c h1) = (r3, h3)" by fastforce
    have inv3: "store_inv H (commit_root c) h3" using commit_tag_keeps [OF g inv2] ct by simp
    obtain r4 h4 where md: "make_dirs_at (fmt_dir_of c) h3 = (r4, h4)" by fastforce
    note inv4 = store_inv_mkdirs [OF inv3 P(10) md]
    show ?thesis using Inr inv3 inv4 commit_links_keeps [OF g inv4 nul]
      by (simp add: commit_artifact_def rename ct md split: sum.split)
  qed
qed

text \<open>Directories that are made keep every path what it is: no symbolic link comes or goes.\<close>

lemma mkdir_at_plain: "mkdir_at cs h = (r, h') \<Longrightarrow> plain h' p = plain h p"
  by (auto simp: mkdir_at_def dest!: mkdir_adds_dirs adds_dirs_plain split: if_splits)

lemma make_dirs_plain': "make_dirs cs h = (r, h') \<Longrightarrow> plain h' p = plain h p"
proof (induction cs h arbitrary: r h' rule: make_dirs.induct)
  case (1 cs h)
  show ?case
  proof (cases "cs = []")
    case False
    obtain r1 h1 where m: "mkdir_at cs h = (r1, h1)" by fastforce
    note p1 = mkdir_at_plain [OF m, of p]
    show ?thesis
    proof (cases "\<exists>e. r1 = Inl e \<and> io_kind e = K_NotFound")
      case True
      then obtain e where e: "r1 = Inl e" "io_kind e = K_NotFound" by blast
      obtain r2 h2 where d: "make_dirs (butlast cs) h1 = (r2, h2)" by fastforce
      obtain r3 h3 where m3: "mkdir_at cs h2 = (r3, h3)" by fastforce
      have "h' = h2 \<or> h' = h3" using "1.prems" False m e d m3
        by (subst (asm) make_dirs.simps) (auto split: sum.splits if_splits)
      then show ?thesis
        using "1.IH" [OF False m [symmetric] e(1) e(2) d] p1 mkdir_at_plain [OF m3, of p] by auto
    next
      case nf: False
      then show ?thesis using "1.prems" False m p1
        by (subst (asm) make_dirs.simps) (auto split: sum.splits if_splits)
    qed
  qed (use "1.prems" in \<open>simp add: make_dirs.simps\<close>)
qed

lemma make_dirs_plain: "make_dirs_at s h = (r, h') \<Longrightarrow> plain h' p = plain h p"
  by (simp add: make_dirs_at_def make_dirs_plain')

section \<open>The download\<close>

lemma download_loop_keeps:
  "download_loop H p i bs st h = (r, h') \<Longrightarrow> store_inv H0 root h \<Longrightarrow> private_file root p i h \<Longrightarrow>
   store_inv H0 root h' \<and> private_file root p i h' \<and> fault h' = fault h \<and>
   (\<forall>st'. r = Ok st' \<longrightarrow> st' = foldl (sha_update H) st bs \<and> content (inode h' i) = content (inode h i) @ concat bs)"
proof (induction H p i bs st h rule: download_loop.induct)
  case (2 H p i b bs st h)
  obtain u h1 where w: "write_all p i b h = (u, h1)" by fastforce
  note F = store_inv_fill [OF "2.prems"(2,3) w]
  show ?case
  proof (cases u)
    case (Inl e)
    then show ?thesis using "2.prems"(1) w F by auto
  next
    case (Inr v)
    then have rest: "download_loop H p i bs (sha_update H st b) h1 = (r, h')" using "2.prems"(1) w by simp
    from "2.IH" [OF w [symmetric] Inr rest] F Inr show ?thesis by (simp add: is_ok_def)
  qed
qed auto

lemma stage_name_segment:
  assumes "tag_segment (rm_name r)" and "tag_segment (rm_tag r)"
  shows "is_segment (stage_filename p r q n)"
proof -
  have "CHR ''/'' \<notin> set (show_nat k)" for k using show_nat_digits [of "CHR ''/''" k] by (auto simp: is_ascii_digit_def in_range_def byte_val_def)
  moreover have "CHR ''/'' \<notin> set (rm_tag r)" using tag_segment_segment [OF assms(2)] by (simp add: is_segment_def)
  ultimately show ?thesis by (auto simp: stage_filename_def is_segment_def replace_char_def)
qed

lemma incoming_paths:
  "clean root \<Longrightarrow> clean (incoming_of root)" "path_comps (incoming_of root) = path_comps root @ [''cas'', ''incoming'']"
  by (simp_all add: incoming_of_def)

lemma download_keeps:
  assumes H: "sha256_contract (pe_hasher env)" and inv: "store_inv (pe_hasher env) (path_comps root) h" and root: "clean root"
    and names: "tag_segment (rm_name r)" "tag_segment (rm_tag r)"
    and unused: "lookup h (path_comps root @ [''cas'', ''incoming'', stage_filename (pid h) r seq (pe_nanos env)]) = None"
    and dl: "download env root r resp seq h = (res, h')"
  shows "store_inv (pe_hasher env) (path_comps root) h' \<and> fault h' = fault h \<and>
    (\<forall>stage d. res = Ok (stage, d) \<longrightarrow> clean stage \<and> (\<exists>i. private_file (path_comps root) (path_comps stage) i h' \<and>
       d = hex_digest (pe_hasher env) (content (inode h' i))))"
proof -
  let ?H = "pe_hasher env" and ?R = "path_comps root"
  let ?fn = "stage_filename (pid h) r seq (pe_nanos env)"
  let ?stage = "path_join (incoming_of root) ?fn"
  have seg: "is_segment ?fn" by (rule stage_name_segment [OF names])
  have st: "clean ?stage" "path_comps ?stage = ?R @ [''cas'', ''incoming'', ?fn]"
    using incoming_paths [of root] root seg by simp_all
  have outside: "\<not> registry_path ?R (path_comps ?stage)" "\<And>d. is_digest_format d \<Longrightarrow> path_comps ?stage \<notin> blob_paths \<lparr>root_dir = ?R\<rparr> d"
    by (auto simp: st(2) registry_path_def blob_paths_eq)
  obtain r1 h1 where c: "create_file (path_comps ?stage) h = (r1, h1)" by fastforce
  note N = store_inv_new_file [OF inv c path_comps_ok [OF st(1)] _ outside]
  have at: "at_path ?stage create_file h = (r1, h1)" by (simp add: at_path_clean [OF st(1)] c)
  show ?thesis
  proof (cases r1)
    case (Inl e)
    then show ?thesis using dl N unused st(2) by (auto simp: download_def at Let_def)
  next
    case (Inr i)
    have n: "store_inv ?H ?R h1" "private_file ?R (path_comps ?stage) i h1" "content (inode h1 i) = []" "fault h1 = fault h"
      using N Inr unused st(2) by simp_all
    obtain r2 h2 where l: "download_loop ?H (path_comps ?stage) i (rs_chunks resp) (sha_new ?H) h1 = (r2, h2)" by fastforce
    note D = download_loop_keeps [OF l n(1,2)]
    have rm: "store_inv ?H ?R (snd (remove_file (path_comps ?stage) h2))" "fault (snd (remove_file (path_comps ?stage) h2)) = fault h2"
      using D store_inv_unlink [of ?H ?R h2 "path_comps ?stage"] remove_file_same_files [of "path_comps ?stage" h2]
      by (metis prod.collapse) (metis prod.collapse remove_file_same_files same_files_def)
    have sha: "d = hex_digest ?H (content (inode h2 i))" if "r2 = Ok s'" "d = hex_bytes (sha_finalize ?H s')" for s' d
      using that D n(3) H by (simp add: sha256_contract_def hex_digest_def)
    have rmf: "at_path ?stage remove_file h2 = remove_file (path_comps ?stage) h2" by (rule at_path_clean [OF st(1)])
    show ?thesis
    proof (cases "\<exists>s'. r2 = Ok s' \<and> \<not> rs_cut resp")
      case True
      then obtain s' where s': "r2 = Ok s'" "\<not> rs_cut resp" by blast
      then have "res = Ok (?stage, hex_bytes (sha_finalize ?H s')) \<and> h' = h2"
        using dl Inr l by (simp add: download_def at Let_def abs_path_clean [OF st(1)])
      then show ?thesis using D n(4) st(1) sha [OF s'(1) refl] by auto
    next
      case False
      then have "\<not> is_ok res \<and> h' = snd (remove_file (path_comps ?stage) h2)"
        using dl Inr l by (cases r2) (auto simp: download_def at Let_def abs_path_clean [OF st(1)] rmf is_ok_def)
      then show ?thesis using rm D n(4) by (auto simp: is_ok_def)
    qed
  qed
qed

section \<open>The whole pull\<close>

definition serves_keep :: "'h pull_env \<Rightarrow> path \<Rightarrow> bool" where
  "serves_keep env root = (\<forall>sock request h. store_inv (pe_hasher env) root h \<longrightarrow>
     store_inv (pe_hasher env) root (snd (pe_serve env sock request h)))"

lemma announce_keeps:
  assumes "serves_keep env root'" and "rm_tokenizer r = None" and "store_inv (pe_hasher env) root' (ps_host s)"
  shows "store_inv (pe_hasher env) root' (ps_host (announce env root sock r d s))"
  using assms
  by (simp add: announce_def Let_def fetch_tokenizer_def register_with_modeld_def notify_router_reload_def notify_call_def
      serves_keep_def)

text \<open>The names at which a pull stages and at which its copy would write.\<close>

definition pull_stage :: "'h pull_env \<Rightarrow> string \<Rightarrow> resolved_model \<Rightarrow> pull_state \<Rightarrow> path" where
  "pull_stage env root r s = path_comps root @
     [''cas'', ''incoming'', stage_filename (pid (ps_host s)) r (ps_seq s) (pe_nanos env)]"

lemma receive_model_keeps:
  assumes H: "sha256_contract (pe_hasher env)" and inv: "store_inv (pe_hasher env) (path_comps root) (ps_host s)"
    and root: "clean root" and names: "tag_segment (rm_name r)" "tag_segment (rm_tag r)" and tok: "rm_tokenizer r = None"
    and unused: "lookup (ps_host s) (pull_stage env root r s) = None"
    and w: "blob_io_ok (path_comps root) (ps_host s)"
    and serve: "serves_keep env (path_comps root)"
  shows "store_inv (pe_hasher env) (path_comps root) (ps_host (snd (receive_model env root sock r resp s)))"
proof -
  let ?H = "pe_hasher env" and ?R = "path_comps root"
  obtain md h1 where md: "make_dirs_at (incoming_of root) (ps_host s) = (md, h1)" by fastforce
  have ic: "clean (incoming_of root)" "path_comps (incoming_of root) = ?R @ [''cas'', ''incoming'']"
    using incoming_paths [of root] root by simp_all
  have cd: "create_dir_all (?R @ [''cas'', ''incoming'']) (ps_host s) = (md, h1)"
    using md by (simp add: make_dirs_at_clean [OF ic(1)] ic(2))
  note A = create_dir_all_adds_dirs [OF cd] and inv1 = store_inv_mkdirs [OF inv ic(1) md]
  have same: "fault h1 = fault (ps_host s)" "pid h1 = pid (ps_host s)" using A by (simp_all add: adds_dirs_def same_files_def)
  have unused1: "lookup h1 (?R @ [''cas'', ''incoming'', stage_filename (pid h1) r (ps_seq s) (pe_nanos env)]) = None"
    using adds_dirs_not_prefix [OF A] unused by (simp add: pull_stage_def same)
  obtain res h2 where dl: "download env root r resp (ps_seq s) h1 = (res, h2)" by fastforce
  note D = download_keeps [OF H inv1 root names unused1 dl]
  show ?thesis
  proof (cases "\<exists>e. md = Inl e")
    case True
    then show ?thesis using md inv1 by (auto simp: receive_model_def)
  next
    case False
    then have mdu: "md = Inr ()" by (cases md) auto
    show ?thesis
    proof (cases res)
      case (Inl e)
      then show ?thesis using md mdu dl D by (simp add: receive_model_def)
    next
      case (Inr sd)
      then obtain stage d where sd: "res = Ok (stage, d)" by (cases sd) auto
      then obtain i where i: "clean stage" "private_file ?R (path_comps stage) i h2" "d = hex_digest ?H (content (inode h2 i))"
        using D by blast
      let ?c = "artifact_of root stage d r"
      have g: "good_commit ?c" "commit_root ?c = ?R"
        using root i(1,3) names hex_digest_format [OF H] by (simp_all add: good_commit_def artifact_of_def commit_root_def)
      have wb: "blob_io_ok ?R h2" using D same w by (simp add: blob_io_ok_def)
      have "store_inv ?H (commit_root ?c) (snd (commit_artifact ?c h2))"
        by (rule commit_artifact_keeps [OF g(1)]) (use D g(2) i wb in \<open>simp_all add: artifact_of_def\<close>)
      moreover obtain cr h3 where ca: "commit_artifact ?c h2 = (cr, h3)" by fastforce
      ultimately have inv3: "store_inv ?H ?R h3" using g(2) by simp
      show ?thesis
        using md mdu dl sd ca inv3 announce_keeps [OF serve tok]
        by (simp add: receive_model_def Let_def split: sum.split)
    qed
  qed
qed

lemma pull_resolved_keeps:
  assumes "sha256_contract (pe_hasher env)" and "store_inv (pe_hasher env) (path_comps root) (ps_host s)"
    and "clean root" and "tag_segment (rm_name r)" and "tag_segment (rm_tag r)" and "rm_tokenizer r = None"
    and "lookup (ps_host s) (pull_stage env root r s) = None"
    and "blob_io_ok (path_comps root) (ps_host s)"
    and "serves_keep env (path_comps root)"
  shows "store_inv (pe_hasher env) (path_comps root) (ps_host (snd (pull_resolved env root sock force r s)))"
proof -
  let ?s = "say (''  Source: '' @ rm_url r) (say (''  Target: '' @ rm_name r @ '':'' @ rm_tag r) s)"
  let ?req = "apply_hf_auth (pe_hub env) (ps_host s) (get_request (rm_url r)) (rm_url r)"
  let ?s1 = "?s\<lparr>ps_log := ps_log s @ [?req]\<rparr>"
  have "pull_stage env root r ?s1 = pull_stage env root r s" by (simp add: pull_stage_def say_def)
  then have "store_inv (pe_hasher env) (path_comps root) (ps_host (snd (receive_model env root sock r resp ?s1)))" for resp
    using assms by (intro receive_model_keeps) simp_all
  then show ?thesis using assms(2)
    by (simp add: pull_resolved_def Let_def split: option.split)
qed

lemma run_pull_keeps:
  assumes "sha256_contract (pe_hasher env)" and "store_inv (pe_hasher env) (path_comps root) (ps_host s)" and "clean root"
    and names: "\<And>reqs r. resolve_model_with_format (pe_hub env) (ps_host s) spec format quant tag = (reqs, Some (Ok r)) \<Longrightarrow>
      tag_segment (rm_name r) \<and> tag_segment (rm_tag r) \<and> rm_tokenizer r = None \<and> lookup (ps_host s) (pull_stage env root r s) = None"
    and "blob_io_ok (path_comps root) (ps_host s)"
    and "serves_keep env (path_comps root)"
  shows "store_inv (pe_hasher env) (path_comps root) (ps_host (snd (run_pull env root sock spec format quant tag force s)))"
proof -
  obtain reqs res where r: "resolve_model_with_format (pe_hub env) (ps_host s) spec format quant tag = (reqs, res)" by fastforce
  let ?s2 = "(say (''Resolving model: '' @ spec @ '' (format: '' @ format @ '')'') s)\<lparr>ps_log := ps_log s @ reqs\<rparr>"
  show ?thesis
  proof (cases "\<exists>m. res = Some (Ok m)")
    case True
    then obtain m where m: "res = Some (Ok m)" by blast
    have "pull_stage env root m ?s2 = pull_stage env root m s" by (simp add: pull_stage_def say_def)
    then have "store_inv (pe_hasher env) (path_comps root) (ps_host (snd (pull_resolved env root sock force m ?s2)))"
      using assms(1-3,5,6) names [OF r [unfolded m]] by (intro pull_resolved_keeps) simp_all
    then show ?thesis by (simp add: run_pull_def Let_def r m split_beta)
  next
    case False
    then show ?thesis using assms(2) by (auto simp: run_pull_def Let_def r split: option.split sum.split)
  qed
qed


definition demo_pull :: "bytes pull_env" where
  "demo_pull = \<lparr>pe_hub = demo_hub, pe_hasher = demo_hasher, pe_json = dumb_json,
     pe_serve = (\<lambda>sock request h. (Err e_not_found, h)), pe_nanos = 7\<rparr>"

definition demo_start :: "host \<Rightarrow> pull_state" where
  "demo_start h = \<lparr>ps_host = h, ps_seq = 1, ps_log = [], ps_out = []\<rparr>"

definition demo_resolved :: resolved_model where
  "demo_resolved = \<lparr>rm_url = hub_file_url ''org/m'' ''m.gguf'', rm_filename = ''m.gguf'', rm_name = ''m'', rm_tag = ''q4'',
     rm_format = ''gguf'', rm_tokenizer = None\<rparr>"


text \<open>Where the directory of the blobs is there, nothing is made.\<close>

lemma nul_free_butlast: "nul_free p \<Longrightarrow> nul_free (butlast p)"
  by (auto simp: nul_free_def dest: in_set_butlastD)

lemma commit_dirs_present:
  assumes c: "good_commit c" and dir: "lookup h (butlast (path_comps (cas_blob c))) = Some Dir"
    and rf: "refuse h Op_mkdir (butlast (path_comps (cas_blob c))) = None" "refuse h Op_stat (butlast (path_comps (cas_blob c))) = None"
  shows "make_dirs_at (path_join (path_join (path_join (storage_root c) ''cas'') ''blobs'') ''sha256'') h = (Ok (), h)"
proof -
  let ?d = "butlast (path_comps (cas_blob c))"
  have d: "clean (path_join (path_join (path_join (storage_root c) ''cas'') ''blobs'') ''sha256'')"
    "path_comps (path_join (path_join (path_join (storage_root c) ''cas'') ''blobs'') ''sha256'') = ?d"
    using c commit_paths(2) [OF c] by (simp_all add: good_commit_def commit_root_def butlast_append)
  have pl: "plain h ?d" using dir by (simp add: plain_def)
  show ?thesis
    by (simp add: make_dirs_at_clean [OF d(1)] d(2))
      (simp add: create_dir_all.simps [of ?d] mkdir_def rf dir is_dir_def stat_plain [OF pl] e_exists_def)
qed

text \<open>
  C39. The unchecked copy.  When the kernel refuses the hard link to a committed blob and then a write of
  the copy that replaces it, an empty file is left under the standard path of the digest, where the
  store looks first; the step has no outcome, so the commit goes on and reports success.
\<close>

theorem unchecked_copy_breaks_blob:
  fixes c :: artifact_commit and h :: host
  defines "root \<equiv> commit_root c" and "blob \<equiv> path_comps (cas_blob c)"
  assumes "good_commit c" and "fs_ok h" and "nul_free blob" and "nul_free (path_comps (cas_dest c))"
    and "lookup h (path_comps (cas_dest c)) = Some (File i)" and "lookup h (butlast blob) = Some Dir" and "lookup h blob = None"
    and "\<And>op p. op \<noteq> Op_link \<Longrightarrow> op \<noteq> Op_write \<Longrightarrow> fault h op p = None"
    and "fault h Op_link blob = Some e" and "fault h Op_write blob = Some e'"
  shows "contents (commit_blob c h) blob = Some [] \<and> blob_path \<lparr>root_dir = root\<rparr> (commit_blob c h) (ac_digest c) = blob"
proof -
  let ?t = "path_comps (cas_dest c)"
  note P = commit_paths [OF assms(3)]
  have b: "blob = root @ [''cas'', ''blobs'', ''sha256'', ac_digest c]" using P(2) by (simp add: blob_def root_def)
  have d: "is_digest_format (ac_digest c)" using assms(3) by (simp add: good_commit_def)
  have nul: "nul_free (butlast blob)" using assms(5) by (simp add: b butlast_append)
  have rf: "refuse h op p = None" if "op \<noteq> Op_link" "op \<noteq> Op_write" "nul_free p" for op p
    using that assms(10) by (auto simp: refuse_def nul_free_def)
  have ref: "refuse h Op_link blob = Some e" "refuse h Op_write blob = Some e'"
    using assms(5,11,12) by (auto simp: refuse_def nul_free_def)
  have pl: "plain h ?t" "plain h blob" using assms(7,9) by (auto simp: plain_def)
  have md: "make_dirs_at (path_join (path_join (path_join (storage_root c) ''cas'') ''blobs'') ''sha256'') h = (Ok (), h)"
    using commit_dirs_present [OF assms(3)] assms(8) rf nul by (simp add: blob_def)
  have rm: "remove_file blob h = (Err e_not_found, h)" using assms(9) rf [OF _ _ assms(5)] by (simp add: remove_file_def)
  have hl: "hard_link ?t blob h = (Err e, h)" using ref(1) by (simp add: hard_link_def)
  obtain h1 where cf: "create_file blob h = (Ok (next_ino h), h1)"
    and h1: "h1 = put_inode (next_ino h) \<lparr>content = [], mtime = now h\<rparr> (put_ent blob (File (next_ino h)) (h\<lparr>next_ino := Suc (next_ino h)\<rparr>))"
    using assms(8,9) rf [OF _ _ assms(5)] by (simp add: create_file_def resolve_plain [OF pl(2)] parent_problem_def)
  have b0: "blob \<noteq> []" by (simp add: b)
  have "write_all blob (next_ino h) (content (inode h i)) h1 = (Err e', h1)"
    using ref(2) refuse_cong [of h1 h] by (simp add: write_all_def h1 fs_simps)
  moreover have "open_file h ?t = Ok (File i)"
    using assms(7) rf [of Op_open, OF _ _ assms(6)] by (simp add: open_file_def stat_plain [OF pl(1)])
  moreover have "read_node h1 ?t (File i) = Ok (content (inode h i))"
    using rf [of Op_read, OF _ _ assms(6)] refuse_cong [of h1 h] staged_fresh [OF assms(4,7)]
    by (simp add: read_node_def h1 fs_simps)
  ultimately have cp: "copy_file ?t blob h = (Err e', h1)" by (simp add: copy_file_def cf)
  have cb: "commit_blob c h = h1"
    using md rm hl cp
    by (simp add: commit_blob_def at_path_clean [OF P(7)] hard_link_at_def copy_at_def reachable_clean [OF P(6)]
        abs_path_clean [OF P(6)] blob_def)
  have l1: "lookup h1 blob = Some (File (next_ino h))" by (simp add: h1 fs_simps b0)
  have "is_file h1 blob"
    using rf [of Op_stat, OF _ _ assms(5)] refuse_cong [of h1 h] l1 by (simp add: is_file_def stat_plain plain_def h1 fs_simps b0)
  then have "blob_path \<lparr>root_dir = root\<rparr> h1 (ac_digest c) = blob"
    by (simp add: blob_path_def standard_path_eq [OF d] b Let_def)
  moreover have "contents h1 blob = Some []" using l1 by (simp add: contents_File) (simp add: h1 fs_simps)
  ultimately show ?thesis by (simp add: cb)
qed

definition full_disk :: host where
  "full_disk = (plain_host (([''m'', ''cas'', ''sha256-'' @ replicate 64 (CHR ''a'') @ ''.gguf''], File 0) # demo_dirs)
     [(0, \<lparr>content = ''abc'', mtime = 0\<rparr>)])
     \<lparr>fault := (\<lambda>op p. if op = Op_link \<or> op = Op_write then Some (Io_Error K_Other ''No space left on device (os error 28)'') else None)\<rparr>"

definition demo_commit :: "string \<Rightarrow> string \<Rightarrow> artifact_commit" where
  "demo_commit name tag = \<lparr>storage_root = ''/m'', ac_stage = ''/m/cas/incoming/s'', ac_digest = replicate 64 (CHR ''a''),
     ac_format = ''gguf'', ac_name = name, ac_tag = tag\<rparr>"

theorem unchecked_copy_breaks_blob_witness:
  "contents (commit_blob (demo_commit ''m'' ''q4'') full_disk) [''m'', ''cas'', ''blobs'', ''sha256'', replicate 64 (CHR ''a'')] = Some []"
proof -
  let ?c = "demo_commit ''m'' ''q4''" and ?a = "replicate 64 (CHR ''a'')"
  have g: "good_commit ?c" by code_simp
  have b: "path_comps (cas_blob ?c) = [''m'', ''cas'', ''blobs'', ''sha256'', ?a]" by code_simp
  have t: "path_comps (cas_dest ?c) = [''m'', ''cas'', ''sha256-'' @ ?a @ ''.gguf'']" by code_simp
  have l: "lookup full_disk (path_comps (cas_dest ?c)) = Some (File 0)" "lookup full_disk (butlast (path_comps (cas_blob ?c))) = Some Dir"
    "lookup full_disk (path_comps (cas_blob ?c)) = None"
    by (simp_all add: t b lookup_def full_disk_def plain_host_def demo_dirs_def)
  have ok: "fs_ok full_disk" by code_simp
  have n: "nul_free (path_comps (cas_blob ?c))" "nul_free (path_comps (cas_dest ?c))" by code_simp+
  show ?thesis
    using unchecked_copy_breaks_blob [OF g ok n l] by (simp add: b) (simp add: full_disk_def)
qed

text \<open>
  C38. Names that are not checked.  Where the tag is written is decided by the name alone: with
  \<open>../../x\<close> it is the directory \<open>x\<close> beside the storage directory, and a commit that gets that far leaves
  the digest there, in place of whatever the file held; the tag registry refuses such a name.
\<close>

theorem pull_tag_escapes:
  assumes "clean (storage_root c)" and "path_comps (storage_root c) \<noteq> []" and "ac_name c = ''../../'' @ x"
    and "is_segment x" and "is_segment (ac_tag c)" and "commit_tag c h = (Ok (), h')"
    and "plain h (butlast (path_comps (storage_root c)) @ [x, ac_tag c])"
  shows "contents h' (butlast (path_comps (storage_root c)) @ [x, ac_tag c]) = Some (ac_digest c) \<and>
    (\<exists>e. set_tag R (ac_name c) (ac_tag c) d h = (Err (InvalidFormat e), h))"
proof -
  let ?p = "butlast (path_comps (storage_root c)) @ [x, ac_tag c]"
  have comps: "path_comps (tag_dir_of c) = path_comps (storage_root c) @ [''tags'', ''..'', ''..'', x]"
  proof -
    have "path_comps (ac_name c) = [''..'', ''..'', x]"
      using path_comps_slash [of "''..''" "''../'' @ x"] path_comps_slash [of "''..''" x] assms(4)
      by (simp add: assms(3)) (simp add: path_comps_def)
    moreover have "\<not> starts_with (ac_name c) ''/''" by (simp add: assms(3) starts_with_slash)
    ultimately show ?thesis by (simp add: tag_dir_of_def path_comps_join)
  qed
  have walk_app: "walk p (cs @ ds) = walk (walk p cs) ds" for p cs ds by (induction p cs rule: walk.induct) auto
  have dirs: "walk [] (path_comps (tag_dir_of c)) = butlast (path_comps (storage_root c)) @ [x]"
    using assms(1,4) by (auto simp: comps walk_app clean_def walk_clean is_segment_def)
  have path: "abs_path (tag_file_of c) = ?p"
    using assms(5) dirs by (auto simp: abs_path_def join_def tag_file_of_def walk_app is_segment_def)
  obtain h1 where m: "make_dirs_at (tag_dir_of c) h = (Ok (), h1)"
    and w: "write_at (tag_file_of c) (ac_digest c) h1 = (Ok (), h')"
    using assms(6) by (auto simp: commit_tag_def split: sum.splits prod.splits)
  obtain i h2 where cf: "create_file ?p h1 = (Ok i, h2)" and wr: "write_all ?p i (ac_digest c) h2 = (Ok (), h')"
    using w by (auto simp: write_at_def at_path_def path split: sum.splits prod.splits if_splits)
  have "\<not> tag_segment (ac_name c)" using tag_segment_segment [of "ac_name c"] by (auto simp: assms(3) is_segment_def)
  then have refused: "\<exists>e. set_tag R (ac_name c) (ac_tag c) d h = (Err (InvalidFormat e), h)"
    using validate_not_segment [of "ac_name c"] by (auto simp: set_tag_def)
  have "plain h1 ?p" using make_dirs_plain [OF m] assms(7) by blast
  note L = create_file_lookup(1,3) [OF cf this]
  have "contents h' ?p = Some (ac_digest c)"
    using write_all_Ok [OF wr] L by (simp add: contents_def stat_plain plain_def fs_simps)
  with refused show ?thesis by blast
qed

theorem pull_tag_escapes_witness:
  "\<exists>h'. commit_tag (demo_commit ''../../etc'' ''passwd'') (plain_host (([''etc''], Dir) # ([''etc'', ''passwd''], File 0) #
      ([''m'', ''tags''], Dir) # demo_dirs) [(0, \<lparr>content = ''root'', mtime = 0\<rparr>)]) = (Ok (), h') \<and>
    contents h' [''etc'', ''passwd''] = Some (replicate 64 (CHR ''a'')) \<and>
    parse_tag_override [] [] (Some ''../../etc:passwd'') = (''../../etc'', ''passwd'')"
proof -
  let ?c = "demo_commit ''../../etc'' ''passwd''"
  let ?h = "plain_host (([''etc''], Dir) # ([''etc'', ''passwd''], File 0) # ([''m'', ''tags''], Dir) # demo_dirs)
      [(0, \<lparr>content = ''root'', mtime = 0\<rparr>)]"
  have "fst (commit_tag ?c ?h) = Ok ()" by code_simp
  then obtain h' where h': "commit_tag ?c ?h = (Ok (), h')" by (metis prod.collapse)
  have c: "clean (storage_root ?c)" "path_comps (storage_root ?c) = [''m'']" "ac_name ?c = ''../../'' @ ''etc''"
    "is_segment ''etc''" "is_segment (ac_tag ?c)" by code_simp+
  have "plain ?h [''etc'', ''passwd'']" by (simp add: plain_def lookup_def plain_host_def)
  then have "plain ?h (butlast (path_comps (storage_root ?c)) @ [''etc'', ac_tag ?c])" by (simp add: c(2)) (simp add: demo_commit_def)
  from pull_tag_escapes [OF c(1) _ c(3,4,5) h' this] have "contents h' [''etc'', ''passwd''] = Some (replicate 64 (CHR ''a''))"
    by (simp add: c(2)) (simp add: demo_commit_def)
  moreover have "parse_tag_override [] [] (Some ''../../etc:passwd'') = (''../../etc'', ''passwd'')" by code_simp
  ultimately show ?thesis using h' by blast
qed

end
