(* ===== verification/Import_Cmd.thy ===== *)
theory Import_Cmd
  imports Store_System Validator Topology
begin

text \<open>
  The import of a local file (\<^verbatim>\<open>cmd/import.rs\<close>).  The result is the text of the error or nothing, the lines
  printed, and the file system.  \<open>chunks_of\<close> says how the kernel cuts a file into reads.
\<close>

definition show_safe_format :: "safe_format \<Rightarrow> string" where
  "show_safe_format f = (case f of Gguf \<Rightarrow> ''Gguf'' | SafeTensors \<Rightarrow> ''SafeTensors'' | Onnx \<Rightarrow> ''Onnx'')"

definition source_reads :: "(bytes \<Rightarrow> bytes list) \<Rightarrow> host \<Rightarrow> path \<Rightarrow> node \<Rightarrow> read_event list" where
  "source_reads chunks_of h p nd = (case read_node h p nd of Inl e \<Rightarrow> [Read_Error e] | Inr bs \<Rightarrow> map Chunk (chunks_of bs))"

text \<open>Only a refusal on security grounds stops the import; an unknown format is stored without a name.\<close>

definition import_format :: "read_event list \<Rightarrow> safe_format option anyhow" where
  "import_format reads =
     (case fst (detect_safe_format reads) of
        Inl (SecurityRejection reason) \<Rightarrow> Err (''Security rejection: '' @ reason)
      | Inr fmt \<Rightarrow> Ok (Some fmt)
      | Inl _ \<Rightarrow> Ok None)"

text \<open>The name and the variant of a tag; a text without a colon has the variant \<open>latest\<close>.\<close>

definition tag_parts :: "string \<Rightarrow> string \<times> string" where
  "tag_parts t = (case split_once (CHR '':'') t of Some (n, v) \<Rightarrow> (n, v) | None \<Rightarrow> (t, ''latest''))"

definition import_report :: "string \<Rightarrow> safe_format option \<Rightarrow> string \<Rightarrow> nat \<Rightarrow> string list" where
  "import_report source fmt digest n =
     [''Imported '' @ debug_str source @ '' into CAS store.''] @
     (case fmt of Some f \<Rightarrow> [''  Format:  '' @ show_safe_format f] | None \<Rightarrow> []) @
     [''  SHA-256: '' @ digest, ''  Size:    '' @ show_nat n @ '' bytes'']"

definition import_tag ::
    "tag_registry \<Rightarrow> string option \<Rightarrow> string \<Rightarrow> string list \<Rightarrow> host \<Rightarrow> (string + unit) \<times> string list \<times> host" where
  "import_tag tags tag digest out h =
     (case tag of
        None \<Rightarrow> (Ok (), out, h)
      | Some t \<Rightarrow>
          (let (name, variant) = tag_parts t in
           case set_tag tags name variant digest h of
             (Inl e, h1) \<Rightarrow> (Err (show_error e), out, h1)
           | (Inr u, h1) \<Rightarrow> (Ok (), out @ [''  Tagged:  '' @ name @ '':'' @ variant], h1)))"

definition run_import ::
    "'h hasher \<Rightarrow> (bytes \<Rightarrow> bytes list) \<Rightarrow> string \<Rightarrow> string \<Rightarrow> string option \<Rightarrow> host \<Rightarrow> (string + unit) \<times> string list \<times> host" where
  "run_import H chunks_of root source tag h =
     (let src = abs_path source in
      if \<not> is_file h src then (Err (''Source file not found: '' @ debug_str source), [], h)
      else (case validate_file_safety source of Inl e \<Rightarrow> (Err (show_error e), [], h) | Inr u \<Rightarrow>
       (case CasStore_new (abs_path root) h of (Inl e, h1) \<Rightarrow> (Err (show_error e), [], h1) | (Inr cas, h1) \<Rightarrow>
        (case TagRegistry_new (abs_path root) h1 of (Inl e, h2) \<Rightarrow> (Err (show_error e), [], h2) | (Inr tags, h2) \<Rightarrow>
         (case open_file h2 src of Inl e \<Rightarrow> (Err (io_text e), [], h2) | Inr nd \<Rightarrow>
          (let reads = source_reads chunks_of h2 src nd in
           case import_format reads of Inl e \<Rightarrow> (Err e, [], h2) | Inr fmt \<Rightarrow>
            (case store_blob H cas reads None h2 of
               (Inl e, h3) \<Rightarrow> (Err (show_error e), [], h3)
             | (Inr (digest, n), h3) \<Rightarrow> import_tag tags tag digest (import_report source fmt digest n) h3)))))))"

section \<open>Lemmas\<close>

lemma adds_dirs_files: "adds_dirs p h h' \<Longrightarrow> lookup h' q = Some (File i) \<longleftrightarrow> lookup h q = Some (File i)"
  unfolding adds_dirs_def by (metis node.distinct(1) option.distinct(1) option.inject)

text \<open>
  Making the directories of the store: the invariant stays, and what is changed is on the way to the
  directory made.
\<close>

definition opens_below :: "path list \<Rightarrow> host \<Rightarrow> host \<Rightarrow> bool" where
  "opens_below ds h h' = (same_files h h' \<and> (\<forall>q i. lookup h' q = Some (File i) \<longleftrightarrow> lookup h q = Some (File i)) \<and>
     (\<forall>q nd. lookup h q = Some nd \<longrightarrow> lookup h' q = Some nd) \<and>
     (\<forall>q. (\<forall>d \<in> set ds. \<not> prefix q d) \<longrightarrow> lookup h' q = lookup h q))"

lemma opens_below_trans: "opens_below ds h h1 \<Longrightarrow> opens_below ds' h1 h2 \<Longrightarrow> opens_below (ds @ ds') h h2"
  by (auto simp: opens_below_def intro: same_files_trans)

lemma opens_below_mono: "opens_below ds h h' \<Longrightarrow> set ds \<subseteq> set ds' \<Longrightarrow> opens_below ds' h h'"
  unfolding opens_below_def by blast

lemma store_inv_dir:
  assumes "store_inv H root h" and "path_ok p" and "create_dir_all p h = (r, h')"
  shows "store_inv H root h' \<and> opens_below [p] h h'"
proof
  note A = create_dir_all_adds_dirs [OF assms(3)]
  show "store_inv H root h'"
    by (rule store_inv_dirs [OF assms(1) A create_dir_all_fs_ok [OF assms(3) store_invD(1) [OF assms(1)] assms(2)]])
  have "same_files h h'" using A by (simp add: adds_dirs_def)
  then show "opens_below [p] h h'"
    unfolding opens_below_def using adds_dirs_files [OF A] adds_dirs_not_prefix [OF A] adds_dirs_lookup [OF A] by simp
qed

text \<open>A file that is found stays found, through the same links, with the same bytes.\<close>

lemma opens_below_follow:
  assumes "opens_below ds h h'"
  shows "follow n h p = Some q \<Longrightarrow> lookup h q = Some nd \<Longrightarrow> follow n h' p = Some q"
proof (induction n arbitrary: p)
  case (Suc n)
  have keep: "lookup h q = Some nd \<Longrightarrow> lookup h' q = Some nd" for q nd using assms by (simp add: opens_below_def)
  show ?case
  proof (cases "lookup h p")
    case None
    with Suc.prems have "p = q" by simp
    with None Suc.prems show ?thesis by simp
  next
    case (Some x)
    then show ?thesis using Suc keep [OF Some] by (cases x) auto
  qed
qed simp

lemma opens_below_stat: "opens_below ds h h' \<Longrightarrow> stat h p = Some nd \<Longrightarrow> stat h' p = Some nd"
proof -
  assume a: "opens_below ds h h'" "stat h p = Some nd"
  then obtain q where q: "follow 40 h p = Some q" "lookup h q = Some nd" by (auto simp: stat_def resolve_path_def bind_eq_Some_conv)
  then have "lookup h' q = Some nd" using a(1) by (simp add: opens_below_def)
  with opens_below_follow [OF a(1) q] show ?thesis by (simp add: stat_def resolve_path_def)
qed

lemma CasStore_new_keeps:
  assumes "store_inv H root h" and "path_ok root" and "CasStore_new root h = (r, h')"
  shows "store_inv H root h' \<and> (\<forall>S. r = Ok S \<longrightarrow> S = \<lparr>root_dir = root\<rparr>) \<and>
    opens_below [blobs_dir \<lparr>root_dir = root\<rparr>, incoming_dir \<lparr>root_dir = root\<rparr>] h h'"
proof -
  let ?b = "blobs_dir \<lparr>root_dir = root\<rparr>" and ?i = "incoming_dir \<lparr>root_dir = root\<rparr>"
  have pok: "path_ok ?b" "path_ok ?i" using assms(2) by (simp_all add: blobs_dir_def incoming_dir_def path_ok_join)
  obtain r1 h1 where c1: "create_dir_all ?b h = (r1, h1)" by fastforce
  obtain r2 h2 where c2: "create_dir_all ?i h1 = (r2, h2)" by fastforce
  note D1 = store_inv_dir [OF assms(1) pok(1) c1]
  note D2 = store_inv_dir [OF conjunct1 [OF D1] pok(2) c2]
  have "opens_below [?b, ?i] h h2" "opens_below [?b, ?i] h h1"
    using opens_below_trans [of "[?b]" h h1 "[?i]" h2] opens_below_mono [of "[?b]" h h1 "[?b, ?i]"] D1 D2 by simp_all
  then show ?thesis using assms(3) D1 D2
    by (cases r1; cases r2) (auto simp: CasStore_new_def Let_def c1 c2)
qed

lemma TagRegistry_new_keeps:
  assumes "store_inv H root h" and "path_ok root" and "TagRegistry_new root h = (r, h')"
  shows "store_inv H root h' \<and> (\<forall>R. r = Ok R \<longrightarrow> tags_dir R = root @ [''tags'']) \<and>
    opens_below [root @ [''tags'']] h h'"
proof -
  have j: "join root ''tags'' = root @ [''tags'']" by (rule join_segment) (simp add: is_segment_def)
  have pok: "path_ok (root @ [''tags''])" using path_ok_join [OF assms(2), of "''tags''"] by (simp only: j)
  obtain r1 h1 where c1: "create_dir_all (root @ [''tags'']) h = (r1, h1)" by fastforce
  note D1 = store_inv_dir [OF assms(1) pok c1]
  show ?thesis using assms(3) D1 by (cases r1) (auto simp: TagRegistry_new_def j c1)
qed

lemma import_tag_keeps:
  assumes inv: "store_inv H root h" and root: "path_ok root" and R: "tags_dir R = root @ [''tags'']" and d: "is_digest_format d"
    and t: "import_tag R tag d out h = (r, out', h')"
  shows "store_inv H root h' \<and> keeps_blobs root h h'"
proof (cases "\<exists>n v. tag \<noteq> None \<and> tag_parts (the tag) = (n, v) \<and> tag_segment n \<and> tag_segment v")
  case True
  then obtain n v x where x: "tag = Some x" "tag_parts x = (n, v)" "tag_segment n" "tag_segment v" by auto
  let ?ctx = "\<lparr>ctx_cas = \<lparr>root_dir = root\<rparr>, ctx_tags = R, ctx_eviction = \<lparr>pinned_dir = root @ [''pinned'']\<rparr>\<rparr>"
  have ctx: "over_root ?ctx root" using root R by (simp add: over_root_def)
  obtain r1 h1 where s: "set_tag R n v d h = (r1, h1)" by fastforce
  then have "h' = h1" using t x by (cases r1) (auto simp: import_tag_def)
  then show ?thesis using set_tag_keeps [OF inv ctx x(3,4) d, of r1 h1] s by simp
next
  case False
  have "h' = h"
  proof (cases tag)
    case (Some x)
    obtain n v where nv: "tag_parts x = (n, v)" by fastforce
    with False Some have "\<not> tag_segment n \<or> \<not> tag_segment v" by auto
    then have "snd (set_tag R n v d h) = h"
      using validate_not_segment [of n] validate_not_segment [of v] by (auto simp: set_tag_def split: sum.split)
    then show ?thesis using t Some nv by (auto simp: import_tag_def split: prod.splits sum.splits)
  qed (use t in \<open>simp add: import_tag_def\<close>)
  then show ?thesis using inv by (simp add: keeps_blobs_def)
qed

text \<open>What a stream of reads of a file delivers.\<close>

lemma stream_map_Chunk: "\<forall>c \<in> set cs. c \<noteq> [] \<Longrightarrow> stream_bytes (map Chunk cs) = concat cs"
  by (induction cs) auto

lemma stream_error_Chunk: "stream_error (map Chunk cs) = None"
  by (induction cs) auto

section \<open>Properties\<close>

text \<open>The outcomes of an import, by how far it gets.\<close>

lemma run_import_cases:
  assumes "run_import H chunks_of root source tag h = (r, out, h')"
    and c1: "CasStore_new (abs_path root) h = (r1, h1)" and c2: "TagRegistry_new (abs_path root) h1 = (r2, h2)"
  shows "(\<not> is_ok r \<and> h' = h) \<or> (is_ok (validate_file_safety source) \<and> is_file h (abs_path source) \<and>
    ((\<not> is_ok r \<and> h' = h1) \<or> (\<not> is_ok r \<and> is_ok r1 \<and> h' = h2) \<or>
     (\<exists>S R nd fmt r3 h3. r1 = Ok S \<and> r2 = Ok R \<and> open_file h2 (abs_path source) = Ok nd \<and>
        import_format (source_reads chunks_of h2 (abs_path source) nd) = Ok fmt \<and>
        store_blob H S (source_reads chunks_of h2 (abs_path source) nd) None h2 = (r3, h3) \<and>
        ((\<not> is_ok r \<and> \<not> is_ok r3 \<and> h' = h3) \<or>
         (\<exists>d n. r3 = Ok (d, n) \<and> import_tag R tag d (import_report source fmt d n) h3 = (r, out, h'))))))"
proof (cases "is_file h (abs_path source) \<and> is_ok (validate_file_safety source)")
  case False
  then show ?thesis using assms(1) by (auto simp: run_import_def Let_def is_ok_def split: sum.splits if_splits)
next
  case True
  show ?thesis
  proof (cases r1)
    case (Inl e)
    then show ?thesis using assms(1) True c1 by (auto simp: run_import_def Let_def is_ok_def split: sum.splits)
  next
    case (Inr S)
    note r1 = this
    show ?thesis
    proof (cases r2)
      case (Inl e)
      then show ?thesis using assms(1) True c1 c2 r1 by (auto simp: run_import_def Let_def is_ok_def split: sum.splits)
    next
      case (Inr R)
      obtain u where v: "validate_file_safety source = Ok u" using True by (auto simp: is_ok_iff)
      let ?on = "open_file h2 (abs_path source)"
      show ?thesis
      proof (cases "\<exists>nd fmt. ?on = Ok nd \<and> import_format (source_reads chunks_of h2 (abs_path source) nd) = Ok fmt")
        case False
        then have "\<not> is_ok r \<and> h' = h2"
          using assms(1) True v c1 c2 r1 Inr by (auto simp: run_import_def Let_def is_ok_def split: sum.splits)
        then show ?thesis using True r1 by (simp add: is_ok_def)
      next
        case True': True
        then obtain nd fmt where nd: "?on = Ok nd" "import_format (source_reads chunks_of h2 (abs_path source) nd) = Ok fmt" by blast
        obtain r3 h3 where sb: "store_blob H S (source_reads chunks_of h2 (abs_path source) nd) None h2 = (r3, h3)" by fastforce
        have "(\<not> is_ok r \<and> \<not> is_ok r3 \<and> h' = h3) \<or>
            (\<exists>d n. r3 = Ok (d, n) \<and> import_tag R tag d (import_report source fmt d n) h3 = (r, out, h'))"
          using assms(1) True v c1 c2 r1 Inr nd sb by (cases r3) (auto simp: run_import_def Let_def is_ok_def)
        then show ?thesis using True r1 Inr nd sb by blast
      qed
    qed
  qed
qed

text \<open>The directories of a store are made before the source is read: it is still there.\<close>

lemma source_still_there:
  assumes o: "opens_below ds h h'" and src: "contents h p = Some bs" and op: "open_file h' p = Ok nd"
  shows "source_reads chunks_of h' p nd = (case refuse h Op_read p of None \<Rightarrow> map Chunk (chunks_of bs) | Some e \<Rightarrow> [Read_Error e])"
proof -
  from src obtain j where j: "stat h p = Some (File j)" "bs = content (inode h j)"
    by (auto simp: contents_def split: option.splits node.splits)
  have sf: "same_files h h'" using o by (simp add: opens_below_def)
  from opens_below_stat [OF o j(1)] have "nd = File j" using op by (auto simp: open_file_def split: option.splits)
  then show ?thesis
    by (simp add: source_reads_def read_node_def j(2) same_files_inode [OF sf] same_files_refuse [OF sf] split: option.split)
qed

lemma stage_not_on_the_way:
  "\<not> prefix (stage_path \<lparr>root_dir = root\<rparr> h) (blobs_dir \<lparr>root_dir = root\<rparr>)"
    "\<not> prefix (stage_path \<lparr>root_dir = root\<rparr> h) (incoming_dir \<lparr>root_dir = root\<rparr>)"
    "\<not> prefix (stage_path \<lparr>root_dir = root\<rparr> h) (root @ [''tags''])"
  by (auto simp: stage_path_eq path_simps prefix_def)

text \<open>Storing and tagging.\<close>

lemma import_commit_keeps:
  assumes H: "sha256_contract H" and inv: "store_inv H R h" and rok: "path_ok R"
    and unused: "lookup h (stage_path \<lparr>root_dir = R\<rparr> h) = None" and st: "store_blob H \<lparr>root_dir = R\<rparr> reads None h = (r3, h3)"
    and tags: "tags_dir T = R @ [''tags'']"
    and out: "(\<not> is_ok r \<and> \<not> is_ok r3 \<and> h' = h3) \<or> (\<exists>d n. r3 = Ok (d, n) \<and> import_tag T tag d (rep d n) h3 = (r, out, h'))"
  shows "store_inv H R h' \<and> (is_ok r \<longrightarrow> stream_error reads = None \<and>
    (\<exists>p j. p \<in> blob_paths \<lparr>root_dir = R\<rparr> (hex_digest H (stream_bytes reads)) \<and> lookup h' p = Some (File j)))"
proof -
  note keep3 = store_blob_keeps [OF H inv rok unused st]
  show ?thesis
    using out
  proof (elim disjE exE conjE)
    fix d n assume r3: "r3 = Ok (d, n)" and it: "import_tag T tag d (rep d n) h3 = (r, out, h')"
    from store_blob_outcome [OF st store_invD(1) [OF inv] H unused] r3
    obtain p where p: "p \<in> blob_paths \<lparr>root_dir = R\<rparr> d" "d = hex_digest H (stream_bytes reads)" "stream_error reads = None"
        "committed \<lparr>root_dir = R\<rparr> h p (stream_bytes reads) h3"
      by auto
    have df: "is_digest_format d" using hex_digest_format [OF H] by (simp add: p(2))
    have "lookup h3 p = Some (File (next_ino h))" using p(4) by (simp add: committed_def)
    with import_tag_keeps [OF conjunct1 [OF keep3] rok tags df it] blob_path_not_registry [OF df p(1)]
    have "store_inv H R h'" "lookup h' p = Some (File (next_ino h))" by (auto simp: keeps_blobs_def)
    with p(1-3) show ?thesis by blast
  qed (use keep3 in simp)
qed

lemma run_import_outcome:
  fixes H :: "'h hasher" and root source :: string
  defines "R \<equiv> abs_path root" and "src \<equiv> abs_path source"
  assumes "sha256_contract H" and chunks: "\<And>bs. concat (chunks_of bs) = bs \<and> (\<forall>c \<in> set (chunks_of bs). c \<noteq> [])"
    and inv: "store_inv H R h" and unused: "lookup h (stage_path \<lparr>root_dir = R\<rparr> h) = None"
    and run: "run_import H chunks_of root source tag h = (r, out, h')"
  shows "store_inv H R h' \<and>
    ((\<not> is_ok r \<and> (\<forall>q i. lookup h' q = Some (File i) \<longleftrightarrow> lookup h q = Some (File i))) \<or>
     (is_ok (validate_file_safety source) \<and>
      (\<forall>bs m. contents h src = Some bs \<longrightarrow> refuse h Op_read src = None \<longrightarrow>
        fst (detect_safe_format (map Chunk (chunks_of bs))) \<noteq> Err (SecurityRejection m)) \<and>
      (is_ok r \<longrightarrow> (\<exists>bs p j. contents h src = Some bs \<and> p \<in> blob_paths \<lparr>root_dir = R\<rparr> (hex_digest H bs) \<and>
        lookup h' p = Some (File j)))))"
    (is "_ \<and> (_ \<and> ?same h' \<or> _ \<and> ?harmless \<and> (_ \<longrightarrow> ?stored h'))")
proof -
  have rok: "path_ok R" using path_ok_join [of "[]" root] by (simp add: R_def abs_path_def)
  obtain r1 h1 where c1: "CasStore_new R h = (r1, h1)" by fastforce
  obtain r2 h2 where c2: "TagRegistry_new R h1 = (r2, h2)" by fastforce
  note K1 = CasStore_new_keeps [OF inv rok c1]
  note K2 = TagRegistry_new_keeps [OF conjunct1 [OF K1] rok c2]
  let ?D = "[blobs_dir \<lparr>root_dir = R\<rparr>, incoming_dir \<lparr>root_dir = R\<rparr>] @ [R @ [''tags'']]"
  have o1: "opens_below ?D h h1" by (rule opens_below_mono [OF conjunct2 [OF conjunct2 [OF K1]]]) simp
  have o2: "opens_below ?D h h2" using opens_below_trans K1 K2 by blast
  have same: "?same h" "?same h1" "?same h2" using o1 o2 by (simp_all add: opens_below_def)
  have "stage_path \<lparr>root_dir = R\<rparr> h2 = stage_path \<lparr>root_dir = R\<rparr> h"
    using o2 by (simp add: opens_below_def same_files_def stage_path_def stage_nonce_def)
  then have unused2: "lookup h2 (stage_path \<lparr>root_dir = R\<rparr> h2) = None"
    using o2 unused stage_not_on_the_way [of R h] by (simp add: opens_below_def)
  have inv2: "store_inv H R h2" using K2 by blast
  consider (early) "\<not> is_ok r" "h' = h \<or> h' = h1 \<or> h' = h2"
    | (full) S R' nd fmt r3 h3 where "r1 = Ok S" "r2 = Ok R'" "open_file h2 src = Ok nd"
        "import_format (source_reads chunks_of h2 src nd) = Ok fmt"
        "store_blob H S (source_reads chunks_of h2 src nd) None h2 = (r3, h3)" "is_ok (validate_file_safety source)" "is_file h src"
        "(\<not> is_ok r \<and> \<not> is_ok r3 \<and> h' = h3) \<or>
         (\<exists>d n. r3 = Ok (d, n) \<and> import_tag R' tag d (import_report source fmt d n) h3 = (r, out, h'))"
    using run_import_cases [OF run c1 [unfolded R_def] c2 [unfolded R_def], folded src_def] by metis
  then show ?thesis
  proof cases
    case early
    then show ?thesis using inv K1 K2 same by blast
  next
    case F: full
    let ?reads = "source_reads chunks_of h2 src nd"
    have S: "S = \<lparr>root_dir = R\<rparr>" "tags_dir R' = R @ [''tags'']" using K1 K2 F(1,2) by auto
    obtain bs where bs: "contents h src = Some bs" using F(7) by (auto simp: is_file_contents)
    note reads = source_still_there [OF o2 bs F(3), of chunks_of]
    have sb: "stream_bytes (map Chunk (chunks_of bs)) = bs" using chunks [of bs] by (simp add: stream_map_Chunk)
    have not_bad: "is_ok (validate_file_safety source) \<and> ?harmless"
      using F(4,6) bs reads by (auto simp: import_format_def)
    have "store_inv H R h' \<and> (is_ok r \<longrightarrow> ?stored h')"
      using import_commit_keeps [OF assms(3) inv2 rok unused2 F(5) [unfolded S(1)] S(2) F(8)] bs reads sb by (auto split: option.splits)
    with not_bad show ?thesis by blast
  qed
qed



text \<open>
  Stored before it is named.  The tag is checked only after the file has been stored: with a tag the
  registry refuses, an import fails with the registry's error and the blob stays; the text without
  a name that a comment calls a user error reaches the registry as well.
\<close>

lemma import_tag_too_late:
  assumes "CasStore_new (abs_path root) h = (Ok S, h1)" and "TagRegistry_new (abs_path root) h1 = (Ok R, h2)"
    and "is_file h (abs_path source)" and "validate_file_safety source = Ok ()" and "open_file h2 (abs_path source) = Ok nd"
    and "import_format (source_reads chunks_of h2 (abs_path source) nd) = Ok fmt"
    and "store_blob H S (source_reads chunks_of h2 (abs_path source) nd) None h2 = (Ok (d, n), h3)"
    and "tag_parts t = (name, variant)" and "\<not> tag_segment name \<or> \<not> tag_segment variant"
  shows "\<exists>m out. run_import H chunks_of root source (Some t) h = (Err (show_error (InvalidFormat m)), out, h3)"
proof -
  obtain m where "set_tag R name variant d h3 = (Err (InvalidFormat m), h3)"
  proof (cases "tag_segment name")
    case True
    then have "\<not> tag_segment variant" using assms(9) by blast
    then obtain m where "validate_tag_segment variant = Inl (InvalidFormat m)" using validate_not_segment by blast
    with True that show thesis by (auto simp: set_tag_def validate_tag_segment_Ok [THEN iffD2])
  next
    case False
    then obtain m where "validate_tag_segment name = Inl (InvalidFormat m)" using validate_not_segment by blast
    with that show thesis by (auto simp: set_tag_def)
  qed
  then show ?thesis using assms by (simp add: run_import_def Let_def import_tag_def)
qed

end
