(* ===== verification/Bootstrap_Cmd.thy ===== *)
theory Bootstrap_Cmd
  imports Pull_Cmd Family
begin

text \<open>
  Bootstrapping a model family (\<^verbatim>\<open>pull/bootstrap.rs\<close>): the plan for the hardware of the host and one pull per
  planned model.  The pulls are tasks of their own; they are run here one after the other, in the order
  \<open>bt_order\<close> in which they finish, which may be any.  A panic of a task becomes the text \<open>bt_panic\<close> of
  the runtime's error.  \<open>bt_plan_json\<close> is the derived printer of a plan.
\<close>

section \<open>The plan as text\<close>

definition vram_budget_gb :: "memory_budget \<Rightarrow> float_num" where
  "vram_budget_gb b = Fin False (round_53 (vram_budget_bytes b)) (- 30)"

definition ram_budget_gb :: "memory_budget \<Rightarrow> float_num" where
  "ram_budget_gb b = Fin False (round_53 (ram_budget_bytes b)) (- 30)"

text \<open>One line for a target: the unit is \<open>2 ^ k\<close> bytes, printed to \<open>p\<close> decimals.\<close>

definition target_line :: "string \<Rightarrow> nat \<Rightarrow> nat \<Rightarrow> string \<Rightarrow> model_target \<Rightarrow> string" where
  "target_line heading p k unit t = heading @ tg_name t @ '':'' @ tg_tag t @ '' ['' @ tg_quant t @ '' - '' @ tg_file t @ ''] (~'' @
     show_ratio p k (estimated_bytes t) @ unit @ '')''"

definition opt_line :: "string \<Rightarrow> nat \<Rightarrow> nat \<Rightarrow> string \<Rightarrow> model_target option \<Rightarrow> string list" where
  "opt_line heading p k unit t = (case t of Some t \<Rightarrow> [target_line heading p k unit t] | None \<Rightarrow> [])"

definition render_human_plan :: "bootstrap_plan \<Rightarrow> bool \<Rightarrow> string list" where
  "render_human_plan plan dry_run =
     (let b = bp_budget plan in
      [''=== Hardware Envelope & Usable Memory Budgets ==='',
       ''  CPU Cores:        '' @ show_nat (mb_cpu_cores b),
       ''  Host RAM:         '' @ show_ratio 1 30 (available_ram_bytes b) @ '' GB avail -> '' @ show_fixed 1 (ram_budget_gb b) @
         '' GB usable draft budget (50%)''] @
      (if has_gpu b then
         [''  GPU VRAM:         '' @ show_ratio 1 30 (total_gpu_vram_bytes b) @ '' GB total -> '' @ show_fixed 1 (vram_budget_gb b) @
           '' GB usable GPU budget (85%)'']
       else [''  GPU VRAM:         None detected (CPU draft only)'']) @
      [[], ''=== Selected Model Family: '' @ show_family (bp_family plan) @ '' ==='',
       target_line ''  CPU Draft:        '' 0 20 '' MB'' (draft plan)] @
      (case primary plan of
         Some p \<Rightarrow> [target_line ''  GPU Primary:      '' 1 30 '' GB'' p]
       | None \<Rightarrow> [''  GPU Primary:      (Skipped: insufficient VRAM)'']) @
      opt_line ''  Vision Tower:     '' 0 20 '' MB'' (vision_tower plan) @
      opt_line ''  Embedder:         '' 0 20 '' MB'' (embedder plan) @
      opt_line ''  Deep Reasoner:    '' 1 30 '' GB'' (deep_reasoner plan) @
      (if dry_run then [[], ''  Mode:             DRY-RUN (no models will be fetched)''] else []))"

section \<open>The command\<close>

record 'h boot_env =
  bt_pull :: "'h pull_env"
  bt_cores :: "nat option"
  bt_plan_json :: "bootstrap_plan \<Rightarrow> string"
  bt_order :: "model_target list \<Rightarrow> model_target list"
  bt_panic :: string

definition says :: "string list \<Rightarrow> pull_state \<Rightarrow> pull_state" where
  "says lines s = s\<lparr>ps_out := ps_out s @ lines\<rparr>"

definition run_target ::
    "'h boot_env \<Rightarrow> string \<Rightarrow> string \<Rightarrow> model_target \<Rightarrow> pull_state \<Rightarrow> unit anyhow option \<times> pull_state" where
  "run_target env root sock t s =
     run_pull (bt_pull env) root sock (tg_repo t) ''gguf'' (Some (tg_quant t)) (Some (tg_name t @ '':'' @ tg_tag t)) False s"

definition task_error :: "'h boot_env \<Rightarrow> unit anyhow option \<Rightarrow> string list" where
  "task_error env r = (case r of
     None \<Rightarrow> [''Task execution failed: '' @ bt_panic env] | Some (Inl e) \<Rightarrow> [e] | Some (Inr u) \<Rightarrow> [])"

fun run_tasks :: "'h boot_env \<Rightarrow> string \<Rightarrow> string \<Rightarrow> model_target list \<Rightarrow> pull_state \<Rightarrow> string list \<times> pull_state" where
  "run_tasks env root sock [] s = ([], s)"
| "run_tasks env root sock (t # ts) s =
     (let (out, s1) = run_target env root sock t s; (errors, s2) = run_tasks env root sock ts s1
      in (task_error env out @ errors, s2))"

definition plan_for :: "'h boot_env \<Rightarrow> string \<Rightarrow> host \<Rightarrow> model_family \<Rightarrow> bootstrap_plan" where
  "plan_for env inference_socket h family =
     plan_family family (from_topology (query_or_fallback_topology (pe_json (bt_pull env))
       (\<lambda>sock request. fst (pe_serve (bt_pull env) sock request h)) (bt_cores env) h inference_socket))"

definition plan_report :: "'h boot_env \<Rightarrow> bootstrap_plan \<Rightarrow> bool \<Rightarrow> bool \<Rightarrow> string list" where
  "plan_report env plan dry_run json_output =
     (if json_output then [bt_plan_json env plan]
      else render_human_plan plan dry_run @
        (if dry_run then [[], ''[dry-run] Envelope sizing plan generated. Downloads skipped.''] else []))"

definition run_bootstrap ::
    "'h boot_env \<Rightarrow> string \<Rightarrow> string \<Rightarrow> string \<Rightarrow> string \<Rightarrow> bool \<Rightarrow> bool \<Rightarrow> pull_state \<Rightarrow> unit anyhow \<times> pull_state" where
  "run_bootstrap env root sock inference_socket family_str dry_run json_output s =
     (case family_from_str family_str of
        Inl e \<Rightarrow> (Err e, s)
      | Inr family \<Rightarrow>
          (let plan = plan_for env inference_socket (ps_host s) family;
               s1 = says (plan_report env plan dry_run json_output) s
           in if dry_run then (Ok (), s1)
              else (let s2 = says [[], ''Beginning parallel streaming download and CAS commitment...''] s1;
                        (errors, s3) = run_tasks env root sock (bt_order env (all_targets plan)) s2
                    in if errors \<noteq> [] then
                         (Err (''Bootstrap encountered download errors:'' @ [CHR 0x0A] @ join_with [CHR 0x0A] errors), s3)
                       else (Ok (), says [[], ''Bootstrap completed successfully for family: '' @ show_family family] s3))))"

section \<open>The pulls of a plan\<close>

lemma says_simps [simp]: "ps_host (says ls s) = ps_host s" "ps_log (says ls s) = ps_log s" "ps_seq (says ls s) = ps_seq s"
  by (simp_all add: says_def)

lemma sends_trans: "sends env m s s1 \<Longrightarrow> sends env n s1 s2 \<Longrightarrow> sends env (m + n) s s2"
  by (auto simp: sends_def)

lemma sends_from: "ps_log s1 = ps_log s \<Longrightarrow> ps_log s2 = ps_log s' \<Longrightarrow> sends env n s1 s2 = sends env n s s'"
  by (simp add: sends_def)

lemma run_tasks_sends: "run_tasks env root sock ts s = (errors, s') \<Longrightarrow> sends (pe_hub (bt_pull env)) (3 * length ts) s s'"
proof (induction ts arbitrary: s errors s')
  case (Cons t ts)
  obtain out s1 where p: "run_target env root sock t s = (out, s1)" by fastforce
  obtain es s2 where q: "run_tasks env root sock ts s1 = (es, s2)" by fastforce
  have "sends (pe_hub (bt_pull env)) 3 s s1"
    using run_pull_sends [of "bt_pull env" s root sock] p by (simp add: run_target_def) (metis snd_conv)
  from sends_trans [OF this Cons.IH [OF q]] show ?case using Cons.prems p q by (simp add: Let_def)
qed (simp add: sends_same)

text \<open>The outcomes of the tasks, each from the state the one before it left.\<close>

fun outcomes :: "'h boot_env \<Rightarrow> string \<Rightarrow> string \<Rightarrow> model_target list \<Rightarrow> pull_state \<Rightarrow> unit anyhow option list" where
  "outcomes env root sock [] s = []"
| "outcomes env root sock (t # ts) s =
     fst (run_target env root sock t s) # outcomes env root sock ts (snd (run_target env root sock t s))"

lemma run_tasks_errors: "fst (run_tasks env root sock ts s) = concat (map (task_error env) (outcomes env root sock ts s))"
  by (induction ts arbitrary: s) (auto simp: Let_def split: prod.split intro: arg_cong [where f = fst] dest: fstI)

lemma task_error_Nil: "task_error env r = [] \<longleftrightarrow> r = Some (Ok ())"
  by (auto simp: task_error_def split: option.split sum.split)

text \<open>What a target needs for its pull to find the planned file and to store it under the planned reference.\<close>

definition resolvable :: "model_target \<Rightarrow> bool" where
  "resolvable t =
     (trim (tg_repo t) = tg_repo t \<and> CHR ''/'' \<in> set (tg_repo t) \<and> find_alias (tg_repo t) = None \<and> tg_quant t \<noteq> [] \<and>
      parse_tag_override [] [] (Some (ref_of t)) = (tg_name t, tg_tag t) \<and> tg_name t \<noteq> [] \<and> tg_tag t \<noteq> [])"

definition file_named :: "model_target \<Rightarrow> bool" where
  "file_named t = (ends_with (tg_file t) ''.gguf'' \<and>
     matches_quant_strict (to_ascii_uppercase (tg_file t)) (to_ascii_uppercase (tg_quant t)))"

definition targets_named :: "bootstrap_plan \<Rightarrow> bool" where
  "targets_named p = (list_all resolvable (all_targets p) \<and> (bp_family p \<noteq> BitNet \<longrightarrow> list_all file_named (all_targets p)))"

lemma named_qwen: "targets_named (plan_qwen b)"
  unfolding plan_qwen_def Let_def
  by (cases "650 * mib \<le> ram_budget_bytes b"; cases "has_gpu b \<and> 5 * gib \<le> vram_budget_bytes b";
    cases "20 * gib + gib div 2 \<le> vram_budget_bytes b"; cases "9 * gib + gib div 2 \<le> vram_budget_bytes b";
    simp only: if_True if_False; code_simp)

lemma named_granite: "targets_named (plan_granite b)"
  unfolding plan_granite_def Let_def
  by (cases "850 * mib \<le> ram_budget_bytes b"; cases "has_gpu b \<and> 5 * gib \<le> vram_budget_bytes b";
    simp only: if_True if_False; code_simp)

lemma named_gemma: "targets_named (plan_gemma b)"
  unfolding plan_gemma_def Let_def
  by (cases "2 * gib \<le> ram_budget_bytes b"; cases "has_gpu b \<and> 6 * gib \<le> vram_budget_bytes b";
    cases "17 * gib \<le> vram_budget_bytes b"; simp only: if_True if_False; code_simp)

lemma named_phi: "targets_named (plan_phi b)"
  unfolding plan_phi_def Let_def
  by (cases "2 * gib + gib div 2 \<le> ram_budget_bytes b"; cases "has_gpu b \<and> 9 * gib \<le> vram_budget_bytes b";
    simp only: if_True if_False; code_simp)

lemma named_bitnet: "targets_named (plan_bitnet b)" by code_simp

lemma targets_named: "targets_named (plan_family f b)"
  by (cases f) (simp_all add: named_qwen named_granite named_gemma named_phi named_bitnet)

lemma parse_tag_override_default:
  assumes "parse_tag_override [] [] (Some x) = (a, b)" and "a \<noteq> []" and "b \<noteq> []"
  shows "parse_tag_override n d (Some x) = (a, b)"
  using assms by (auto simp: parse_tag_override_def Let_def split: option.splits if_splits)

lemma find_only:
  assumes "x \<in> set xs" and "P x" and "\<And>y. y \<in> set xs \<Longrightarrow> P y \<Longrightarrow> y = x"
  shows "find P xs = Some x"
proof (cases "find P xs")
  case None
  with assms(1,2) show ?thesis by (auto simp: find_None_iff)
next
  case (Some y)
  then have "y \<in> set xs \<and> P y" unfolding find_Some_iff using nth_mem by blast
  with assms(3) Some show ?thesis by blast
qed

section \<open>Properties\<close>

text \<open>
  The outcome of a bootstrap.  A dry run of a known family succeeds and touches neither the file
  system nor the network.  Any other run sends at most three requests for each planned target, all to the
  hub, and succeeds exactly when every task does, whatever the order in which they finish.
\<close>

theorem bootstrap_outcome:
  fixes env :: "'h boot_env"
  assumes "family_from_str fam = Ok f" and "\<And>ts. mset (bt_order env ts) = mset ts"
    and "run_bootstrap env root sock llm fam dry json s = (res, s')"
  defines "plan \<equiv> plan_for env llm (ps_host s) f"
  shows "(if dry then res = Ok () \<and> ps_host s' = ps_host s \<and> ps_log s' = ps_log s
    else sends (pe_hub (bt_pull env)) (3 * length (all_targets plan)) s s' \<and>
      (res = Ok () \<longleftrightarrow> (\<forall>r \<in> set (outcomes env root sock (bt_order env (all_targets plan))
        (says [[], ''Beginning parallel streaming download and CAS commitment...''] (says (plan_report env plan dry json) s))).
          r = Some (Ok ()))))"
proof (cases dry)
  case True
  with assms(1,3) show ?thesis by (auto simp: run_bootstrap_def Let_def)
next
  case False
  let ?s2 = "says [[], ''Beginning parallel streaming download and CAS commitment...''] (says (plan_report env plan dry json) s)"
  let ?ts = "bt_order env (all_targets plan)"
  obtain errors s3 where r: "run_tasks env root sock ?ts ?s2 = (errors, s3)" by fastforce
  have "length ?ts = length (all_targets plan)" using assms(2) by (metis size_mset)
  then have sent: "sends (pe_hub (bt_pull env)) (3 * length (all_targets plan)) s s3"
    using run_tasks_sends [OF r] by (simp add: sends_def)
  have "errors = [] \<longleftrightarrow> (\<forall>r \<in> set (outcomes env root sock ?ts ?s2). r = Some (Ok ()))"
    using run_tasks_errors [of env root sock ?ts ?s2] r by (simp add: task_error_Nil)
  moreover have "ps_log s' = ps_log s3 \<and> (res = Ok () \<longleftrightarrow> errors = [])"
    using assms(1,3) r False by (auto simp: run_bootstrap_def Let_def plan_def split: if_splits)
  ultimately show ?thesis using sent False by (simp add: sends_def)
qed

definition offline_boot :: "bytes boot_env" where
  "offline_boot = \<lparr>bt_pull = \<lparr>pe_hub = \<lparr>he_var = (\<lambda>v. None), he_http = (\<lambda>r. None), he_tree = (\<lambda>b. None)\<rparr>,
      pe_hasher = demo_hasher, pe_json = dumb_json, pe_serve = (\<lambda>sock request h. (Err e_not_found, h)), pe_nanos = 7\<rparr>,
     bt_cores = Some 8, bt_plan_json = (\<lambda>p. ''{}''), bt_order = rev, bt_panic = ''panic''\<rparr>"

definition idle_pull :: pull_state where
  "idle_pull = \<lparr>ps_host = demo_host, ps_seq = 1, ps_log = [], ps_out = []\<rparr>"

theorem bootstrap_outcome_witness:
  "fst (run_bootstrap offline_boot ''/m'' ''/run/s'' ''/run/i'' '' BitNet '' True False idle_pull) = Ok () \<and>
   sends (pe_hub (bt_pull offline_boot)) 3 idle_pull
     (snd (run_bootstrap offline_boot ''/m'' ''/run/s'' ''/run/i'' '' BitNet '' False False idle_pull))"
proof -
  have f: "family_from_str '' BitNet '' = Ok BitNet" by code_simp
  have o: "mset (bt_order offline_boot ts) = mset ts" for ts by (simp add: offline_boot_def)
  have l: "length (all_targets (plan_for offline_boot ''/run/i'' h BitNet)) = 1" for h
    by (simp add: plan_for_def plan_bitnet_def all_targets_def)
  have "(if dry then fst (run_bootstrap offline_boot ''/m'' ''/run/s'' ''/run/i'' '' BitNet '' dry False idle_pull) = Ok ()
    else sends (pe_hub (bt_pull offline_boot)) 3 idle_pull
      (snd (run_bootstrap offline_boot ''/m'' ''/run/s'' ''/run/i'' '' BitNet '' dry False idle_pull)))" for dry
    using bootstrap_outcome [of "'' BitNet ''" BitNet offline_boot "''/m''" "''/run/s''" "''/run/i''" dry False idle_pull, OF f o
      prod.collapse [symmetric]] by (simp add: l split: if_splits)
  from this [of True] this [of False] show ?thesis by simp
qed

text \<open>
  C36. A bootstrap pulls what it plans.  For every target of a plan of any family but BitNet: when the
  hub lists the planned file, and no other file of the repository ends in a delimiter and the planned
  quantization, the pull resolves to the planned file at its address, under the planned name and tag.
\<close>

theorem bootstrap_pulls_planned:
  assumes "t \<in> set (all_targets (plan_family f b))" and "f \<noteq> BitNet"
    and "he_http env (tree_request env h (tg_repo t)) = Some resp" and "is_success resp"
    and "Option.bind (whole_body resp) (he_tree env) = Some entries" and "tg_file t \<in> set (files_ending ''.gguf'' entries)"
    and "\<And>x. x \<in> set (files_ending ''.gguf'' entries) \<Longrightarrow>
      matches_quant_strict (to_ascii_uppercase x) (to_ascii_uppercase (tg_quant t)) \<Longrightarrow> x = tg_file t"
  shows "resolve_model_with_format env h (tg_repo t) ''gguf'' (Some (tg_quant t)) (Some (tg_name t @ '':'' @ tg_tag t)) =
    ([tree_request env h (tg_repo t)],
     Some (Ok \<lparr>rm_url = download_url t, rm_filename = tg_file t, rm_name = tg_name t, rm_tag = tg_tag t,
       rm_format = ''gguf'', rm_tokenizer = None\<rparr>))"
proof -
  have "bp_family (plan_family f b) = f" by (cases f; simp add: plan_defs Let_def)
  then have t: "resolvable t" "file_named t"
    using targets_named [of f b] assms(1,2) by (auto simp: targets_named_def list_all_iff)
  have "find_strict (files_ending ''.gguf'' entries) (to_ascii_uppercase (tg_quant t)) = Some (tg_file t)"
    unfolding find_strict_def
    by (rule find_only [OF assms(6) _ assms(7)]) (use t(2) in \<open>simp add: file_named_def\<close>)
  moreover have "files_ending ''.gguf'' entries \<noteq> []" using assms(6) by auto
  moreover have fmt: "\<not> eq_ignore_ascii_case ''gguf'' ''safetensors''" "to_ascii_lowercase ''gguf'' = ''gguf''" by code_simp+
  moreover have "parse_tag_override n d (Some (tg_name t @ '':'' @ tg_tag t)) = (tg_name t, tg_tag t)" for n d
    using t(1) parse_tag_override_default [of "ref_of t" "tg_name t" "tg_tag t" n d] by (simp add: resolvable_def ref_of_def)
  ultimately have "resolve_listing (tg_repo t) ''gguf'' (Some (tg_quant t)) (Some (tg_name t @ '':'' @ tg_tag t)) entries =
      Some (Ok \<lparr>rm_url = download_url t, rm_filename = tg_file t, rm_name = tg_name t, rm_tag = tg_tag t,
        rm_format = ''gguf'', rm_tokenizer = None\<rparr>)"
    by (simp add: resolve_listing_def matched_files_def select_file_def tokenizer_of_def hub_file_url_def download_url_def)
  then show ?thesis
    using t(1) assms(3-5) by (simp add: resolve_model_with_format_def resolvable_def fmt Let_def resolve_hf_repo_def)
qed

definition granite_hub :: hub_env where
  "granite_hub = \<lparr>he_var = (\<lambda>v. None),
     he_http = (\<lambda>r. Some \<lparr>rs_status = 200, rs_reason = ''OK'', rs_chunks = [''data''], rs_cut = False\<rparr>),
     he_tree = (\<lambda>b. Some [\<lparr>te_path = ''granite-3.0-1b-a400m-instruct-Q4_K_M.gguf'', te_type = ''file''\<rparr>,
       \<lparr>te_path = ''granite-3.0-1b-a400m-instruct-Q8_0.gguf'', te_type = ''file''\<rparr>])\<rparr>"

theorem bootstrap_pulls_planned_witness:
  "\<exists>t. t = draft (plan_family Granite (demo_budget 0 gib)) \<and> tg_quant t = ''Q8_0'' \<and>
     map_option (map_sum id rm_url) (snd (resolve_model_with_format granite_hub demo_host (tg_repo t) ''gguf''
       (Some (tg_quant t)) (Some (tg_name t @ '':'' @ tg_tag t)))) = Some (Ok (download_url t))"
proof -
  let ?t = "draft (plan_family Granite (demo_budget 0 gib))"
  let ?es = "[\<lparr>te_path = ''granite-3.0-1b-a400m-instruct-Q4_K_M.gguf'', te_type = ''file''\<rparr>,
       \<lparr>te_path = ''granite-3.0-1b-a400m-instruct-Q8_0.gguf'', te_type = ''file''\<rparr>]"
  let ?resp = "\<lparr>rs_status = 200, rs_reason = ''OK'', rs_chunks = [''data''], rs_cut = False\<rparr>"
  have q: "tg_quant ?t = ''Q8_0''" by code_simp
  have "?t \<in> set (all_targets (plan_family Granite (demo_budget 0 gib)))" by (simp add: all_targets_def Let_def split: option.split)
  moreover have "he_http granite_hub (tree_request granite_hub demo_host (tg_repo ?t)) = Some ?resp" "is_success ?resp"
    "Option.bind (whole_body ?resp) (he_tree granite_hub) = Some ?es"
    by (simp_all add: granite_hub_def is_success_def whole_body_def)
  moreover have "filter (\<lambda>x. matches_quant_strict (to_ascii_uppercase x) (to_ascii_uppercase (tg_quant ?t))) (files_ending ''.gguf'' ?es) =
      [tg_file ?t]" by code_simp
  then have "set (filter (\<lambda>x. matches_quant_strict (to_ascii_uppercase x) (to_ascii_uppercase (tg_quant ?t))) (files_ending ''.gguf'' ?es)) =
      {tg_file ?t}" by simp
  then have "tg_file ?t \<in> set (files_ending ''.gguf'' ?es)" and "\<And>x. x \<in> set (files_ending ''.gguf'' ?es) \<Longrightarrow>
      matches_quant_strict (to_ascii_uppercase x) (to_ascii_uppercase (tg_quant ?t)) \<Longrightarrow> x = tg_file ?t" by auto
  ultimately show ?thesis
    using bootstrap_pulls_planned [of ?t Granite "demo_budget 0 gib" granite_hub demo_host ?resp ?es] q by simp
qed

text \<open>
  Where a bootstrap misses its plan.  The pull of a target passes on the repository and the
  quantization but not the planned file: the quantization of BitNet occurs in no part of the planned
  name, so a repository that holds just the planned file is refused; and next to a model of the same
  quantization the vision tower of Gemma is not the file that is chosen.
\<close>

theorem planned_file_ignored:
  "(let d = draft (plan_family BitNet b) in
      resolve_listing (tg_repo d) ''gguf'' (Some (tg_quant d)) (Some (tg_name d @ '':'' @ tg_tag d))
        [\<lparr>te_path = tg_file d, te_type = ''file''\<rparr>] = Some (Err (no_quant_error ''TL1'' [tg_file d]))) \<and>
   (let v = the (vision_tower (plan_family Gemma (demo_budget (6 * gib) 0))) in
      tg_file v = ''mmproj-F16.gguf'' \<and>
      map_option (map_sum id rm_filename) (resolve_listing (tg_repo v) ''gguf'' (Some (tg_quant v)) (Some (tg_name v @ '':'' @ tg_tag v))
        [\<lparr>te_path = ''gemma-4-E2B-it-F16.gguf'', te_type = ''file''\<rparr>, \<lparr>te_path = tg_file v, te_type = ''file''\<rparr>]) =
      Some (Ok ''gemma-4-E2B-it-F16.gguf''))"
proof (rule conjI)
  show "let d = draft (plan_family BitNet b) in
      resolve_listing (tg_repo d) ''gguf'' (Some (tg_quant d)) (Some (tg_name d @ '':'' @ tg_tag d))
        [\<lparr>te_path = tg_file d, te_type = ''file''\<rparr>] = Some (Err (no_quant_error ''TL1'' [tg_file d]))" by code_simp
  show "let v = the (vision_tower (plan_family Gemma (demo_budget (6 * gib) 0))) in
      tg_file v = ''mmproj-F16.gguf'' \<and>
      map_option (map_sum id rm_filename) (resolve_listing (tg_repo v) ''gguf'' (Some (tg_quant v)) (Some (tg_name v @ '':'' @ tg_tag v))
        [\<lparr>te_path = ''gemma-4-E2B-it-F16.gguf'', te_type = ''file''\<rparr>, \<lparr>te_path = tg_file v, te_type = ''file''\<rparr>]) =
      Some (Ok ''gemma-4-E2B-it-F16.gguf'')" by code_simp
qed

end
