(* ===== verification/Modelctl.thy ===== *)
theory Modelctl
  imports Import_Cmd Bootstrap_Cmd
begin

text \<open>
  The command line program (\<^verbatim>\<open>cli.rs\<close>, \<^verbatim>\<open>main.rs\<close>, \<^verbatim>\<open>cmd/completions.rs\<close>): the parsed arguments and what each
  command runs.  The argument parser and the generator of completions are libraries; the first yields
  the record \<open>cli\<close>, the second is a parameter.  The state is that of a pull: file system, requests sent
  and lines printed, those to standard error among them.
\<close>

section \<open>Arguments\<close>

datatype visual_commands = Visual_Pull string "string option" bool

datatype lora_commands = Lora_Pull string "string option" bool

datatype commands =
    Cmd_List
  | Cmd_Inspect string
  | Cmd_Pin string
  | Cmd_Unpin string
  | Cmd_Prune nat
  | Cmd_Import string "string option"
  | Cmd_Pull string string "string option" "string option" bool
  | Cmd_Bootstrap string bool
  | Cmd_Visual visual_commands
  | Cmd_Lora lora_commands
  | Cmd_Completions string

record cli =
  cl_socket :: string
  cl_inference_socket :: string
  cl_storage_path :: string
  cl_json :: bool
  cl_command :: commands

text \<open>What the parser fills in for an option that is not given.\<close>

definition cli_of :: "string option \<Rightarrow> string option \<Rightarrow> string option \<Rightarrow> bool \<Rightarrow> commands \<Rightarrow> cli" where
  "cli_of sock inference storage json cmd =
     \<lparr>cl_socket = opt_or sock DEFAULT_SOCKET_PATH,
      cl_inference_socket = opt_or inference DEFAULT_INFERENCE_SOCKET_PATH,
      cl_storage_path = opt_or storage DEFAULT_STORAGE_PATH, cl_json = json, cl_command = cmd\<rparr>"

definition pull_of :: "string \<Rightarrow> string option \<Rightarrow> string option \<Rightarrow> string option \<Rightarrow> bool \<Rightarrow> commands" where
  "pull_of model format quant tag force = Cmd_Pull model (opt_or format ''gguf'') quant tag force"

definition bootstrap_of :: "string option \<Rightarrow> bool \<Rightarrow> commands" where
  "bootstrap_of family dry_run = Cmd_Bootstrap (opt_or family ''qwen'') dry_run"

section \<open>Completions\<close>

datatype shell = Bash | Zsh | Fish

definition completions_shell :: "string \<Rightarrow> shell option" where
  "completions_shell s =
     (let k = to_lowercase s in
      if k = ''bash'' then Some Bash else if k = ''zsh'' then Some Zsh else if k = ''fish'' then Some Fish else None)"

definition run_completions :: "(shell \<Rightarrow> string list) \<Rightarrow> string \<Rightarrow> pull_state \<Rightarrow> pull_state" where
  "run_completions generate shell s =
     (case completions_shell shell of
        Some sh \<Rightarrow> says (generate sh) s
      | None \<Rightarrow> says [''Unsupported shell '' @ quoted shell @ ''. Supported: bash, zsh, fish''] s)"

section \<open>Commands\<close>

text \<open>
  \<open>ct_connect\<close> says whether the connection to a socket is refused; what then answers a request, and what
  becomes of the file system, is \<open>pe_serve\<close>.
\<close>

record 'h ctl_env =
  ct_boot :: "'h boot_env"
  ct_connect :: "string \<Rightarrow> host \<Rightarrow> io_error option"
  ct_pretty :: "json \<Rightarrow> string"
  ct_chunks :: "bytes \<Rightarrow> bytes list"
  ct_generate :: "shell \<Rightarrow> string list"

definition peer_at :: "'h pull_env \<Rightarrow> host \<Rightarrow> peer" where
  "peer_at env h = (\<lambda>sock request. fst (pe_serve env sock request h))"

definition report :: "string list anyhow \<Rightarrow> pull_state \<Rightarrow> unit anyhow option \<times> pull_state" where
  "report r s = (case r of Inl e \<Rightarrow> (Some (Err e), s) | Inr lines \<Rightarrow> (Some (Ok ()), says lines s))"

text \<open>A command of one call: connect, call, report.  \<open>call\<close> is what it sends, if it gets that far.\<close>

definition with_client ::
    "'h ctl_env \<Rightarrow> string \<Rightarrow> (string \<times> json option) option \<Rightarrow> (peer \<Rightarrow> string list anyhow) \<Rightarrow> pull_state \<Rightarrow>
     unit anyhow option \<times> pull_state" where
  "with_client env sock call run s =
     (let pe = bt_pull (ct_boot env); h = ps_host s in
      case ct_connect env sock h of
        Some e \<Rightarrow> (Some (Err (io_text e)), s)
      | None \<Rightarrow> report (run (peer_at pe h))
          (case call of
             None \<Rightarrow> s
           | Some (meth, params) \<Rightarrow> s\<lparr>ps_host := snd (pe_serve pe sock (call_bytes (pe_json pe) meth params) h)\<rparr>))"

definition import_step :: "'h ctl_env \<Rightarrow> string \<Rightarrow> string \<Rightarrow> string option \<Rightarrow> pull_state \<Rightarrow> unit anyhow option \<times> pull_state" where
  "import_step env root source tag s =
     (case run_import (pe_hasher (bt_pull (ct_boot env))) (ct_chunks env) root source tag (ps_host s) of
        (r, out, h) \<Rightarrow> (Some r, says out (s\<lparr>ps_host := h\<rparr>)))"

definition prune_call :: "nat \<Rightarrow> (string \<times> json option) option" where
  "prune_call n = (if n = 0 then None else Some (''io.syntrop.Model1.Prune'', Some (json_object [(''max_bytes'', jnat n)])))"

definition run_command :: "'h ctl_env \<Rightarrow> cli \<Rightarrow> pull_state \<Rightarrow> unit anyhow option \<times> pull_state" where
  "run_command env c s =
     (let boot = ct_boot env; pull = bt_pull boot; J = pe_json pull; sock = cl_socket c; root = cl_storage_path c in
      case cl_command c of
        Cmd_List \<Rightarrow> with_client env sock (Some (''io.syntrop.Model1.List'', None))
          (\<lambda>peer. run_list J (ct_pretty env) peer sock (cl_json c)) s
      | Cmd_Inspect i \<Rightarrow> with_client env sock (Some (''io.syntrop.Model1.Inspect'', ident_member i))
          (\<lambda>peer. run_inspect J (ct_pretty env) peer sock i (cl_json c)) s
      | Cmd_Pin i \<Rightarrow> with_client env sock (Some (''io.syntrop.Model1.Pin'', ident_member i)) (\<lambda>peer. run_pin J peer sock i) s
      | Cmd_Unpin i \<Rightarrow> with_client env sock (Some (''io.syntrop.Model1.Unpin'', ident_member i)) (\<lambda>peer. run_unpin J peer sock i) s
      | Cmd_Prune n \<Rightarrow> with_client env sock (prune_call n) (\<lambda>peer. run_prune J peer sock n) s
      | Cmd_Import source tag \<Rightarrow> import_step env root source tag s
      | Cmd_Pull model format quant tag force \<Rightarrow> run_pull pull root sock model format quant tag force s
      | Cmd_Bootstrap family dry_run \<Rightarrow>
          apfst Some (run_bootstrap boot root sock (cl_inference_socket c) family dry_run (cl_json c) s)
      | Cmd_Visual (Visual_Pull model tag force) \<Rightarrow> run_visual_pull pull root sock model tag force s
      | Cmd_Lora (Lora_Pull lora tag force) \<Rightarrow> run_lora_pull pull root sock lora tag force s
      | Cmd_Completions shell \<Rightarrow> (Some (Ok ()), run_completions (ct_generate env) shell s))"

section \<open>A command and the daemon\<close>

text \<open>The daemon of the model listens on the socket of the command.\<close>

definition daemon_behind :: "'h ctl_env \<Rightarrow> string \<Rightarrow> server_env \<Rightarrow> service_context \<Rightarrow> (bytes \<Rightarrow> bytes list) \<Rightarrow> bool" where
  "daemon_behind env sock senv ctx pieces =
     (pe_json (bt_pull (ct_boot env)) = se_json senv \<and> (\<forall>h. ct_connect env sock h = None) \<and>
      (\<forall>request h. pe_serve (bt_pull (ct_boot env)) sock request h =
        (server_peer senv ctx h pieces sock request,
         cn_host (snd (handle_varlink_client senv ctx (map Readable (pieces request)) (new_connection h))))))"

text \<open>
  What pin, unpin and prune are to do: the outcome for the user, the reply in between and the file
  system, in terms of the store alone.
\<close>

definition pinning_spec ::
    "service_context \<Rightarrow> (string \<Rightarrow> host \<Rightarrow> 'a res \<times> host) \<Rightarrow> string list \<Rightarrow> string \<Rightarrow> host \<Rightarrow>
     string list anyhow \<times> varlink_reply \<times> host" where
  "pinning_spec ctx operation lines i h =
     (case resolve_digest (ctx_tags ctx) h i of
        Invalid_Id \<Rightarrow> (Err ''Varlink error: io.syntrop.Model1.InvalidIdentifier'',
          reply_err ''io.syntrop.Model1.InvalidIdentifier'' (ident_member i), h)
      | Not_Found_Id \<Rightarrow> (Err ''Varlink error: io.syntrop.Model1.NoSuchModel'',
          reply_err ''io.syntrop.Model1.NoSuchModel'' (ident_member i), h)
      | Resolved d \<Rightarrow>
          (case operation d h of
             (Inr u, h1) \<Rightarrow> (Ok lines, reply_ok (json_object []), h1)
           | (Inl e, h1) \<Rightarrow> (Err ''Varlink error: io.syntrop.Model1.OperationFailed'', operation_failed e, h1)))"

fun command_spec :: "service_context \<Rightarrow> commands \<Rightarrow> host \<Rightarrow> (string list anyhow \<times> varlink_reply \<times> host) option" where
  "command_spec ctx (Cmd_Pin i) h =
     Some (pinning_spec ctx (pin (ctx_eviction ctx)) [''Pinned model '' @ quoted i @ '' against storage eviction.''] i h)"
| "command_spec ctx (Cmd_Unpin i) h =
     Some (pinning_spec ctx (unpin (ctx_eviction ctx)) [''Unpinned model '' @ quoted i @ ''.''] i h)"
| "command_spec ctx (Cmd_Prune n) h =
     (if n = 0 then None
      else (case prune (ctx_eviction ctx) (ctx_cas ctx) n h of
        (Inr k, h1) \<Rightarrow> Some (Ok [''Storage reclamation complete. Reclaimed '' @ show_nat k @ '' bytes.''],
          reply_ok (json_object [(''reclaimed_bytes'', jnat k)]), h1)
      | (Inl e, h1) \<Rightarrow> Some (Err ''Varlink error: io.syntrop.Model1.OperationFailed'', operation_failed e, h1)))"
| "command_spec ctx c h = None"

fun call_of :: "commands \<Rightarrow> string \<times> json option" where
  "call_of (Cmd_Pin i) = (''io.syntrop.Model1.Pin'', ident_member i)"
| "call_of (Cmd_Unpin i) = (''io.syntrop.Model1.Unpin'', ident_member i)"
| "call_of (Cmd_Prune n) = (''io.syntrop.Model1.Prune'', Some (json_object [(''max_bytes'', jnat n)]))"
| "call_of c = ([], None)"

lemma no_service_call:
  "handle_service_call ''io.syntrop.Model1.Pin'' p = None" "handle_service_call ''io.syntrop.Model1.Unpin'' p = None"
  "handle_service_call ''io.syntrop.Model1.Prune'' p = None"
  by (simp_all add: handle_service_call_def)

lemma ident_param: "str_param (ident_member i) ''id'' = Some i"
  by (simp add: str_param_def ident_member_def get_str_def json_get_object)

lemma u64_member: "get_u64 (json_object [(k, jnat n)]) k = Some n"
  by (simp add: get_u64_def json_get_object jnat_def)

lemma command_spec_dispatch:
  assumes "command_spec ctx c h = Some (res, r, h')"
  shows "dispatch_call senv \<lparr>vc_method = fst (call_of c), vc_parameters = snd (call_of c), vc_more = None\<rparr> ctx h = Some (r, h')"
proof (cases c)
  case (Cmd_Pin i)
  then show ?thesis using assms
    by (auto simp: dispatch_call_def no_service_call handle_model1_call_def handle_pin_def handle_pinning_def ident_param
        pinning_spec_def failure_def split: resolve_outcome.splits prod.splits sum.splits)
next
  case (Cmd_Unpin i)
  then show ?thesis using assms
    by (auto simp: dispatch_call_def no_service_call handle_model1_call_def handle_unpin_def handle_pinning_def ident_param
        pinning_spec_def failure_def split: resolve_outcome.splits prod.splits sum.splits)
next
  case (Cmd_Prune n)
  then show ?thesis using assms
    by (auto simp: dispatch_call_def no_service_call handle_model1_call_def handle_prune_def u64_member Let_def
        split: prod.splits sum.splits if_splits)
qed (use assms in simp_all)

text \<open>The call of a command, and what it leaves.\<close>

lemma with_client_daemon:
  assumes "daemon_behind env sock senv ctx pieces" and "exchange_ok senv pieces meth params r"
    and "dispatch_call senv \<lparr>vc_method = meth, vc_parameters = params, vc_more = None\<rparr> ctx (ps_host s) = Some (r, h')"
  shows "with_client env sock (Some (meth, params)) run s =
      report (run (peer_at (bt_pull (ct_boot env)) (ps_host s))) (s\<lparr>ps_host := h'\<rparr>)"
    and "client_call (pe_json (bt_pull (ct_boot env))) (peer_at (bt_pull (ct_boot env)) (ps_host s)) sock meth params =
      (case vr_error r of Some e \<Rightarrow> Err (''Varlink error: '' @ e) | None \<Rightarrow> Ok (opt_or (vr_parameters r) J_null))"
proof -
  note D = assms(1) [unfolded daemon_behind_def]
  note C = client_call_server [OF assms(2,3)]
  show "with_client env sock (Some (meth, params)) run s =
      report (run (peer_at (bt_pull (ct_boot env)) (ps_host s))) (s\<lparr>ps_host := h'\<rparr>)"
    using D C(2) by (simp add: with_client_def Let_def)
  show "client_call (pe_json (bt_pull (ct_boot env))) (peer_at (bt_pull (ct_boot env)) (ps_host s)) sock meth params =
      (case vr_error r of Some e \<Rightarrow> Err (''Varlink error: '' @ e) | None \<Rightarrow> Ok (opt_or (vr_parameters r) J_null))"
    using D C(1) [of sock] by (simp add: client_call_def peer_at_def)
qed

section \<open>Properties\<close>

text \<open>
  C18. From the command to the store.  A \<^verbatim>\<open>modelctl pin\<close>, \<open>unpin\<close> or \<open>prune\<close> whose call and reply get through
  to the daemon does to the store exactly what the registries specify, and tells the user so: success
  is the line with the model or with the number of bytes the daemon's \<open>prune\<close> returned, and an unknown or
  invalid identifier is an error that leaves the store as it was.
\<close>

theorem command_reaches_store:
  assumes "daemon_behind env (cl_socket c) senv ctx pieces"
    and "command_spec ctx (cl_command c) (ps_host s) = Some (res, r, h')"
    and "exchange_ok senv pieces (fst (call_of (cl_command c))) (snd (call_of (cl_command c))) r"
  shows "run_command env c s = report res (s\<lparr>ps_host := h'\<rparr>)"
proof -
  note C = with_client_daemon [OF assms(1,3) command_spec_dispatch [OF assms(2)]]
  show ?thesis
  proof (cases "cl_command c")
    case (Cmd_Pin i)
    then show ?thesis using assms(2) C
      by (auto simp: run_command_def run_pin_def pinning_spec_def reply_ok_def reply_err_def operation_failed_def quoted_def Let_def
          split: resolve_outcome.splits prod.splits sum.splits)
  next
    case (Cmd_Unpin i)
    then show ?thesis using assms(2) C
      by (auto simp: run_command_def run_unpin_def pinning_spec_def reply_ok_def reply_err_def operation_failed_def quoted_def Let_def
          split: resolve_outcome.splits prod.splits sum.splits)
  next
    case (Cmd_Prune n)
    then show ?thesis using assms(2) C
      by (auto simp: run_command_def run_prune_def prune_call_def reply_ok_def reply_err_def operation_failed_def u64_member
          Let_def split: prod.splits sum.splits if_splits)
  qed (use assms(2) in simp_all)
qed

definition freed_reply :: varlink_reply where
  "freed_reply = reply_ok (json_object [(''reclaimed_bytes'', jnat 0)])"

definition prune_env :: server_env where
  "prune_env = \<lparr>se_json = \<lparr>jl_parse = (\<lambda>b. if b = ''i'' then Ok (reply_json freed_reply) else Err ''no''),
       jl_show = (\<lambda>v. if v = reply_json freed_reply then ''i'' else ''call'')\<rparr>,
     se_call = (\<lambda>b. if b = ''call'' then Ok \<lparr>vc_method = ''io.syntrop.Model1.Prune'',
         vc_parameters = Some (json_object [(''max_bytes'', jnat 5)]), vc_more = None\<rparr> else Err ''no''),
     se_stack = 8, se_write = (\<lambda>n. None)\<rparr>"

definition prune_ctl :: "bytes ctl_env" where
  "prune_ctl = \<lparr>ct_boot = offline_boot\<lparr>bt_pull := (bt_pull offline_boot)\<lparr>pe_json := se_json prune_env,
       pe_serve := (\<lambda>sock request h. (server_peer prune_env demo_context h (map (\<lambda>c. [c])) sock request,
         cn_host (snd (handle_varlink_client prune_env demo_context (map Readable (map (\<lambda>c. [c]) request)) (new_connection h)))))\<rparr>\<rparr>,
     ct_connect = (\<lambda>sock h. None), ct_pretty = (\<lambda>v. []), ct_chunks = (\<lambda>b. [b]), ct_generate = (\<lambda>sh. [])\<rparr>"

definition prune_cli :: cli where
  "prune_cli = \<lparr>cl_socket = ''/run/s'', cl_inference_socket = ''/run/i'', cl_storage_path = ''/m'', cl_json = False,
     cl_command = Cmd_Prune 5\<rparr>"

theorem command_reaches_store_witness:
  "run_command prune_ctl prune_cli idle_pull =
    (Some (Ok ()), says [''Storage reclamation complete. Reclaimed 0 bytes.''] idle_pull)"
proof -
  have other: "json_object [(''method'', J_str ''io.syntrop.Model1.Prune''),
      (''parameters'', json_object [(''max_bytes'', jnat 5)])] \<noteq> reply_json freed_reply" by code_simp
  have behind: "daemon_behind prune_ctl (cl_socket prune_cli) prune_env demo_context (map (\<lambda>c. [c]))"
    by (simp add: daemon_behind_def prune_ctl_def)
  have "prune_rows (ctx_cas demo_context) demo_host = Ok ([], 0)" by code_simp
  then have "prune (ctx_eviction demo_context) (ctx_cas demo_context) 5 demo_host = (Ok 0, demo_host)" by (simp add: prune_def)
  moreover have "show_nat 0 = ''0''" by code_simp
  ultimately have spec: "command_spec demo_context (cl_command prune_cli) (ps_host idle_pull) =
      Some (Ok [''Storage reclamation complete. Reclaimed 0 bytes.''], freed_reply, demo_host)"
    by (simp add: prune_cli_def idle_pull_def freed_reply_def)
  have "exchange_ok prune_env (map (\<lambda>c. [c])) ''io.syntrop.Model1.Prune'' (Some (json_object [(''max_bytes'', jnat 5)])) freed_reply"
    using other by (simp add: exchange_ok_def prune_env_def Let_def opt_or_def json_roundtrips_def READ_CHUNK_def MAX_MSG_BYTES_def
      MAX_REPLY_BYTES_def)
  then have "exchange_ok prune_env (map (\<lambda>c. [c])) (fst (call_of (cl_command prune_cli))) (snd (call_of (cl_command prune_cli))) freed_reply"
    by (simp add: prune_cli_def)
  from command_reaches_store [OF behind spec this] show ?thesis by (simp add: report_def idle_pull_def says_def)
qed

end
