(* ===== verification/Concurrent_Store.thy ===== *)
theory Concurrent_Store
  imports Pull_Safety
begin

text \<open>
  Stores that run at the same time.  \<open>store_blob\<close> (\<^verbatim>\<open>cas/store.rs\<close>) takes no lock: it relies on staging
  names that no other call uses and on a rename that is atomic.  Here one call is a sequence of steps of at
  most one system call each, and any number of calls, in any number of processes, interleave with each other,
  with the operations of the daemon and with a kernel that may refuse any call.
\<close>

section \<open>One call, one system call at a time\<close>

text \<open>
  Where a call of \<open>store_blob\<close> is: not started, with a name for its staging file, in the loop, with a
  digest that is not the expected one, probing the paths of the digest, with the target chosen, or
  returned.
\<close>

datatype 'h task =
    Fresh "read_event list" "string option"
  | Named path "read_event list" "string option"
  | Copying path nat "read_event list" "string option" 'h nat
  | Rejected path string string
  | Probing path string nat "path list"
  | Chosen path path string nat
  | Finished "(string * nat) res"

text \<open>The end of the loop: the digest, and the comparison with the expected one.\<close>

definition verdict :: "'h hasher \<Rightarrow> cas_store \<Rightarrow> path \<Rightarrow> string option \<Rightarrow> 'h \<Rightarrow> nat \<Rightarrow> 'h task" where
  "verdict H S p x s tot =
     (let d = hex_bytes (sha_finalize H s); probe = Probing p d tot [standard_path S d, flat_path S ''gguf'' d, flat_path S ''safetensors'' d]
      in case x of None \<Rightarrow> probe
         | Some e \<Rightarrow> if \<not> eq_ignore_ascii_case d (trim e) then Rejected p (trim e) d else probe)"

fun task_step :: "'h hasher \<Rightarrow> cas_store \<Rightarrow> 'h task \<Rightarrow> host \<Rightarrow> 'h task \<times> host" where
  "task_step H S (Fresh rs x) h = (Named (stage_path S h) rs x, snd (stage_nonce h))"
| "task_step H S (Named p rs x) h =
     (case create_file p h of
        (Inl e, h1) \<Rightarrow> (Finished (Err (Io e)), h1)
      | (Inr i, h1) \<Rightarrow> (Copying p i rs x (sha_new H) 0, h1))"
| "task_step H S (Copying p i [] x s tot) h = (verdict H S p x s tot, h)"
| "task_step H S (Copying p i (Read_Error e # rs) x s tot) h = (Finished (Err (Io e)), h)"
| "task_step H S (Copying p i (Chunk b # rs) x s tot) h =
     (if b = [] then (verdict H S p x s tot, h)
      else (case write_all p i b h of
              (Inl e, h1) \<Rightarrow> (Finished (Err (Io e)), h1)
            | (Inr u, h1) \<Rightarrow> (Copying p i rs x (sha_update H s b) (u64_add tot (length b)), h1)))"
| "task_step H S (Rejected p e d) h = (Finished (Err (DigestMismatch e d)), snd (remove_file p h))"
| "task_step H S (Probing p d n []) h = (Chosen p (standard_path S d) d n, h)"
| "task_step H S (Probing p d n (c # cs)) h = (if is_file h c then Chosen p c d n else Probing p d n cs, h)"
| "task_step H S (Chosen p t d n) h =
     (case rename p t h of
        (Inl e, h1) \<Rightarrow> (Finished (Err (Io e)), h1)
      | (Inr u, h1) \<Rightarrow> (Finished (Ok (d, n)), h1))"
| "task_step H S (Finished r) h = (Finished r, h)"

fun task_iter :: "'h hasher \<Rightarrow> cas_store \<Rightarrow> nat \<Rightarrow> 'h task \<Rightarrow> host \<Rightarrow> 'h task \<times> host" where
  "task_iter H S 0 t h = (t, h)"
| "task_iter H S (Suc n) t h = (case task_step H S t h of (t', h') \<Rightarrow> task_iter H S n t' h')"

text \<open>How many steps a call has left at most.\<close>

fun task_left :: "'h task \<Rightarrow> nat" where
  "task_left (Fresh rs x) = length rs + 8"
| "task_left (Named p rs x) = length rs + 7"
| "task_left (Copying p i rs x s tot) = length rs + 6"
| "task_left (Rejected p e d) = 1"
| "task_left (Probing p d n cs) = length cs + 2"
| "task_left (Chosen p t d n) = 1"
| "task_left (Finished r) = 0"

lemma verdict_left: "task_left (verdict H S p x s tot) \<le> 5"
  by (simp add: verdict_def Let_def split: option.splits)

lemma task_step_left: "task_left (fst (task_step H S t h)) \<le> task_left t - 1"
proof (cases "(H, S, t, h)" rule: task_step.cases)
  case (3 H S p i x s tot h)
  then show ?thesis using verdict_left [of H S p x s tot] by simp
next
  case (5 H S p i b rs x s tot h)
  then show ?thesis using verdict_left [of H S p x s tot] by (auto split: prod.splits sum.splits)
qed (auto split: prod.splits sum.splits)

lemma task_left_0: "task_left t = 0 \<longleftrightarrow> (\<exists>r. t = Finished r)"
  by (cases t) auto

text \<open>Without interference the steps are the call.\<close>

lemma task_iter_finished [simp]: "task_iter H S n (Finished r) h = (Finished r, h)"
  by (induction n) simp_all

lemma task_iter_Suc: "0 < n \<Longrightarrow> task_iter H S n t h = (case task_step H S t h of (t', h') \<Rightarrow> task_iter H S (n - 1) t' h')"
  by (cases n) simp_all

lemma task_iter_commit:
  assumes "5 \<le> n"
  shows "task_iter H S n (Probing p d tot [standard_path S d, flat_path S ''gguf'' d, flat_path S ''safetensors'' d]) h =
    (case commit_stage S p d tot h of (r, h') \<Rightarrow> (Finished r, h'))"
proof -
  obtain m where "n = Suc (Suc (Suc (Suc (Suc m))))" using le_Suc_ex [OF assms] by (auto simp: eval_nat_numeral)
  then show ?thesis
    by (simp add: commit_stage_def blob_path_def Let_def split: prod.splits sum.splits)
qed

lemma task_iter_verdict:
  assumes "5 \<le> n"
  shows "task_iter H S n (verdict H S p x s tot) h =
    (let d = hex_bytes (sha_finalize H s) in
     case (case x of
            Some e \<Rightarrow> if \<not> eq_ignore_ascii_case d (trim e) then (Err (DigestMismatch (trim e) d), snd (remove_file p h))
                      else commit_stage S p d tot h
          | None \<Rightarrow> commit_stage S p d tot h) of (r, h') \<Rightarrow> (Finished r, h'))"
  using task_iter_commit [OF assms, of H S p "hex_bytes (sha_finalize H s)" tot h] assms
  by (simp add: verdict_def Let_def task_iter_Suc split: option.splits)

lemma task_iter_loop:
  "length rs + 6 \<le> n \<Longrightarrow> task_iter H S n (Copying p i rs x s tot) h =
     (case stage_loop H p i rs s tot h of
        (Inl e, h2) \<Rightarrow> (Finished (Err e), h2)
      | (Inr (s', tot'), h2) \<Rightarrow> task_iter H S (n - Suc (length (stream_chunks rs))) (verdict H S p x s' tot') h2)"
proof (induction H p i rs s tot h arbitrary: n rule: stage_loop.induct)
  case (3 H p i b rs s tot h)
  show ?case
  proof (cases "b = []")
    case True
    with "3.prems" show ?thesis by (simp add: task_iter_Suc)
  next
    case False
    obtain u h1 where w: "write_all p i b h = (u, h1)" by fastforce
    from "3.prems" have n: "0 < n" "length rs + 6 \<le> n - 1" by simp_all
    show ?thesis
    proof (cases u)
      case (Inr v)
      have "n - Suc (length (stream_chunks (Chunk b # rs))) = n - 1 - Suc (length (stream_chunks rs))" using False by simp
      with "3.IH" [OF False w [symmetric] Inr n(2)] show ?thesis
        using False w Inr by (simp only: task_iter_Suc [OF n(1)]) simp
    qed (simp add: task_iter_Suc [OF n(1)] False w)
  qed
qed (simp_all add: task_iter_Suc)

lemma stream_chunks_length: "length (stream_chunks rs) \<le> length rs"
  by (induction rs rule: stream_chunks.induct) auto

text \<open>
  C6. Refinement.  Run alone, the steps of a call do what \<open>store_blob\<close> does: after one step per read and
  eight more, it has returned the result of \<open>store_blob\<close> and left the same file system.
\<close>

theorem steps_refine_store_blob:
  "task_iter H S (length rs + 8 + k) (Fresh rs x) h = (case store_blob H S rs x h of (r, h') \<Rightarrow> (Finished r, h'))"
proof -
  obtain m where m: "length rs + 8 + k = Suc (Suc m)" "length rs + 6 \<le> m" by (simp add: eval_nat_numeral)
  then have v: "5 \<le> m - Suc (length (stream_chunks rs))" using stream_chunks_length [of rs] by simp
  show ?thesis
    unfolding m(1)
    by (simp add: task_iter_loop [OF m(2)] task_iter_verdict [OF v] store_blob_def Let_def
        split: prod.splits sum.splits option.splits)
qed

section \<open>The names of staging files\<close>

text \<open>A process of a system: its number, and its counter of staging files, on the common file system.\<close>

definition process :: "nat \<Rightarrow> nat \<Rightarrow> host \<Rightarrow> host" where
  "process p n h = h\<lparr>pid := p, stage_counter := n\<rparr>"

lemma process_simps [simp]:
  "lookup (process p n h) q = lookup h q" "inode (process p n h) j = inode h j" "fault (process p n h) = fault h"
  "pid (process p n h) = p" "stage_counter (process p n h) = n" "now (process p n h) = now h"
  by (simp_all add: process_def lookup_def inode_def)

lemma process_store_inv [simp]: "store_inv H root h \<Longrightarrow> store_inv H root (process p n h)"
  by (simp add: process_def store_inv_process(1))

definition own_path :: "path \<Rightarrow> nat \<Rightarrow> nat \<Rightarrow> path" where
  "own_path root p n = root @ [''cas'', ''incoming'', ''stage-'' @ show_hex p @ ''-'' @ show_hex n]"

lemma stage_path_own: "stage_path \<lparr>root_dir = root\<rparr> h = own_path root (pid h) (stage_counter h)"
  by (simp add: stage_path_eq stage_nonce_def own_path_def)

lemma own_path_path_ok: "path_ok root \<Longrightarrow> path_ok (own_path root p n)"
  using path_ok_stage [of "\<lparr>root_dir = root\<rparr>" "process p n undefined"] by (simp add: stage_path_own)

lemma hex_char_inj: "a < 16 \<Longrightarrow> b < 16 \<Longrightarrow> hex_char a = hex_char b \<Longrightarrow> a = b"
proof -
  assume ab: "a < 16" "b < 16" and eq: "hex_char a = hex_char b"
  have v: "x < 16 \<Longrightarrow> byte_val (hex_char x) = (if x < 10 then 48 + x else 87 + x)" for x
    by (simp add: hex_char_def byte_val_char_of)
  from eq have "byte_val (hex_char a) = byte_val (hex_char b)" by simp
  with ab show "a = b" by (simp add: v split: if_splits)
qed

lemma show_hex_inj: "show_hex a = show_hex b \<Longrightarrow> a = b"
proof (induction a arbitrary: b rule: show_hex.induct)
  case (1 a)
  have ne: "show_hex n \<noteq> []" for n by (subst show_hex.simps) simp
  have eq: "(if a < 16 then [hex_char a] else show_hex (a div 16) @ [hex_char (a mod 16)]) =
      (if b < 16 then [hex_char b] else show_hex (b div 16) @ [hex_char (b mod 16)])"
    using "1.prems" by (simp only: show_hex.simps [symmetric])
  show ?case
  proof (cases "a < 16")
    case True
    with eq ne [of "b div 16"] have "b < 16" "hex_char a = hex_char b" by (simp_all split: if_split_asm)
    with True hex_char_inj show ?thesis by blast
  next
    case False
    with eq ne [of "a div 16"] have b: "\<not> b < 16" and e: "show_hex (a div 16) = show_hex (b div 16)"
      and m: "hex_char (a mod 16) = hex_char (b mod 16)" by (simp_all split: if_split_asm)
    have "a div 16 = b div 16" using "1.IH" [OF False e] .
    moreover have "a mod 16 = b mod 16" by (rule hex_char_inj [OF _ _ m]) simp_all
    ultimately show ?thesis by (metis div_mult_mod_eq)
  qed
qed

text \<open>Two processes, or two calls of one process, never use one name.\<close>

lemma own_path_inj: "own_path root p n = own_path root p' n' \<longleftrightarrow> p = p' \<and> n = n'"
proof -
  have nd: "CHR ''-'' \<notin> set (show_hex k)" for k using show_hex_chars [of "CHR ''-''" k] by (auto simp: char_class_defs byte_val_def)
  have inj: "show_hex a = show_hex b \<longleftrightarrow> a = b" for a b using show_hex_inj by blast
  have "own_path root p n = own_path root p' n' \<longleftrightarrow> show_hex p @ ''-'' @ show_hex n = show_hex p' @ ''-'' @ show_hex n'"
    by (simp add: own_path_def)
  also have "\<dots> \<longleftrightarrow> show_hex p = show_hex p' \<and> show_hex n = show_hex n'"
    using append_Cons_eq_iff [OF nd nd] by simp
  finally show ?thesis by (simp only: inj)
qed

section \<open>What a step leaves alone\<close>

definition incoming_file :: "path \<Rightarrow> path \<Rightarrow> bool" where
  "incoming_file root q = (\<exists>x. q = root @ [''cas'', ''incoming'', x])"

lemma own_path_incoming [simp]: "incoming_file root (own_path root p n)"
  by (simp add: incoming_file_def own_path_def)

lemma incoming_not_registry: "incoming_file root q \<Longrightarrow> \<not> registry_path root q"
  by (auto simp: incoming_file_def registry_path_def)

lemma incoming_not_blob: "incoming_file root q \<Longrightarrow> is_digest_format d \<Longrightarrow> q \<notin> blob_paths \<lparr>root_dir = root\<rparr> d"
  by (auto simp: incoming_file_def blob_paths_eq)

text \<open>
  \<open>undisturbed root Q h h'\<close>: outside \<open>Q\<close> the incoming directory has the entries it had, and every file of
  it that has no other name still has none and holds the bytes it held.
\<close>

definition undisturbed :: "path \<Rightarrow> path set \<Rightarrow> host \<Rightarrow> host \<Rightarrow> bool" where
  "undisturbed root Q h h' = (\<forall>q. incoming_file root q \<longrightarrow> q \<notin> Q \<longrightarrow> lookup h' q = lookup h q \<and>
     (\<forall>i. private_file root q i h \<longrightarrow> private_file root q i h' \<and> content (inode h' i) = content (inode h i)))"

lemma undisturbed_refl [simp]: "undisturbed root Q h h"
  by (simp add: undisturbed_def)

lemma undisturbed_trans: "undisturbed root Q h h1 \<Longrightarrow> undisturbed root Q h1 h2 \<Longrightarrow> undisturbed root Q h h2"
  by (auto simp: undisturbed_def)

lemma undisturbed_mono: "undisturbed root Q h h' \<Longrightarrow> Q \<subseteq> Q' \<Longrightarrow> undisturbed root Q' h h'"
  by (auto simp: undisturbed_def)

lemma undisturbedI:
  assumes "\<And>q. incoming_file root q \<Longrightarrow> q \<notin> Q \<Longrightarrow> lookup h' q = lookup h q"
    and "\<And>q i p. incoming_file root q \<Longrightarrow> q \<notin> Q \<Longrightarrow> private_file root q i h \<Longrightarrow> lookup h' p = Some (File i) \<Longrightarrow>
      lookup h p = Some (File i)"
    and "\<And>q i. incoming_file root q \<Longrightarrow> q \<notin> Q \<Longrightarrow> private_file root q i h \<Longrightarrow> content (inode h' i) = content (inode h i)"
  shows "undisturbed root Q h h'"
  unfolding undisturbed_def
proof (intro allI impI conjI)
  fix q i assume q: "incoming_file root q" "q \<notin> Q" and pf: "private_file root q i h"
  show "private_file root q i h'"
    using assms(1) [OF q] assms(2) [OF q pf] pf unfolding private_file_def by auto
  show "content (inode h' i) = content (inode h i)" using assms(3) [OF q pf] .
qed (rule assms(1))

text \<open>The steps of the file system.\<close>

lemma undisturbed_lookup:
  assumes "same_files h h'" and "\<And>q. lookup h' q = lookup h q \<or> lookup h' q = None \<or> lookup h' q = Some Dir"
    and "\<And>q. incoming_file root q \<Longrightarrow> q \<notin> Q \<Longrightarrow> lookup h' q = lookup h q"
  shows "undisturbed root Q h h'"
proof (rule undisturbedI)
  show "lookup h p = Some (File i)" if "lookup h' p = Some (File i)" for p i using assms(2) [of p] that by auto
  show "content (inode h' i) = content (inode h i)" for i by (simp add: same_files_inode [OF assms(1)])
qed (rule assms(3))

lemma undisturbed_create:
  assumes inv: "store_inv H root h" and c: "create_file q h = (r, h')" and q: "lookup h q = None \<or> registry_path root q"
  shows "undisturbed root {q} h h'"
proof (cases r)
  case (Inl e)
  then show ?thesis using create_file_Err [of q h e h'] c by simp
next
  case (Inr i)
  have pl: "plain h q" using q store_invD(2) [OF inv registry_area] by (auto simp: plain_def)
  note C = create_file_Ok [OF c [unfolded Inr] pl] and L = create_file_lookup [OF c [unfolded Inr] pl]
  have other: "i \<noteq> k" if pf: "private_file root q' k h" "q' \<noteq> q" for q' k
  proof
    assume "i = k"
    then have "lookup h q = Some (File k)" using C private_fileD(1) [OF pf(1)] staged_fresh [OF store_invD(1) [OF inv], of q' k] by auto
    with private_fileD(2) [OF pf(1)] pf(2) show False by auto
  qed
  show ?thesis
  proof (rule undisturbedI)
    fix q' k p assume "q' \<notin> {q}" and pf: "private_file root q' k h" and l: "lookup h' p = Some (File k)"
    then show "lookup h p = Some (File k)" using other [OF pf] L(1) L(2) [of p] by (cases "p = q") auto
  next
    fix q' k assume "q' \<notin> {q}" and pf: "private_file root q' k h"
    then show "content (inode h' k) = content (inode h k)" using other [OF pf] L(4) [of k] by auto
  qed (use L(2) in simp)
qed

lemma undisturbed_write:
  assumes w: "write_all q i bs h = (r, h')" and q: "lookup h q = Some (File i)"
  shows "undisturbed root {q} h h'"
proof (cases r)
  case (Inl e)
  then show ?thesis using write_all_Err [of q i bs h e h'] w by simp
next
  case (Inr u)
  have h': "h' = put_inode i \<lparr>content = content (inode h i) @ bs, mtime = now h\<rparr> h"
    using write_all_Ok [of q i bs h u h'] w Inr by simp
  show ?thesis
  proof (rule undisturbedI)
    fix q' k assume "q' \<notin> {q}" and pf: "private_file root q' k h"
    then have "k \<noteq> i" using private_fileD(2) [OF pf, of q] q by auto
    then show "content (inode h' k) = content (inode h k)" by (simp add: h' fs_simps)
  qed (simp_all add: h' fs_simps)
qed

lemma undisturbed_unlink: "remove_file q h = (r, h') \<Longrightarrow> undisturbed root {q} h h'"
  by (rule undisturbed_lookup [OF remove_file_same_files]) (auto simp: remove_file_lookup)

lemma undisturbed_rename:
  assumes r: "rename q t h = (r, h')" and q: "lookup h q = Some (File i)" "lookup h t \<noteq> Some (File i)" and t: "\<not> incoming_file root t"
  shows "undisturbed root {q} h h'"
proof (cases r)
  case (Inl e)
  then show ?thesis using rename_Err [of q t h e h'] r by simp
next
  case (Inr u)
  have h': "h' = put_ent t (File i) (del_ent q h)" and n: "t \<noteq> []" "q \<noteq> []" using rename_Ok [OF r [unfolded Inr]] q by auto
  have look: "lookup h' p = (if p = t then Some (File i) else if p = q then None else lookup h p)" for p
    by (simp add: h' fs_simps n)
  show ?thesis
  proof (rule undisturbedI)
    show "lookup h' q' = lookup h q'" if "incoming_file root q'" "q' \<notin> {q}" for q' using that t by (auto simp: look)
  next
    fix q' k p assume "q' \<notin> {q}" and pf: "private_file root q' k h" and l: "lookup h' p = Some (File k)"
    then have "k \<noteq> i" using private_fileD(2) [OF pf, of q] q by auto
    then show "lookup h p = Some (File k)" using l by (auto simp: look split: if_splits)
  qed (simp add: h' fs_simps)
qed

text \<open>The operations of the daemon: none of them reaches into the incoming directory.\<close>

lemma undisturbed_registry: "undisturbed root {q} h h' \<Longrightarrow> registry_path root q \<Longrightarrow> undisturbed root {} h h'"
  using incoming_not_registry unfolding undisturbed_def by blast

lemma undisturbed_dirs:
  assumes "adds_dirs p h h'" and "\<And>q. incoming_file root q \<Longrightarrow> \<not> prefix q p"
  shows "undisturbed root Q h h'"
proof (rule undisturbed_lookup)
  show "same_files h h'" "lookup h' q = lookup h q \<or> lookup h' q = None \<or> lookup h' q = Some Dir" for q
    using assms(1) unfolding adds_dirs_def by auto
qed (rule adds_dirs_not_prefix [OF assms(1) assms(2)])

lemma set_tag_undisturbed:
  assumes inv: "store_inv H root h" and ctx: "over_root ctx root" and n: "tag_segment n" and t: "tag_segment t"
    and d: "is_digest_format d" and s: "set_tag (ctx_tags ctx) n t d h = (r, h')"
  shows "undisturbed root {} h h'"
proof -
  note P = over_root_paths [OF ctx n t d]
  let ?q = "root @ [''tags'', n, t]"
  obtain r1 h1 where c: "create_dir_all (root @ [''tags'', n]) h = (r1, h1)" by fastforce
  note D = create_dir_all_adds_dirs [OF c]
  have inv1: "store_inv H root h1"
    using store_inv_dirs [OF inv D] create_dir_all_fs_ok [OF c store_invD(1) [OF inv] P(4)] by blast
  have u1: "undisturbed root {} h h1" by (rule undisturbed_dirs [OF D]) (auto simp: incoming_file_def)
  obtain r2 h2 where c2: "create_file ?q h1 = (r2, h2)" by fastforce
  note reg = registry_paths(1) [of root "[n, t]"]
  have u2: "undisturbed root {} h1 h2" using undisturbed_registry [OF undisturbed_create [OF inv1 c2 disjI2 [OF reg]] reg] .
  have "h' = h1 \<or> h' = h2 \<or> (\<exists>i r3. r2 = Ok i \<and> write_all ?q i d h2 = (r3, h'))"
    using s c c2 n t d digest_format_trim [OF d]
    by (auto simp: set_tag_def validate_tag_segment_Ok [THEN iffD2] validate_digest_format_def P(1,2) Let_def
        split: sum.splits prod.splits)
  then have "undisturbed root {} h1 h'"
  proof (elim disjE exE conjE)
    fix i r3 assume ok: "r2 = Ok i" and w: "write_all ?q i d h2 = (r3, h')"
    have "lookup h2 ?q = Some (File i)" using store_inv_create [OF inv1 reg P(5) c2] ok by blast
    from undisturbed_registry [OF undisturbed_write [OF w this] reg] show ?thesis by (rule undisturbed_trans [OF u2])
  qed (simp_all add: u2)
  with u1 show ?thesis by (rule undisturbed_trans)
qed

lemma pin_undisturbed:
  assumes inv: "store_inv H root h" and ctx: "over_root ctx root" and s: "pin (ctx_eviction ctx) d h = (r, h')"
  shows "undisturbed root {} h h'"
proof (cases "is_digest_format (trim d)")
  case True
  have x: "tag_segment ''x''" by code_simp
  note P = over_root_paths(3) [OF ctx x x True] and reg = registry_paths(2) [of root "[trim d]"]
  obtain r2 h2 where c: "create_file (root @ [''pinned'', trim d]) h = (r2, h2)" by fastforce
  have "h' = h2" using s c True P by (auto simp: pin_def validate_digest_format_def split: sum.splits)
  then show ?thesis using undisturbed_registry [OF undisturbed_create [OF inv c disjI2 [OF reg]] reg] by simp
next
  case False
  then show ?thesis using s by (auto simp: pin_def validate_digest_format_def)
qed

lemma unpin_undisturbed:
  assumes inv: "store_inv H root h" and ctx: "over_root ctx root" and s: "unpin (ctx_eviction ctx) d h = (r, h')"
  shows "undisturbed root {} h h'"
proof (cases "is_digest_format (trim d) \<and> is_file h (join (pinned_dir (ctx_eviction ctx)) (trim d))")
  case True
  then have d: "is_digest_format (trim d)" by blast
  have x: "tag_segment ''x''" by code_simp
  note P = over_root_paths(3) [OF ctx x x d]
  obtain r2 h2 where c: "remove_file (root @ [''pinned'', trim d]) h = (r2, h2)" by fastforce
  have "h' = h2" using s c True P by (auto simp: unpin_def validate_digest_format_def Let_def split: sum.splits)
  then show ?thesis using undisturbed_registry [OF undisturbed_unlink [OF c]] registry_paths(2) by blast
next
  case False
  then show ?thesis using s by (auto simp: unpin_def validate_digest_format_def Let_def split: if_splits)
qed

lemma prune_undisturbed:
  assumes inv: "store_inv H root h" and ctx: "over_root ctx root" and s: "prune (ctx_eviction ctx) (ctx_cas ctx) mx h = (r, h')"
  shows "undisturbed root {} h h'"
proof -
  have pp: "pins_plain (ctx_eviction ctx) (ctx_cas ctx) h"
    using ctx store_invD(2) [OF inv] by (simp add: pins_plain_def over_root_def store_area_def registry_path_def)
  have S: "ctx_cas ctx = \<lparr>root_dir = root\<rparr>" using ctx by (simp add: over_root_def)
  have sf: "same_files h h'" and E: "\<And>q. lookup h' q = lookup h q \<or> lookup h' q = None \<and>
      (\<exists>x. no_slash x \<and> q \<in> prune_targets (ctx_cas ctx) x \<and> \<not> is_pinned (ctx_eviction ctx) h x)"
    using prune_effect [OF s store_invD(1) [OF inv] pp] by blast+
  have far: "\<not> incoming_file root q" if x: "no_slash x" and q: "q \<in> prune_targets (ctx_cas ctx) x" for q x
  proof -
    have "is_segment (''sha256-'' @ x @ ''.gguf'')" using x by (simp add: is_segment_def no_slash_def)
    then have "join (cas_dir (ctx_cas ctx)) (''sha256-'' @ x @ ''.gguf'') = root @ [''cas'', ''sha256-'' @ x @ ''.gguf'']"
      by (simp add: join_segment cas_dir_eq S)
    moreover have "join (blobs_dir (ctx_cas ctx)) x \<in>
        {root @ [''cas'', ''blobs''], root @ [''cas'', ''blobs'', ''sha256''], root @ [''cas'', ''blobs'', ''sha256'', x]}"
      using join_no_slash [of x "blobs_dir (ctx_cas ctx)"] x by (simp add: no_slash_def blobs_dir_eq S butlast_append)
    ultimately show ?thesis using q unfolding prune_targets_def incoming_file_def by auto
  qed
  show ?thesis
  proof (rule undisturbed_lookup [OF sf])
    show "lookup h' q = lookup h q \<or> lookup h' q = None \<or> lookup h' q = Some Dir" for q using E [of q] by blast
    show "lookup h' q = lookup h q" if "incoming_file root q" for q using E [of q] far that by blast
  qed
qed

lemma service_undisturbed:
  assumes inv: "store_inv H root h" and ctx: "over_root ctx root" and e: "service_effect ctx h h'"
  shows "undisturbed root {} h h'"
  using e unfolding service_effect_def
proof (elim disjE exE conjE)
  fix n t d assume k: "tag_segment n" "tag_segment t" "is_digest_format d" and "h' = snd (set_tag (ctx_tags ctx) n t d h)"
  then show ?thesis using set_tag_undisturbed [OF inv ctx k surjective_pairing] by simp
next
  fix d assume "h' = snd (pin (ctx_eviction ctx) d h)"
  then show ?thesis using pin_undisturbed [OF inv ctx surjective_pairing] by simp
next
  fix d assume "h' = snd (unpin (ctx_eviction ctx) d h)"
  then show ?thesis using unpin_undisturbed [OF inv ctx surjective_pairing] by simp
next
  fix mx :: nat assume "h' = snd (prune (ctx_eviction ctx) (ctx_cas ctx) mx h)"
  then show ?thesis using prune_undisturbed [OF inv ctx surjective_pairing] by simp
qed simp

section \<open>A call in flight\<close>

text \<open>What a call that has read to the end of its stream, or returned, promises.\<close>

definition outcome_ok :: "'h hasher \<Rightarrow> read_event list \<Rightarrow> string option \<Rightarrow> string \<Rightarrow> nat \<Rightarrow> bool" where
  "outcome_ok H rs x d n = (d = hex_digest H (stream_bytes rs) \<and> n = length (stream_bytes rs) mod 2 ^ 64 \<and>
     stream_error rs = None \<and> accepts x d)"

definition staged_all :: "path \<Rightarrow> path \<Rightarrow> read_event list \<Rightarrow> host \<Rightarrow> bool" where
  "staged_all root q rs h = (\<exists>i. private_file root q i h \<and> content (inode h i) = stream_bytes rs)"

text \<open>
  The state of a call that was given \<open>rs\<close> and \<open>x\<close>: its staging file is private and holds what was read,
  and its hash state is the one of these bytes.
\<close>

fun task_ok :: "'h hasher \<Rightarrow> path \<Rightarrow> read_event list \<Rightarrow> string option \<Rightarrow> 'h task \<Rightarrow> host \<Rightarrow> bool" where
  "task_ok H root rs x (Fresh rs' x') h = (rs' = rs \<and> x' = x)"
| "task_ok H root rs x (Named q rs' x') h = (rs' = rs \<and> x' = x \<and> lookup h q = None)"
| "task_ok H root rs x (Copying q i rest x' s tot) h =
     (x' = x \<and> private_file root q i h \<and> content (inode h i) @ stream_bytes rest = stream_bytes rs \<and>
      foldl (sha_update H) s (stream_chunks rest) = foldl (sha_update H) (sha_new H) (stream_chunks rs) \<and>
      stream_error rest = stream_error rs \<and> tot = length (content (inode h i)) mod 2 ^ 64)"
| "task_ok H root rs x (Rejected q e d) h = True"
| "task_ok H root rs x (Probing q d n cs) h = (outcome_ok H rs x d n \<and> staged_all root q rs h \<and> set cs \<subseteq> blob_paths \<lparr>root_dir = root\<rparr> d)"
| "task_ok H root rs x (Chosen q t d n) h = (outcome_ok H rs x d n \<and> staged_all root q rs h \<and> t \<in> blob_paths \<lparr>root_dir = root\<rparr> d)"
| "task_ok H root rs x (Finished r) h = (\<forall>d n. r = Ok (d, n) \<longrightarrow> outcome_ok H rs x d n)"

fun live_path :: "'h task \<Rightarrow> path option" where
  "live_path (Named q rs x) = Some q"
| "live_path (Copying q i rs x s tot) = Some q"
| "live_path (Rejected q e d) = Some q"
| "live_path (Probing q d n cs) = Some q"
| "live_path (Chosen q t d n) = Some q"
| "live_path t = None"

lemma private_process [simp]: "private_file root q i (process p n h) = private_file root q i h"
  by (simp add: private_file_def)

lemma task_ok_process [simp]: "task_ok H root rs x t (process p n h) = task_ok H root rs x t h"
  by (cases t) (simp_all add: staged_all_def)

text \<open>Steps of others leave a call as it is.\<close>

lemma task_ok_undisturbed:
  assumes "task_ok H root rs x t h" and "undisturbed root Q h h'"
    and "\<And>q. live_path t = Some q \<Longrightarrow> incoming_file root q \<and> q \<notin> Q"
  shows "task_ok H root rs x t h'"
proof (cases "live_path t")
  case None
  with assms(1) show ?thesis by (cases t) auto
next
  case (Some q)
  then have "lookup h' q = lookup h q"
    "\<And>i. private_file root q i h \<Longrightarrow> private_file root q i h' \<and> content (inode h' i) = content (inode h i)"
    using assms(2) assms(3) [OF Some] unfolding undisturbed_def by blast+
  with assms(1) Some show ?thesis by (cases t) (fastforce simp: staged_all_def)+
qed

text \<open>The end of the loop.\<close>

lemma verdict_ok:
  assumes H: "sha256_contract H" and pf: "private_file root q i h" and bs: "content (inode h i) = stream_bytes rs"
    and s: "s = foldl (sha_update H) (sha_new H) (stream_chunks rs)" and e: "stream_error rs = None"
    and tot: "tot = length (stream_bytes rs) mod 2 ^ 64"
  shows "task_ok H root rs x (verdict H \<lparr>root_dir = root\<rparr> q x s tot) h"
proof -
  have d: "hex_bytes (sha_finalize H s) = hex_digest H (stream_bytes rs)" using s finalize_stream [OF H] by simp
  have "staged_all root q rs h" using pf bs unfolding staged_all_def by blast
  then show ?thesis
    using e tot by (auto simp: verdict_def Let_def d outcome_ok_def accepts_def blob_paths_def split: option.splits)
qed

lemma verdict_live [simp]: "live_path (verdict H S q x s tot) = Some q"
  by (simp add: verdict_def Let_def split: option.splits)

text \<open>Its own steps keep the invariant of the store, disturb no other call, and keep the call in order.\<close>

lemma task_step_keeps:
  assumes H: "sha256_contract H" and root: "path_ok root" and inv: "store_inv H root h" and ok: "task_ok H root rs x t h"
    and live: "live_path t = Some q" "incoming_file root q" "path_ok q"
    and step: "task_step H \<lparr>root_dir = root\<rparr> t h = (t', h')"
  shows "store_inv H root h' \<and> undisturbed root {q} h h' \<and> task_ok H root rs x t' h' \<and> live_path t' \<in> {None, Some q}"
  using assms(4-)
proof (cases t)
  case (Named q' rs' x')
  then have q: "q' = q" "rs' = rs" "x' = x" "lookup h q = None" using ok live by simp_all
  obtain r h1 where c: "create_file q h = (r, h1)" by fastforce
  note N = store_inv_new_file [OF inv c live(3) q(4) incoming_not_registry [OF live(2)] incoming_not_blob [OF live(2)]]
  have "undisturbed root {q} h h1" using undisturbed_create [OF inv c] q(4) by blast
  with N step Named c q show ?thesis by (cases r) auto
next
  case (Copying q' i rest x' s tot)
  then have q: "q' = q" "x' = x" "private_file root q i h" and tot: "tot = length (content (inode h i)) mod 2 ^ 64"
    and bs: "content (inode h i) @ stream_bytes rest = stream_bytes rs" and e: "stream_error rest = stream_error rs"
    and s: "foldl (sha_update H) s (stream_chunks rest) = foldl (sha_update H) (sha_new H) (stream_chunks rs)"
    using ok live by simp_all
  have eof: ?thesis if "stream_chunks rest = []" "stream_bytes rest = []" "stream_error rest = None"
      "t' = verdict H \<lparr>root_dir = root\<rparr> q x s tot" "h' = h"
    using verdict_ok [OF H q(3), of rs s tot x] that bs s e tot inv by simp
  show ?thesis
  proof (cases rest)
    case Nil
    with step Copying q eof show ?thesis by simp
  next
    case (Cons ev more)
    show ?thesis
    proof (cases ev)
      case (Read_Error er)
      with Cons step Copying inv show ?thesis by auto
    next
      case (Chunk b)
      show ?thesis
      proof (cases "b = []")
        case True
        with Cons Chunk step Copying q eof show ?thesis by simp
      next
        case False
        obtain r h1 where w: "write_all q i b h = (r, h1)" by fastforce
        note W = store_inv_fill [OF inv q(3) w]
        have u: "undisturbed root {q} h h1" using undisturbed_write [OF w private_fileD(1) [OF q(3)]] .
        show ?thesis
        proof (cases r)
          case (Inl er)
          then show ?thesis using step Copying q Cons Chunk False w W u by auto
        next
          case (Inr v)
          have "u64_add tot (length b) = length (content (inode h i) @ b) mod 2 ^ 64"
            by (simp add: u64_add_def tot mod_add_left_eq)
          then show ?thesis
            using step Copying q Cons Chunk False w W u Inr bs e s by (auto simp: is_ok_def)
        qed
      qed
    qed
  qed
next
  case (Rejected q' e d)
  then have q: "q' = q" using live by simp
  obtain r h1 where r: "remove_file q h = (r, h1)" by fastforce
  then show ?thesis using step Rejected q store_inv_unlink [OF inv r] undisturbed_unlink [OF r] by auto
next
  case (Probing q' d n cs)
  then show ?thesis
    using step ok live inv by (cases cs) (auto simp: blob_paths_def split: if_splits)
next
  case (Chosen q' b d n)
  then have q: "q' = q" and o: "outcome_ok H rs x d n" and b: "b \<in> blob_paths \<lparr>root_dir = root\<rparr> d"
    using ok live by simp_all
  obtain i where pf: "private_file root q i h" and bs: "content (inode h i) = stream_bytes rs"
    using ok unfolding Chosen q task_ok.simps staged_all_def by blast
  have d: "is_digest_format d" "hex_digest H (content (inode h i)) = d"
    using o hex_digest_format [OF H] by (simp_all add: outcome_ok_def bs)
  obtain r h1 where r: "rename q b h = (r, h1)" by fastforce
  note P = store_inv_place [OF inv pf d(1) b root d(2) r]
  have nb: "\<not> incoming_file root b" using incoming_not_blob d(1) b by blast
  have "lookup h b \<noteq> Some (File i)" using private_fileD(2) [OF pf, of b] nb live(2) by auto
  then have "undisturbed root {q} h h1" using undisturbed_rename [OF r private_fileD(1) [OF pf] _ nb] by blast
  then show ?thesis using step Chosen q r P o by (cases r) auto
qed simp_all

text \<open>The step that returns a digest has put the bytes of the stream under it.\<close>

lemma task_step_stored:
  assumes H: "sha256_contract H" and root: "path_ok root" and inv: "store_inv H root h" and ok: "task_ok H root rs x t h"
    and live: "\<And>q. live_path t = Some q \<Longrightarrow> incoming_file root q"
    and step: "task_step H \<lparr>root_dir = root\<rparr> t h = (Finished (Ok (d, n)), h')" and unfinished: "0 < task_left t"
  shows "\<exists>p \<in> blob_paths \<lparr>root_dir = root\<rparr> d. contents h' p = Some (stream_bytes rs)"
proof (cases t)
  case (Chosen q b d' n')
  then have o: "outcome_ok H rs x d' n'" and b: "b \<in> blob_paths \<lparr>root_dir = root\<rparr> d'" using ok by simp_all
  obtain i where pf: "private_file root q i h" and bs: "content (inode h i) = stream_bytes rs"
    using ok unfolding Chosen task_ok.simps staged_all_def by blast
  have dd: "is_digest_format d'" "hex_digest H (content (inode h i)) = d'"
    using o hex_digest_format [OF H] by (simp_all add: outcome_ok_def bs)
  obtain u where r: "rename q b h = (Ok u, h')" and d: "d' = d" using step Chosen by (auto split: prod.splits sum.splits)
  note P = store_inv_place [OF inv pf dd(1) b root dd(2) r]
  then have "lookup h' b = Some (File i)" by (simp add: placed_def)
  moreover have "content (inode h' i) = stream_bytes rs" using same_files_inode [OF rename_same_files [OF r]] bs by simp
  ultimately have "contents h' b = Some (stream_bytes rs)" by (simp add: contents_File)
  then show ?thesis using b d by blast
next
  case (Copying q i rest x' s tot)
  then show ?thesis
    using step by (cases rest rule: stream_bytes.cases) (auto simp: verdict_def Let_def split: option.splits prod.splits sum.splits if_splits)
next
  case (Probing q d' n' cs)
  then show ?thesis using step by (cases cs) (auto split: if_splits)
qed (use step unfinished in \<open>auto split: prod.splits sum.splits\<close>)

section \<open>Calls that interleave\<close>

record 'h call =
  cl_pid :: nat
  cl_reader :: "read_event list"
  cl_expected :: "string option"
  cl_task :: "'h task"

text \<open>The file system, the staging counter of every process, and the calls in the order of their begin.\<close>

record 'h race =
  rc_host :: host
  rc_count :: "nat \<Rightarrow> nat"
  rc_calls :: "'h call list"

text \<open>
  A step, labelled with the call that moves: a process begins a call, a call takes its next step (a counter
  that would wrap around names no file), the daemon carries out an operation of a request, or the kernel
  changes what it refuses.
\<close>

inductive race_step :: "'h hasher \<Rightarrow> service_context \<Rightarrow> nat option \<Rightarrow> 'h race \<Rightarrow> 'h race \<Rightarrow> bool" for H ctx where
  Begin: "race_step H ctx None s
    (s\<lparr>rc_calls := rc_calls s @ [\<lparr>cl_pid = p, cl_reader = rs, cl_expected = x, cl_task = Fresh rs x\<rparr>]\<rparr>)"
| Run: "j < length (rc_calls s) \<Longrightarrow> c = rc_calls s ! j \<Longrightarrow>
    rc_count s (cl_pid c) < 2 ^ 64 - 1 \<or> live_path (cl_task c) \<noteq> None \<or> task_left (cl_task c) = 0 \<Longrightarrow>
    task_step H (ctx_cas ctx) (cl_task c) (process (cl_pid c) (rc_count s (cl_pid c)) (rc_host s)) = (t, h) \<Longrightarrow>
    race_step H ctx (Some j) s
      (s\<lparr>rc_host := h, rc_count := (rc_count s)(cl_pid c := stage_counter h), rc_calls := (rc_calls s)[j := c\<lparr>cl_task := t\<rparr>]\<rparr>)"
| Operation: "service_effect ctx (rc_host s) h \<Longrightarrow> race_step H ctx None s (s\<lparr>rc_host := h\<rparr>)"
| Kernel_Change: "race_step H ctx None s (s\<lparr>rc_host := (rc_host s)\<lparr>fault := f, now := t\<rparr>\<rparr>)"

inductive_cases race_stepE: "race_step H ctx l s s'"

definition race_inv :: "'h hasher \<Rightarrow> path \<Rightarrow> 'h race \<Rightarrow> bool" where
  "race_inv H root s =
     (store_inv H root (rc_host s) \<and>
      (\<forall>p n. rc_count s p \<le> n \<longrightarrow> n < 2 ^ 64 \<longrightarrow> lookup (rc_host s) (own_path root p n) = None) \<and>
      (\<forall>c \<in> set (rc_calls s). task_ok H root (cl_reader c) (cl_expected c) (cl_task c) (rc_host s) \<and>
         (\<forall>q. live_path (cl_task c) = Some q \<longrightarrow> (\<exists>n < rc_count s (cl_pid c). q = own_path root (cl_pid c) n))) \<and>
      (\<forall>j k q. j < length (rc_calls s) \<longrightarrow> k < length (rc_calls s) \<longrightarrow> live_path (cl_task (rc_calls s ! j)) = Some q \<longrightarrow>
         live_path (cl_task (rc_calls s ! k)) = Some q \<longrightarrow> j = k))"

lemma race_invD:
  assumes "race_inv H root s"
  shows "store_inv H root (rc_host s)"
    and "rc_count s p \<le> n \<Longrightarrow> n < 2 ^ 64 \<Longrightarrow> lookup (rc_host s) (own_path root p n) = None"
    and "c \<in> set (rc_calls s) \<Longrightarrow> task_ok H root (cl_reader c) (cl_expected c) (cl_task c) (rc_host s)"
    and "c \<in> set (rc_calls s) \<Longrightarrow> live_path (cl_task c) = Some q \<Longrightarrow> \<exists>n < rc_count s (cl_pid c). q = own_path root (cl_pid c) n"
    and "j < length (rc_calls s) \<Longrightarrow> k < length (rc_calls s) \<Longrightarrow> live_path (cl_task (rc_calls s ! j)) = Some q \<Longrightarrow>
      live_path (cl_task (rc_calls s ! k)) = Some q \<Longrightarrow> j = k"
  using assms unfolding race_inv_def by blast+

text \<open>The invariant when only the file system changes.\<close>

lemma race_inv_host:
  assumes inv: "race_inv H root s" and S: "store_inv H root h" and u: "undisturbed root {} (rc_host s) h"
  shows "race_inv H root (s\<lparr>rc_host := h\<rparr>)"
proof -
  have "lookup h (own_path root p n) = lookup (rc_host s) (own_path root p n)" for p n
    using u unfolding undisturbed_def by simp
  moreover have "task_ok H root (cl_reader c) (cl_expected c) (cl_task c) h" if "c \<in> set (rc_calls s)" for c
    using task_ok_undisturbed [OF race_invD(3) [OF inv that] u] race_invD(4) [OF inv that] by fastforce
  ultimately show ?thesis using inv S by (simp add: race_inv_def)
qed

lemma stage_counter_step:
  assumes "task_step H S t h = (t', h')" and "live_path t \<noteq> None"
  shows "stage_counter h' = stage_counter h"
proof (cases "(H, S, t, h)" rule: task_step.cases)
  case (2 H S p rs x h)
  then show ?thesis using assms by (auto simp: create_file_def fs_simps split: option.splits node.splits sum.splits prod.splits)
next
  case (5 H S p i b rs x s tot h)
  then show ?thesis using assms by (auto split: if_splits sum.splits prod.splits dest!: write_all_Ok write_all_Err simp: put_inode_def)
next
  case (6 H S p e d h)
  then show ?thesis using assms remove_file_same_files [of p h "fst (remove_file p h)" "snd (remove_file p h)"] by (auto simp: same_files_def)
next
  case (9 H S p t d n h)
  then show ?thesis using assms rename_same_files [of p t h] by (auto simp: same_files_def split: sum.splits prod.splits)
qed (use assms in auto)

text \<open>One call moves: its new state, and what it changed, fit the others.\<close>

lemma race_inv_moved:
  assumes inv: "race_inv H root s" and j: "j < length (rc_calls s)" and c: "c = rc_calls s ! j"
    and S: "store_inv H root h" and ok: "task_ok H root (cl_reader c) (cl_expected c) t h"
    and u: "undisturbed root {q} (rc_host s) h" and q: "q = own_path root (cl_pid c) m" "m < n" "rc_count s (cl_pid c) \<le> n"
    and mine: "live_path t \<in> {None, Some q}"
    and others: "\<And>k. k < length (rc_calls s) \<Longrightarrow> live_path (cl_task (rc_calls s ! k)) = Some q \<Longrightarrow> k = j"
  shows "race_inv H root (s\<lparr>rc_host := h, rc_count := (rc_count s)(cl_pid c := n), rc_calls := (rc_calls s)[j := c\<lparr>cl_task := t\<rparr>]\<rparr>)"
proof -
  let ?cs = "(rc_calls s)[j := c\<lparr>cl_task := t\<rparr>]" and ?cnt = "(rc_count s)(cl_pid c := n)"
  have up: "rc_count s p \<le> ?cnt p" for p using q(3) by simp
  have nth: "?cs ! k = (if k = j then c\<lparr>cl_task := t\<rparr> else rc_calls s ! k)" if "k < length (rc_calls s)" for k
    using that by (simp add: nth_list_update)
  have "lookup h (own_path root p k) = None" if "?cnt p \<le> k" "k < 2 ^ 64" for p k
  proof -
    have "own_path root p k \<noteq> q" using that q by (auto simp: own_path_inj)
    then have "lookup h (own_path root p k) = lookup (rc_host s) (own_path root p k)" using u unfolding undisturbed_def by simp
    then show ?thesis using race_invD(2) [OF inv order_trans [OF up that(1)] that(2)] by simp
  qed
  moreover have "task_ok H root (cl_reader d) (cl_expected d) (cl_task d) h \<and>
      (\<forall>q. live_path (cl_task d) = Some q \<longrightarrow> (\<exists>n < ?cnt (cl_pid d). q = own_path root (cl_pid d) n))" if d_in: "d \<in> set ?cs" for d
  proof -
    obtain k where k: "k < length (rc_calls s)" "?cs ! k = d"
      using d_in unfolding in_set_conv_nth length_list_update by blast
    show ?thesis
    proof (cases "k = j")
      case True
      then have "d = c\<lparr>cl_task := t\<rparr>" using k nth by auto
      then show ?thesis using ok mine q by auto
    next
      case False
      then have d: "d = rc_calls s ! k" using k nth by auto
      then have mem: "d \<in> set (rc_calls s)" using k(1) by simp
      have "incoming_file root q' \<and> q' \<notin> {q}" if "live_path (cl_task d) = Some q'" for q'
        using race_invD(4) [OF inv mem that] others [OF k(1)] that False d by auto
      from task_ok_undisturbed [OF race_invD(3) [OF inv mem] u this]
      show ?thesis using race_invD(4) [OF inv mem] up less_le_trans by metis
    qed
  qed
  moreover have "a = b" if a: "a < length (rc_calls s)" "live_path (cl_task (?cs ! a)) = Some q'"
      and b: "b < length (rc_calls s)" "live_path (cl_task (?cs ! b)) = Some q'" for a b q'
  proof (cases "a = j \<or> b = j")
    case True
    then have "q' = q" using a b mine nth by (auto split: if_splits)
    then show ?thesis using True a b others nth by (metis (no_types, lifting))
  next
    case False
    then show ?thesis using race_invD(5) [OF inv a(1) b(1)] a b nth by simp
  qed
  ultimately show ?thesis using S unfolding race_inv_def by simp
qed

lemma race_step_inv:
  assumes H: "sha256_contract H" and ctx: "over_root ctx root" and inv: "race_inv H root s" and step: "race_step H ctx l s s'"
  shows "race_inv H root s'"
  using step
proof (cases rule: race_step.cases)
  case (Begin p rs x)
  then show ?thesis using inv by (auto simp: race_inv_def nth_append less_Suc_eq split: if_splits)
next
  case (Operation h)
  then show ?thesis
    using race_inv_host [OF inv] service_effect_keeps [OF race_invD(1) [OF inv] ctx] service_undisturbed [OF race_invD(1) [OF inv] ctx] by blast
next
  case (Kernel_Change t f)
  have "undisturbed root {} (rc_host s) ((rc_host s)\<lparr>fault := f, now := t\<rparr>)"
    by (rule undisturbedI) (auto simp: lookup_def inode_def split: if_splits)
  then show ?thesis using Kernel_Change race_inv_host [OF inv store_inv_process(2) [OF race_invD(1) [OF inv]]] by simp
next
  case (Run j c t h)
  let ?p = "cl_pid c" and ?h = "process (cl_pid c) (rc_count s (cl_pid c)) (rc_host s)"
  have root: "path_ok root" and S: "ctx_cas ctx = \<lparr>root_dir = root\<rparr>" using ctx by (simp_all add: over_root_def)
  have mem: "c \<in> set (rc_calls s)" using Run by simp
  note ok = race_invD(3) [OF inv mem] and own = race_invD(4) [OF inv mem]
  show ?thesis
  proof (cases "live_path (cl_task c)")
    case (Some q)
    obtain n where n: "n < rc_count s ?p" "q = own_path root ?p n" using own [OF Some] by blast
    have pq: "path_ok q" using root by (simp add: n(2) own_path_path_ok)
    note K = task_step_keeps [OF H root process_store_inv [OF race_invD(1) [OF inv]] _ Some _ pq Run(6) [unfolded S]]
    have "undisturbed root {q} (rc_host s) h" using K ok n(2) by (simp add: undisturbed_def)
    then show ?thesis
      using race_inv_moved [OF inv Run(3,4), of h t q n "rc_count s ?p"] K ok n stage_counter_step [OF Run(6)] Some Run(2,4)
        race_invD(5) [OF inv _ Run(3)] by simp
  next
    case None
    show ?thesis
    proof (cases "cl_task c")
      case (Fresh rs x)
      let ?q = "own_path root ?p (rc_count s ?p)"
      have small: "rc_count s ?p < 2 ^ 64 - 1" using Run(5) Fresh by simp
      have h: "h = process ?p (rc_count s ?p + 1) (rc_host s)" and t: "t = Named ?q rs x"
        using Run(6) Fresh small by (auto simp: S stage_path_own stage_nonce_def process_def)
      have free: "lookup (rc_host s) ?q = None" using race_invD(2) [OF inv order_refl] small by simp
      have "live_path (cl_task (rc_calls s ! k)) \<noteq> Some ?q" if "k < length (rc_calls s)" for k
        using race_invD(4) [OF inv, of "rc_calls s ! k" ?q] that by (auto simp: own_path_inj)
      then show ?thesis
        using race_inv_moved [OF inv Run(3,4), of h t ?q "rc_count s ?p" "rc_count s ?p + 1"] Run(2) ok Fresh free race_invD(1) [OF inv]
        by (auto simp: h t undisturbed_def)
    next
      case (Finished r)
      then have h: "t = Finished r" "h = ?h" using Run(6) by simp_all
      have "race_inv H root (s\<lparr>rc_host := h\<rparr>)" using race_inv_host [OF inv, of h] race_invD(1) [OF inv] by (simp add: h undisturbed_def)
      moreover have "c\<lparr>cl_task := t\<rparr> = rc_calls s ! j" using Run(4) Finished h by simp
      then have "s' = s\<lparr>rc_host := h\<rparr>" using Run(2) h by simp
      ultimately show ?thesis by simp
    qed (use None in simp_all)
  qed
qed

text \<open>The system starts with a sound store, no call, and none of the staging names to come in use.\<close>

definition race_init :: "'h hasher \<Rightarrow> path \<Rightarrow> 'h race \<Rightarrow> bool" where
  "race_init H root s = (store_inv H root (rc_host s) \<and> rc_calls s = [] \<and>
     (\<forall>p n. rc_count s p \<le> n \<longrightarrow> lookup (rc_host s) (own_path root p n) = None))"

definition racing :: "'h hasher \<Rightarrow> service_context \<Rightarrow> 'h race \<Rightarrow> 'h race \<Rightarrow> bool" where
  "racing H ctx s s' = (\<exists>l. race_step H ctx l s s')"

interpretation races: invariant_system "race_init H root" "\<lambda>s s'. system_ok H ctx root \<and> racing H ctx s s'" "race_inv H root"
  for H :: "'h hasher" and ctx root
proof
  show "race_init H root s \<Longrightarrow> race_inv H root s" for s by (simp add: race_init_def race_inv_def)
  show "race_inv H root s \<Longrightarrow> system_ok H ctx root \<and> racing H ctx s s' \<Longrightarrow> race_inv H root s'" for s s'
    unfolding system_ok_def racing_def using race_step_inv by blast
qed

lemma race_reachable:
  assumes "system_ok H ctx root" and "race_init H root s0" and "(racing H ctx)\<^sup>*\<^sup>* s0 s"
  shows "race_inv H root s"
proof -
  have "(\<lambda>s s'. system_ok H ctx root \<and> racing H ctx s s')\<^sup>*\<^sup>* s0 s" using assms(1,3) by simp
  with assms(2) show ?thesis by (rule races.reachable_inv)
qed

text \<open>A run with the labels of its steps.\<close>

inductive race_run :: "'h hasher \<Rightarrow> service_context \<Rightarrow> nat option list \<Rightarrow> 'h race \<Rightarrow> 'h race \<Rightarrow> bool" for H ctx where
  Run_Stop: "race_run H ctx [] s s"
| Run_Step: "race_step H ctx l s s1 \<Longrightarrow> race_run H ctx ls s1 s2 \<Longrightarrow> race_run H ctx (l # ls) s s2"

text \<open>A step of a call uses one of the steps it has left; the other calls keep theirs.\<close>

lemma race_step_left:
  assumes "race_step H ctx l s s'" and "j < length (rc_calls s)"
  shows "j < length (rc_calls s') \<and>
    task_left (cl_task (rc_calls s' ! j)) \<le> task_left (cl_task (rc_calls s ! j)) - (if l = Some j then 1 else 0)"
  using assms(1)
proof (cases rule: race_step.cases)
  case (Run k c t h)
  show ?thesis
  proof (cases "k = j")
    case True
    then show ?thesis
      using task_step_left [of H "ctx_cas ctx" "cl_task c" "process (cl_pid c) (rc_count s (cl_pid c)) (rc_host s)"] Run by simp
  next
    case False
    then show ?thesis using Run assms(2) by simp
  qed
qed (use assms(2) in \<open>simp_all add: nth_append\<close>)

lemma race_run_left:
  "race_run H ctx ls s s' \<Longrightarrow> j < length (rc_calls s) \<Longrightarrow>
   task_left (cl_task (rc_calls s' ! j)) \<le> task_left (cl_task (rc_calls s ! j)) - count_list ls (Some j)"
proof (induction rule: race_run.induct)
  case (Run_Step l s s1 ls s2)
  then show ?case using race_step_left [OF Run_Step(1,4)] by (auto split: if_splits)
qed simp

text \<open>A schedule: which call moves next.\<close>

definition movable :: "nat \<Rightarrow> 'h race \<Rightarrow> bool" where
  "movable j s = (j < length (rc_calls s) \<and> rc_count s (cl_pid (rc_calls s ! j)) < 2 ^ 64 - 1)"

definition move :: "'h hasher \<Rightarrow> service_context \<Rightarrow> nat \<Rightarrow> 'h race \<Rightarrow> 'h race" where
  "move H ctx j s =
     (let c = rc_calls s ! j in
      case task_step H (ctx_cas ctx) (cl_task c) (process (cl_pid c) (rc_count s (cl_pid c)) (rc_host s)) of
        (t, h) \<Rightarrow> s\<lparr>rc_host := h, rc_count := (rc_count s)(cl_pid c := stage_counter h),
                    rc_calls := (rc_calls s)[j := c\<lparr>cl_task := t\<rparr>]\<rparr>)"

fun schedule_ok :: "'h hasher \<Rightarrow> service_context \<Rightarrow> nat list \<Rightarrow> 'h race \<Rightarrow> bool" where
  "schedule_ok H ctx [] s = True"
| "schedule_ok H ctx (j # js) s = (movable j s \<and> schedule_ok H ctx js (move H ctx j s))"

lemma move_step: "movable j s \<Longrightarrow> race_step H ctx (Some j) s (move H ctx j s)"
  using race_step.Run [of j s "rc_calls s ! j" H ctx] by (simp add: movable_def move_def Let_def split: prod.split)

lemma schedule_run: "schedule_ok H ctx js s \<Longrightarrow> race_run H ctx (map Some js) s (fold (move H ctx) js s)"
  by (induction js arbitrary: s) (auto intro: race_run.intros move_step)

lemma race_run_reachable: "race_run H ctx ls s s' \<Longrightarrow> (racing H ctx)\<^sup>*\<^sup>* s0 s \<Longrightarrow> (racing H ctx)\<^sup>*\<^sup>* s0 s'"
proof (induction rule: race_run.induct)
  case (Run_Step l s s1 ls s2)
  have "racing H ctx s s1" using Run_Step(1) unfolding racing_def by blast
  then show ?case by (rule Run_Step(3) [OF rtranclp.rtrancl_into_rtrancl [OF Run_Step(4)]])
qed simp

section \<open>Properties\<close>

text \<open>
  C3. Concurrent stores.  From a sound store on which none of the names to come is in use, under every
  interleaving of any number of calls of \<open>store_blob\<close> in any processes, of the operations of the daemon, and
  of refusals of the kernel: what lies under a digest hashes to it in every state; two calls in flight never
  hold one staging file; and a call that has returned a digest and a length read a stream without error
  that hashes to this digest, has this length and was the one its caller expected.
\<close>

theorem concurrent_stores_sound:
  assumes "system_ok H ctx root" and "race_init H root s0" and "(racing H ctx)\<^sup>*\<^sup>* s0 s"
  shows "cas_sound H (ctx_cas ctx) (rc_host s) \<and>
    (\<forall>j k q. j < length (rc_calls s) \<longrightarrow> k < length (rc_calls s) \<longrightarrow> live_path (cl_task (rc_calls s ! j)) = Some q \<longrightarrow>
       live_path (cl_task (rc_calls s ! k)) = Some q \<longrightarrow> j = k) \<and>
    (\<forall>c d n. c \<in> set (rc_calls s) \<longrightarrow> cl_task c = Finished (Ok (d, n)) \<longrightarrow>
       d = hex_digest H (stream_bytes (cl_reader c)) \<and> n = length (stream_bytes (cl_reader c)) mod 2 ^ 64 \<and>
       stream_error (cl_reader c) = None \<and> accepts (cl_expected c) d)"
proof (intro conjI allI impI)
  note inv = race_reachable [OF assms]
  show "cas_sound H (ctx_cas ctx) (rc_host s)"
    using store_invD(3) [OF race_invD(1) [OF inv]] assms(1) by (simp add: system_ok_def over_root_def)
  fix c d n
  assume "c \<in> set (rc_calls s)" and "cl_task c = Finished (Ok (d, n))"
  then have "outcome_ok H (cl_reader c) (cl_expected c) d n" using race_invD(3) [OF inv] by fastforce
  then show "d = hex_digest H (stream_bytes (cl_reader c))" "n = length (stream_bytes (cl_reader c)) mod 2 ^ 64"
    "stream_error (cl_reader c) = None" "accepts (cl_expected c) d" unfolding outcome_ok_def by blast+
qed (rule race_invD(5) [OF race_reachable [OF assms]])

definition twice_abd :: "bytes race" where
  "twice_abd = \<lparr>rc_host = pinned_host, rc_count = (\<lambda>p. 0), rc_calls = []\<rparr>"

definition two_calls :: "bytes race" where
  "two_calls = twice_abd\<lparr>rc_calls :=
     [\<lparr>cl_pid = 7, cl_reader = [Chunk ''ab'', Chunk ''d''], cl_expected = None, cl_task = Fresh [Chunk ''ab'', Chunk ''d''] None\<rparr>,
      \<lparr>cl_pid = 7, cl_reader = [Chunk ''abd''], cl_expected = None, cl_task = Fresh [Chunk ''abd''] None\<rparr>]\<rparr>"

lemma twice_abd_init: "race_init demo_hasher [''m''] twice_abd"
  using pinned_host_inv
  by (simp add: race_init_def twice_abd_def own_path_def) (simp add: lookup_def pinned_host_def plain_host_def demo_dirs_def)

lemma two_calls_reachable: "(racing demo_hasher system_context)\<^sup>*\<^sup>* twice_abd two_calls"
proof -
  let ?c = "\<lparr>cl_pid = 7, cl_reader = [Chunk ''ab'', Chunk ''d''], cl_expected = None, cl_task = Fresh [Chunk ''ab'', Chunk ''d''] None\<rparr>"
  have "racing demo_hasher system_context twice_abd (twice_abd\<lparr>rc_calls := [?c]\<rparr>)"
    using race_step.Begin [of demo_hasher system_context twice_abd 7 "[Chunk ''ab'', Chunk ''d'']" None]
    unfolding racing_def by (auto simp: twice_abd_def)
  moreover have "racing demo_hasher system_context (twice_abd\<lparr>rc_calls := [?c]\<rparr>) two_calls"
    using race_step.Begin [of demo_hasher system_context "twice_abd\<lparr>rc_calls := [?c]\<rparr>" 7 "[Chunk ''abd'']" None]
    unfolding racing_def by (auto simp: twice_abd_def two_calls_def)
  ultimately show ?thesis by (meson rtranclp.rtrancl_into_rtrancl rtranclp.rtrancl_refl)
qed

text \<open>Two calls that store the same bytes, in turns.\<close>

definition turns :: "nat list" where
  "turns = concat (replicate 10 [0, 1])"

lemma two_calls_schedule: "schedule_ok demo_hasher system_context js two_calls \<Longrightarrow>
  (racing demo_hasher system_context)\<^sup>*\<^sup>* twice_abd (fold (move demo_hasher system_context) js two_calls)"
  using race_run_reachable [OF schedule_run two_calls_reachable] .

theorem concurrent_stores_sound_witness:
  "let s = fold (move demo_hasher system_context) turns two_calls in
   map cl_task (rc_calls s) = replicate 2 (Finished (Ok (hex_digest demo_hasher ''abd'', 3))) \<and>
   cas_sound demo_hasher demo_store (rc_host s)"
proof -
  let ?s = "fold (move demo_hasher system_context) turns two_calls"
  have "schedule_ok demo_hasher system_context turns two_calls" by code_simp
  from concurrent_stores_sound [OF system_context_ok twice_abd_init two_calls_schedule [OF this]]
  have "cas_sound demo_hasher demo_store (rc_host ?s)" by (simp add: system_context_def)
  moreover have "map cl_task (rc_calls ?s) = replicate 2 (Finished (Ok (hex_digest demo_hasher ''abd'', 3)))" by code_simp
  ultimately show ?thesis by (simp only: Let_def)
qed

text \<open>
  C7. A digest that is returned is stored.  In every state that concurrent stores reach, the step by which
  a call returns a digest leaves the bytes of its stream under a path where the store looks for them.
\<close>

theorem returned_digest_stored:
  assumes "system_ok H ctx root" and "race_init H root s0" and "(racing H ctx)\<^sup>*\<^sup>* s0 s"
    and "race_step H ctx (Some j) s s'" and "\<And>r. cl_task (rc_calls s ! j) \<noteq> Finished r"
    and "cl_task (rc_calls s' ! j) = Finished (Ok (d, n))"
  shows "\<exists>p \<in> blob_paths (ctx_cas ctx) d. contents (rc_host s') p = Some (stream_bytes (cl_reader (rc_calls s ! j)))"
  using assms(4)
proof (cases rule: race_step.cases)
  case (Run c t h)
  note inv = race_reachable [OF assms(1-3)]
  let ?h = "process (cl_pid c) (rc_count s (cl_pid c)) (rc_host s)"
  have ctx: "sha256_contract H" "path_ok root" "ctx_cas ctx = \<lparr>root_dir = root\<rparr>"
    using assms(1) by (simp_all add: system_ok_def over_root_def)
  have mem: "c \<in> set (rc_calls s)" using Run by simp
  have "task_ok H root (cl_reader c) (cl_expected c) (cl_task c) ?h" using race_invD(3) [OF inv mem] by simp
  note stored = task_step_stored [OF ctx(1,2) process_store_inv [OF race_invD(1) [OF inv]] this]
  have "incoming_file root q" if "live_path (cl_task c) = Some q" for q using race_invD(4) [OF inv mem that] by auto
  moreover have "task_step H \<lparr>root_dir = root\<rparr> (cl_task c) ?h = (Finished (Ok (d, n)), h)" using Run assms(6) ctx(3) by simp
  moreover have "0 < task_left (cl_task c)" using assms(5) Run task_left_0 [of "cl_task c"] by auto
  ultimately have "\<exists>p \<in> blob_paths \<lparr>root_dir = root\<rparr> d. contents h p = Some (stream_bytes (cl_reader c))" by (rule stored)
  then show ?thesis using Run ctx(3) by simp
qed

theorem returned_digest_stored_witness:
  "\<exists>p \<in> blob_paths demo_store (hex_digest demo_hasher ''abd'').
     contents (rc_host (fold (move demo_hasher system_context) (replicate 10 0) two_calls)) p = Some ''abd''"
proof -
  let ?s = "fold (move demo_hasher system_context) (replicate 9 0) two_calls"
  let ?s' = "fold (move demo_hasher system_context) (replicate 10 0) two_calls"
  have "schedule_ok demo_hasher system_context (replicate 9 0) two_calls" by code_simp
  note reach = two_calls_schedule [OF this]
  have "movable 0 ?s" by code_simp
  moreover have "replicate 10 (0 :: nat) = replicate 9 0 @ [0]" by code_simp
  then have "?s' = move demo_hasher system_context 0 ?s" by (simp only: fold_append fold_simps o_apply)
  ultimately have step: "race_step demo_hasher system_context (Some 0) ?s ?s'" by (simp only: move_step)
  have "task_left (cl_task (rc_calls ?s ! 0)) = 1" by code_simp
  then have busy: "cl_task (rc_calls ?s ! 0) \<noteq> Finished r" for r by (metis task_left.simps(7) zero_neq_one)
  have fin: "cl_task (rc_calls ?s' ! 0) = Finished (Ok (hex_digest demo_hasher ''abd'', 3))" by code_simp
  have rd: "stream_bytes (cl_reader (rc_calls ?s ! 0)) = ''abd''" by code_simp
  from returned_digest_stored [OF system_context_ok twice_abd_init reach step busy fin]
  show ?thesis by (simp only: rd) (simp add: system_context_def)
qed

text \<open>
  C8. Every call returns.  Whatever the other calls, the daemon and the kernel do meanwhile: as long as the
  counter of its process is not used up a call can take its next step, and when it has taken as many steps
  as its stream has reads, and eight more, it has returned.
\<close>

theorem every_call_returns:
  assumes "race_run H ctx ls s s'" and "j < length (rc_calls s)"
  shows "(rc_count s (cl_pid (rc_calls s ! j)) < 2 ^ 64 - 1 \<longrightarrow> (\<exists>s1. race_step H ctx (Some j) s s1)) \<and>
    (task_left (cl_task (rc_calls s ! j)) \<le> count_list ls (Some j) \<longrightarrow> (\<exists>r. cl_task (rc_calls s' ! j) = Finished r))"
proof (intro conjI impI)
  assume "rc_count s (cl_pid (rc_calls s ! j)) < 2 ^ 64 - 1"
  then show "\<exists>s1. race_step H ctx (Some j) s s1" using move_step [of j s] assms(2) unfolding movable_def by blast
next
  assume "task_left (cl_task (rc_calls s ! j)) \<le> count_list ls (Some j)"
  then show "\<exists>r. cl_task (rc_calls s' ! j) = Finished r"
    using race_run_left [OF assms] task_left_0 [of "cl_task (rc_calls s' ! j)"] by simp
qed

theorem every_call_returns_witness:
  "\<exists>s' r. race_run demo_hasher system_context (map Some (concat (replicate 10 [1, 0]))) two_calls s' \<and>
     cl_task (rc_calls s' ! 0) = Finished r"
proof -
  have run: "race_run demo_hasher system_context (map Some (concat (replicate 10 [1, 0]))) two_calls
      (fold (move demo_hasher system_context) (concat (replicate 10 [1, 0])) two_calls)" (is "race_run _ _ _ _ ?s'")
    by (rule schedule_run) code_simp
  have j: "0 < length (rc_calls two_calls)" by code_simp
  have "task_left (cl_task (rc_calls two_calls ! 0)) \<le> count_list (map Some (concat (replicate 10 [1 :: nat, 0]))) (Some 0)" by code_simp
  then obtain r where "cl_task (rc_calls ?s' ! 0) = Finished r" using every_call_returns [OF run j] by blast
  with run show ?thesis by blast
qed

end
