(* ===== verification/Racing_Requests.thy ===== *)
theory Racing_Requests
  imports Store_System
begin

text \<open>
  Requests that overlap.  The handlers of the daemon run on several threads and share the registries
  without a lock, so between two calls of \<^verbatim>\<open>std::fs\<close> of one request another request may run.  Here \<open>prune\<close>
  (\<^verbatim>\<open>cas/eviction.rs\<close>) and \<open>set_tag\<close> (\<^verbatim>\<open>cas/tags.rs\<close>) are taken one call at a time: what a prune that overlaps
  with other requests spares, what it does not, and what a reader sees of a tag that is being written.
\<close>

section \<open>Pruning, one call at a time\<close>

text \<open>
  Where \<open>prune\<close> is: before its scan, in its loop, after a test of a pin that failed, between the two
  removals of a row, or returned.  The scan only reads and is one step.
\<close>

datatype prune_phase =
    Scanning
  | Pruning "blob_row list" nat nat
  | Unlinking string nat "blob_row list" nat nat
  | Unlinking_Flat bool string nat "blob_row list" nat nat
  | Pruned "nat res"

fun prune_step :: "eviction_manager \<Rightarrow> cas_store \<Rightarrow> nat \<Rightarrow> prune_phase \<Rightarrow> host \<Rightarrow> prune_phase \<times> host" where
  "prune_step E S mx Scanning h =
     ((case prune_rows S h of
         Inl e \<Rightarrow> Pruned (Err e)
       | Inr (rows, tot) \<Rightarrow> if tot \<le> mx then Pruned (Ok 0) else Pruning (sort_key (\<lambda>(d, s, m). m) rows) tot 0), h)"
| "prune_step E S mx (Pruning [] tot n) h = (Pruned (Ok n), h)"
| "prune_step E S mx (Pruning ((d, sz, m) # rows) tot n) h =
     ((if tot \<le> mx then Pruned (Ok n) else if is_pinned E h d then Pruning rows tot n else Unlinking d sz rows tot n), h)"
| "prune_step E S mx (Unlinking d sz rows tot n) h =
     (case remove_file (join (blobs_dir S) d) h of (r, h1) \<Rightarrow> (Unlinking_Flat (is_ok r) d sz rows tot n, h1))"
| "prune_step E S mx (Unlinking_Flat gone d sz rows tot n) h =
     (case remove_file (join (cas_dir S) (''sha256-'' @ d @ ''.gguf'')) h of
        (r, h1) \<Rightarrow> (if gone \<or> is_ok r then Pruning rows (tot - sz) (u64_add n sz) else Pruning rows tot n, h1))"
| "prune_step E S mx (Pruned r) h = (Pruned r, h)"

fun prune_iter :: "eviction_manager \<Rightarrow> cas_store \<Rightarrow> nat \<Rightarrow> nat \<Rightarrow> prune_phase \<Rightarrow> host \<Rightarrow> prune_phase \<times> host" where
  "prune_iter E S mx 0 p h = (p, h)"
| "prune_iter E S mx (Suc k) p h = (case prune_step E S mx p h of (p', h') \<Rightarrow> prune_iter E S mx k p' h')"

text \<open>Alone, the steps are the call.\<close>

lemma prune_iter_done [simp]: "prune_iter E S mx k (Pruned r) h = (Pruned r, h)"
  by (induction k) simp_all

lemma prune_iter_loop:
  "\<exists>k. \<forall>j. prune_iter E S mx (k + j) (Pruning rows tot n) h = (case prune_loop E S mx rows tot n h of (m, h') \<Rightarrow> (Pruned (Ok m), h'))"
proof (induction E S mx rows tot n h rule: prune_loop.induct)
  case (1 E S mx tot n h)
  have "prune_iter E S mx (1 + j) (Pruning [] tot n) h = (Pruned (Ok n), h)" for j by simp
  then show ?case by (metis (no_types, lifting) prune_loop.simps(1) case_prod_conv)
next
  case (2 E S mx d sz m rows tot n h)
  obtain r1 h1 where r1: "remove_file (join (blobs_dir S) d) h = (r1, h1)" by fastforce
  obtain r2 h2 where r2: "remove_file (join (cas_dir S) (''sha256-'' @ d @ ''.gguf'')) h1 = (r2, h2)" by fastforce
  consider (stop) "tot \<le> mx" | (pinned) "\<not> tot \<le> mx" "is_pinned E h d" | (gone) "\<not> tot \<le> mx" "\<not> is_pinned E h d" "is_ok r1 \<or> is_ok r2"
    | (kept) "\<not> tot \<le> mx" "\<not> is_pinned E h d" "\<not> (is_ok r1 \<or> is_ok r2)" by blast
  then show ?case
  proof cases
    case stop
    then have "prune_iter E S mx (1 + j) (Pruning ((d, sz, m) # rows) tot n) h = (Pruned (Ok n), h)" for j by simp
    then show ?thesis using stop by (metis (no_types, lifting) prune_loop.simps(2) case_prod_conv)
  next
    case pinned
    from "2.IH"(1) [OF pinned] obtain k where
      k: "\<forall>j. prune_iter E S mx (k + j) (Pruning rows tot n) h = (case prune_loop E S mx rows tot n h of (m, h') \<Rightarrow> (Pruned (Ok m), h'))" ..
    then have "\<forall>j. prune_iter E S mx (Suc k + j) (Pruning ((d, sz, m) # rows) tot n) h =
        (case prune_loop E S mx ((d, sz, m) # rows) tot n h of (m, h') \<Rightarrow> (Pruned (Ok m), h'))" using pinned by simp
    then show ?thesis ..
  next
    case gone
    from "2.IH"(2) [OF gone(1,2) r1 [symmetric] refl r2 [symmetric] refl] gone(3) obtain k where
      "\<forall>j. prune_iter E S mx (k + j) (Pruning rows (tot - sz) (u64_add n sz)) h2 =
        (case prune_loop E S mx rows (tot - sz) (u64_add n sz) h2 of (m, h') \<Rightarrow> (Pruned (Ok m), h'))" by blast
    then have "\<forall>j. prune_iter E S mx (Suc (Suc (Suc k)) + j) (Pruning ((d, sz, m) # rows) tot n) h =
        (case prune_loop E S mx ((d, sz, m) # rows) tot n h of (m, h') \<Rightarrow> (Pruned (Ok m), h'))" using gone r1 r2 by simp
    then show ?thesis ..
  next
    case kept
    from "2.IH"(3) [OF kept(1,2) r1 [symmetric] refl r2 [symmetric] refl] kept(3) obtain k where
      "\<forall>j. prune_iter E S mx (k + j) (Pruning rows tot n) h2 = (case prune_loop E S mx rows tot n h2 of (m, h') \<Rightarrow> (Pruned (Ok m), h'))" by blast
    then have "\<forall>j. prune_iter E S mx (Suc (Suc (Suc k)) + j) (Pruning ((d, sz, m) # rows) tot n) h =
        (case prune_loop E S mx ((d, sz, m) # rows) tot n h of (m, h') \<Rightarrow> (Pruned (Ok m), h'))" using kept r1 r2 by simp
    then show ?thesis ..
  qed
qed

theorem steps_are_prune:
  "\<exists>k. prune_iter E S mx k Scanning h = (case prune E S mx h of (r, h') \<Rightarrow> (Pruned r, h'))"
proof (cases "prune_rows S h")
  case (Inl e)
  then have "prune_iter E S mx 1 Scanning h = (case prune E S mx h of (r, h') \<Rightarrow> (Pruned r, h'))" by (simp add: prune_def)
  then show ?thesis ..
next
  case (Inr rt)
  obtain rows tot where rt: "rt = (rows, tot)" by (cases rt)
  show ?thesis
  proof (cases "tot \<le> mx")
    case True
    then have "prune_iter E S mx 1 Scanning h = (case prune E S mx h of (r, h') \<Rightarrow> (Pruned r, h'))" using Inr rt by (simp add: prune_def)
    then show ?thesis ..
  next
    case False
    obtain k where k: "\<forall>j. prune_iter E S mx (k + j) (Pruning (sort_key (\<lambda>(d, s, m). m) rows) tot 0) h =
        (case prune_loop E S mx (sort_key (\<lambda>(d, s, m). m) rows) tot 0 h of (m, h') \<Rightarrow> (Pruned (Ok m), h'))"
      using prune_iter_loop by blast
    have "prune_iter E S mx (Suc k) Scanning h = (case prune E S mx h of (r, h') \<Rightarrow> (Pruned r, h'))"
      using k [rule_format, of 0] Inr rt False by (simp add: prune_def split: prod.splits)
    then show ?thesis ..
  qed
qed

section \<open>Pruning among other requests\<close>

text \<open>
  A prune takes a step, or another request carries out an operation that leaves the pin of \<open>d\<close>; the
  kernel may change what it refuses, but not so that the pin is no longer seen.
\<close>

inductive prune_race :: "service_context \<Rightarrow> nat \<Rightarrow> string \<Rightarrow> prune_phase \<times> host \<Rightarrow> prune_phase \<times> host \<Rightarrow> bool" for ctx mx d where
  Prune_Moves: "prune_step (ctx_eviction ctx) (ctx_cas ctx) mx p h = (p', h') \<Longrightarrow> prune_race ctx mx d (p, h) (p', h')"
| Other_Request: "service_effect ctx h h' \<Longrightarrow> is_pinned (ctx_eviction ctx) h' d \<Longrightarrow> prune_race ctx mx d (p, h) (p, h')"
| Other_Kernel: "is_pinned (ctx_eviction ctx) (h\<lparr>fault := f, now := t\<rparr>) d \<Longrightarrow> prune_race ctx mx d (p, h) (p, h\<lparr>fault := f, now := t\<rparr>)"

inductive_cases prune_raceE: "prune_race ctx mx d (p, h) s"

text \<open>The names a prune holds are single segments, and it never holds the pinned one for removal.\<close>

fun spares :: "string \<Rightarrow> prune_phase \<Rightarrow> bool" where
  "spares d (Pruning rows tot n) = (\<forall>(x, s, m) \<in> set rows. no_slash x)"
| "spares d (Unlinking x sz rows tot n) = (no_slash x \<and> x \<noteq> d \<and> (\<forall>(x, s, m) \<in> set rows. no_slash x))"
| "spares d (Unlinking_Flat g x sz rows tot n) = (no_slash x \<and> x \<noteq> d \<and> (\<forall>(x, s, m) \<in> set rows. no_slash x))"
| "spares d p = True"

definition prune_race_inv :: "'h hasher \<Rightarrow> service_context \<Rightarrow> path \<Rightarrow> string \<Rightarrow> prune_phase \<times> host \<Rightarrow> bool" where
  "prune_race_inv H ctx root d = (\<lambda>(p, h). store_inv H root h \<and> is_pinned (ctx_eviction ctx) h d \<and> spares d p)"

lemma unlink_target:
  assumes inv: "store_inv H root h" and ctx: "over_root ctx root" and x: "no_slash x" and q: "q \<in> prune_targets (ctx_cas ctx) x"
    and r: "remove_file q h = (r, h')"
  shows "store_inv H root h'" "is_pinned (ctx_eviction ctx) h' d = is_pinned (ctx_eviction ctx) h d"
    "is_digest_format d \<Longrightarrow> d \<noteq> x \<Longrightarrow> p \<in> blob_paths (ctx_cas ctx) d \<Longrightarrow> lookup h' p = lookup h p"
proof -
  note R = remove_file_any [OF r]
  show "store_inv H root h'"
    by (rule store_inv_removal [OF inv _ remove_file_fs_ok [OF r store_invD(1) [OF inv]]]) (use R in auto)
  have P: "pinned_dir (ctx_eviction ctx) = root_dir (ctx_cas ctx) @ [''pinned'']" using ctx by (simp add: over_root_def)
  show "is_pinned (ctx_eviction ctx) h' d = is_pinned (ctx_eviction ctx) h d"
  proof (rule is_pinned_cong)
    show "lookup h' (pinned_dir (ctx_eviction ctx) @ [y]) = lookup h (pinned_dir (ctx_eviction ctx) @ [y])" for y
      using R prune_targets_not_pin [OF x q, of y] P by fastforce
    show "fault h' = fault h" using R by (simp add: same_files_def)
    show "plain h (pinned_dir (ctx_eviction ctx) @ [y])" for y
      using store_invD(2) [OF inv] ctx by (simp add: over_root_def store_area_def registry_path_def)
  qed
  show "lookup h' p = lookup h p" if "is_digest_format d" "d \<noteq> x" "p \<in> blob_paths (ctx_cas ctx) d"
    using R prune_targets_blob [OF x that(1) q] that(2,3) by blast
qed

lemma prune_race_step:
  assumes ctx: "over_root ctx root" and d: "is_digest_format d" and inv: "prune_race_inv H ctx root d (p, h)"
    and step: "prune_race ctx mx d (p, h) (p', h')"
  shows "prune_race_inv H ctx root d (p', h') \<and>
    (\<forall>q nd. q \<in> blob_paths (ctx_cas ctx) d \<longrightarrow> lookup h q = Some nd \<longrightarrow> lookup h' q = Some nd)"
proof -
  have S: "store_inv H root h" and pin: "is_pinned (ctx_eviction ctx) h d" and sp: "spares d p"
    using inv by (simp_all add: prune_race_inv_def)
  show ?thesis
    using step
  proof (cases rule: prune_race.cases)
    case Other_Request
    then show ?thesis
      using service_effect_keeps [OF S ctx Other_Request(2)] pin d sp by (auto simp: prune_race_inv_def keeps_pinned_def)
  next
    case (Other_Kernel f t)
    then show ?thesis using store_inv_process(2) [OF S] sp by (simp add: prune_race_inv_def lookup_def)
  next
    case Prune_Moves
    show ?thesis
    proof (cases "(ctx_eviction ctx, ctx_cas ctx, mx, p, h)" rule: prune_step.cases)
      case (1 E st mx' h0)
      then have "h' = h" and "spares d p'"
        using Prune_Moves prune_rows_no_slash [OF _ store_invD(1) [OF S], of "ctx_cas ctx"] by (auto split: sum.splits)
      then show ?thesis using S pin by (simp add: prune_race_inv_def)
    next
      case (3 E st mx' x sz m rows tot n h0)
      then show ?thesis using Prune_Moves S pin sp by (auto simp: prune_race_inv_def split: if_splits)
    next
      case (4 E st mx' x sz rows tot n h0)
      obtain r h1 where r: "remove_file (join (blobs_dir (ctx_cas ctx)) x) h = (r, h1)" by fastforce
      have "h1 = h'" and p': "spares d p'" using Prune_Moves 4 sp r by (auto split: if_splits)
      note U = unlink_target [OF S ctx _ _ r [unfolded this(1)]]
      show ?thesis using U 4 sp pin d p' by (auto simp: prune_race_inv_def prune_targets_def)
    next
      case (5 E st mx' gone x sz rows tot n h0)
      obtain r h1 where r: "remove_file (join (cas_dir (ctx_cas ctx)) (''sha256-'' @ x @ ''.gguf'')) h = (r, h1)" by fastforce
      have "h1 = h'" and p': "spares d p'" using Prune_Moves 5 sp r by (auto split: if_splits)
      note U = unlink_target [OF S ctx _ _ r [unfolded this(1)]]
      show ?thesis using U 5 sp pin d p' by (auto simp: prune_race_inv_def prune_targets_def)
    qed (use Prune_Moves S pin in \<open>auto simp: prune_race_inv_def\<close>)
  qed
qed

interpretation prune_races: invariant_system "prune_race_inv H ctx root d"
  "\<lambda>s s'. over_root ctx root \<and> is_digest_format d \<and> prune_race ctx mx d s s'" "prune_race_inv H ctx root d"
  for H :: "'h hasher" and ctx root d mx
proof
  show "prune_race_inv H ctx root d s'"
    if "prune_race_inv H ctx root d s" and "over_root ctx root \<and> is_digest_format d \<and> prune_race ctx mx d s s'" for s s'
    using that prune_race_step by (cases s; cases s') blast
qed

section \<open>Writing a tag, one call at a time\<close>

datatype tag_phase =
    Checking
  | Making_Dir string string
  | Creating path
  | Writing path nat
  | Tagged "unit res"

fun tag_step :: "tag_registry \<Rightarrow> string \<Rightarrow> string \<Rightarrow> string \<Rightarrow> tag_phase \<Rightarrow> host \<Rightarrow> tag_phase \<times> host" where
  "tag_step R name tag digest Checking h =
     ((case validate_tag_segment name of Inl e \<Rightarrow> Tagged (Err e) | Inr safe_name \<Rightarrow>
       (case validate_tag_segment tag of Inl e \<Rightarrow> Tagged (Err e) | Inr safe_tag \<Rightarrow>
        (case validate_digest_format (trim digest) of Inl e \<Rightarrow> Tagged (Err e) | Inr u \<Rightarrow> Making_Dir safe_name safe_tag))), h)"
| "tag_step R name tag digest (Making_Dir safe_name safe_tag) h =
     (case create_dir_all (join (tags_dir R) safe_name) h of
        (Inl e, h1) \<Rightarrow> (Tagged (Err (Io e)), h1)
      | (Inr u, h1) \<Rightarrow> (Creating (join (join (tags_dir R) safe_name) safe_tag), h1))"
| "tag_step R name tag digest (Creating p) h =
     (case create_file p h of
        (Inl e, h1) \<Rightarrow> (Tagged (Err (Io e)), h1)
      | (Inr i, h1) \<Rightarrow> (Writing p i, h1))"
| "tag_step R name tag digest (Writing p i) h =
     (case write_all p i (trim digest) h of
        (Inl e, h1) \<Rightarrow> (Tagged (Err (Io e)), h1)
      | (Inr u, h1) \<Rightarrow> (Tagged (Ok ()), h1))"
| "tag_step R name tag digest (Tagged r) h = (Tagged r, h)"

fun tag_iter :: "tag_registry \<Rightarrow> string \<Rightarrow> string \<Rightarrow> string \<Rightarrow> nat \<Rightarrow> tag_phase \<Rightarrow> host \<Rightarrow> tag_phase \<times> host" where
  "tag_iter R n t d 0 p h = (p, h)"
| "tag_iter R n t d (Suc k) p h = (case tag_step R n t d p h of (p', h') \<Rightarrow> tag_iter R n t d k p' h')"

lemma tag_iter_done [simp]: "tag_iter R n t d k (Tagged r) h = (Tagged r, h)"
  by (induction k) simp_all

text \<open>Alone, the steps are the call.\<close>

lemma steps_are_set_tag: "tag_iter R n t d (4 + k) Checking h = (case set_tag R n t d h of (r, h') \<Rightarrow> (Tagged r, h'))"
  by (cases "validate_tag_segment n"; cases "validate_tag_segment t"; cases "is_digest_format (trim d)")
    (auto simp: eval_nat_numeral set_tag_def validate_digest_format_def Let_def split: prod.splits sum.splits)

text \<open>A file that was written shows at its own tag only.\<close>

lemma written_view:
  assumes "written (tag_path R n t) bs h h'"
  shows "tag_view R h' = (tag_view R h)((n, t) \<mapsto> bs)"
proof (rule ext)
  fix k :: "string \<times> string"
  obtain m u where k: "k = (m, u)" by (cases k)
  show "tag_view R h' k = ((tag_view R h)((n, t) \<mapsto> bs)) k"
  proof (cases "tag_path R m u = tag_path R n t")
    case True
    then show ?thesis using assms by (auto simp: k tag_view_def written_def tag_path_neq(3))
  next
    case False
    then have "lookup h' (tag_path R m u) = lookup h (tag_path R m u)"
      "\<And>i. lookup h (tag_path R m u) = Some (File i) \<Longrightarrow> inode h' i = inode h i"
      using assms unfolding written_def by blast+
    then show ?thesis using False by (auto simp: k tag_view_def tag_path_neq(3) split: option.split node.split)
  qed
qed

text \<open>The states of a call on a registry in order.\<close>

lemma tag_steps:
  assumes inv: "tags_inv R h" and n: "tag_segment n" and t: "tag_segment t" and d: "is_digest_format (trim d)"
  obtains h1 i h2 h3 where
    "tag_iter R n t d 1 Checking h = (Making_Dir n t, h)"
    "tag_iter R n t d 2 Checking h = (Creating (tag_path R n t), h1)" "tags_inv R h1" "tag_view R h1 = tag_view R h"
    "tag_iter R n t d 3 Checking h = (Writing (tag_path R n t) i, h2)" "owned (tags_dir R) h2" "tag_view R h2 = (tag_view R h)((n, t) \<mapsto> [])"
    "\<forall>j. tag_iter R n t d (4 + j) Checking h = (Tagged (Ok ()), h3)" "owned (tags_dir R) h3"
    "tag_view R h3 = (tag_view R h)((n, t) \<mapsto> trim d)"
proof -
  obtain h1 where D: "create_dir_all (tags_dir R @ [n]) h = (Ok (), h1)" "tags_inv R h1" "tag_view R h1 = tag_view R h"
    "lookup h1 (tags_dir R @ [n]) = Some Dir" using set_tag_dir [OF inv n] .
  obtain i h2 h3 where F: "create_file (tag_path R n t) h1 = (Ok i, h2)" "write_all (tag_path R n t) i (trim d) h2 = (Ok (), h3)"
    "written (tag_path R n t) [] h1 h2" "owned (tags_dir R) h2" "written (tag_path R n t) (trim d) h1 h3" "owned (tags_dir R) h3"
    using set_tag_file [OF D(2) n t D(4), of "trim d"] .
  have one: "tag_step R n t d Checking h = (Making_Dir n t, h)"
    using n t d by (simp add: validate_tag_segment_Ok [THEN iffD2] validate_digest_format_def)
  have two: "tag_step R n t d (Making_Dir n t) h = (Creating (tag_path R n t), h1)"
    using n t D(1) by (simp add: join_tag tag_path_def)
  note views = written_view [OF F(3), unfolded D(3)] written_view [OF F(5), unfolded D(3)]
  show thesis
    by (rule that [OF _ _ D(2,3) _ F(4) views(1) _ F(6) views(2)])
      (simp_all add: eval_nat_numeral one two F(1,2) del: tag_step.simps(1,2))
qed

section \<open>Properties\<close>

text \<open>
  C11. A pin that is there first protects.  Take a digest that is pinned when a prune begins and stays
  pinned: however the steps of the prune interleave with the other requests of the daemon and with what
  the kernel refuses, every file under a path of the digest that was there at the beginning is there.
\<close>

theorem pinned_before_prune:
  assumes "over_root ctx root" and "store_inv H root h" and "is_digest_format d" and "is_pinned (ctx_eviction ctx) h d"
    and "(prune_race ctx mx d)\<^sup>*\<^sup>* (Scanning, h) (p', h')" and "q \<in> blob_paths (ctx_cas ctx) d" and "lookup h q = Some nd"
  shows "lookup h' q = Some nd"
proof -
  let ?step = "\<lambda>s s'. over_root ctx root \<and> is_digest_format d \<and> prune_race ctx mx d s s'"
  have start: "prune_race_inv H ctx root d (Scanning, h)" using assms(2,4) by (simp add: prune_race_inv_def)
  have "(\<lambda>s s'. ?step s s' \<and> True)\<^sup>*\<^sup>* (Scanning, h) (p', h')" using assms(1,3,5) by simp
  then have "lookup (snd (p', h')) q = Some nd"
  proof (rule prune_races.guarded_run [OF _ start])
    show "lookup (snd (Scanning, h)) q = Some nd" using assms(7) by simp
    show "lookup (snd s') q = Some nd" if "prune_race_inv H ctx root d s" "?step s s'" "lookup (snd s) q = Some nd" for s s'
      using prune_race_step [OF assms(1,3), of H "fst s" "snd s" mx "fst s'" "snd s'"] that assms(6) by simp
  qed
  then show ?thesis by simp
qed

theorem pinned_before_prune_witness:
  "\<exists>p' h'. (prune_race system_context 0 (hex_digest demo_hasher ''abc''))\<^sup>*\<^sup>* (Scanning, pinned_host) (p', h') \<and> p' = Pruned (Ok 0) \<and>
     lookup h' [''m'', ''cas'', ''blobs'', ''sha256'', hex_digest demo_hasher ''abc''] = Some (File 0)"
proof -
  let ?d = "hex_digest demo_hasher ''abc''" and ?it = "\<lambda>k. prune_iter (ctx_eviction system_context) (ctx_cas system_context) 0 k Scanning pinned_host"
  have run: "(prune_race system_context 0 ?d)\<^sup>*\<^sup>* s (prune_iter (ctx_eviction system_context) (ctx_cas system_context) 0 k (fst s) (snd s))" for k s
  proof (induction k arbitrary: s)
    case (Suc k)
    obtain p1 h1 where st: "prune_step (ctx_eviction system_context) (ctx_cas system_context) 0 (fst s) (snd s) = (p1, h1)" by fastforce
    have "prune_race system_context 0 ?d s (p1, h1)" using prune_race.Prune_Moves [OF st] by simp
    with Suc.IH [of "(p1, h1)"] show ?case by (simp add: st)
  qed simp
  obtain p' h' where it: "?it 3 = (p', h')" by fastforce
  have "fst (?it 3) = Pruned (Ok 0)" by code_simp
  then have p': "p' = Pruned (Ok 0)" by (simp add: it)
  have d: "is_digest_format ?d" "is_pinned (ctx_eviction system_context) pinned_host ?d" by code_simp+
  have ctx: "over_root system_context [''m'']" using system_context_ok by (simp add: system_ok_def)
  have r: "(prune_race system_context 0 ?d)\<^sup>*\<^sup>* (Scanning, pinned_host) (p', h')" using run [of "(Scanning, pinned_host)" 3] it by simp
  have q: "[''m'', ''cas'', ''blobs'', ''sha256'', ?d] \<in> blob_paths (ctx_cas system_context) ?d"
    by (simp add: blob_paths_eq [OF d(1)] system_context_def demo_store_def)
  have l: "lookup pinned_host [''m'', ''cas'', ''blobs'', ''sha256'', ?d] = Some (File 0)" by code_simp
  from pinned_before_prune [OF ctx pinned_host_inv d r q l] show ?thesis using r p' by blast
qed

text \<open>
  A pin that comes late does not.  When a request pins the digest between the test of its pin and the
  removal, the request is answered with success and the blob is removed all the same.
\<close>

theorem late_pin_lost:
  assumes "over_root ctx root" and "store_inv H root h" and "is_digest_format d" and "mx < tot" and "\<not> is_pinned (ctx_eviction ctx) h d"
    and "pin (ctx_eviction ctx) d h = (Ok (), h1)" and "is_pinned (ctx_eviction ctx) h1 d"
    and "remove_file (standard_path (ctx_cas ctx) d) h1 = (Ok (), h2)"
  shows "prune_step (ctx_eviction ctx) (ctx_cas ctx) mx (Pruning ((d, sz, m) # rows) tot n) h = (Unlinking d sz rows tot n, h) \<and>
    prune_step (ctx_eviction ctx) (ctx_cas ctx) mx (Unlinking d sz rows tot n) h1 = (Unlinking_Flat True d sz rows tot n, h2) \<and>
    is_pinned (ctx_eviction ctx) h2 d \<and> lookup h2 (standard_path (ctx_cas ctx) d) = None"
proof -
  have inv1: "store_inv H root h1" using pin_keeps [OF assms(2,1,6)] by blast
  have x: "no_slash d" using digest_format_segment [OF assms(3)] by (simp add: no_slash_def is_segment_def)
  have q: "standard_path (ctx_cas ctx) d \<in> prune_targets (ctx_cas ctx) d" by (simp add: prune_targets_def standard_path_def)
  have "is_pinned (ctx_eviction ctx) h2 d" using unlink_target(2) [OF inv1 assms(1) x q assms(8)] assms(7) by simp
  moreover have "lookup h2 (standard_path (ctx_cas ctx) d) = None" using remove_file_lookup [OF assms(8)] by (simp add: is_ok_def)
  ultimately show ?thesis using assms(4,5,8) by (simp add: standard_path_def is_ok_def)
qed

theorem late_pin_lost_witness:
  "let h1 = snd (pin (ctx_eviction system_context) (hex_digest demo_hasher ''abc'')
                  (snd (unpin (ctx_eviction system_context) (hex_digest demo_hasher ''abc'') pinned_host)));
       h2 = snd (remove_file (standard_path demo_store (hex_digest demo_hasher ''abc'')) h1)
   in is_pinned (ctx_eviction system_context) h2 (hex_digest demo_hasher ''abc'') \<and>
      lookup h2 (standard_path demo_store (hex_digest demo_hasher ''abc'')) = None"
proof -
  let ?d = "hex_digest demo_hasher ''abc''" and ?E = "ctx_eviction system_context"
  let ?h = "snd (unpin ?E ?d pinned_host)"
  let ?h1 = "snd (pin ?E ?d ?h)"
  let ?h2 = "snd (remove_file (standard_path demo_store ?d) ?h1)"
  have ctx: "over_root system_context [''m'']" using system_context_ok by (simp add: system_ok_def)
  have inv: "store_inv demo_hasher [''m''] ?h" using unpin_keeps [OF pinned_host_inv ctx surjective_pairing] by blast
  have d: "is_digest_format ?d" "\<not> is_pinned ?E ?h ?d" by code_simp+
  have ok: "fst (pin ?E ?d ?h) = Ok ()" "is_pinned ?E ?h1 ?d" "fst (remove_file (standard_path demo_store ?d) ?h1) = Ok ()" by code_simp+
  have p: "pin ?E ?d ?h = (Ok (), ?h1)" by (rule prod_eqI) (simp_all add: ok)
  have S: "ctx_cas system_context = demo_store" by (simp add: system_context_def)
  have r: "remove_file (standard_path (ctx_cas system_context) ?d) ?h1 = (Ok (), ?h2)" unfolding S by (rule prod_eqI) (simp_all add: ok)
  have "(0 :: nat) < 1" by simp
  from late_pin_lost [OF ctx inv d(1) this d(2) p ok(2) r, unfolded S] show ?thesis by (simp only: Let_def)
qed

text \<open>
  C13. What others see of a tag that is being set.  After every step of \<open>set_tag\<close> a request that reads another
  tag sees what it held; one that reads this tag sees the old digest before the file is created, the new one
  after the write, and in between an empty text, which is no digest.  When the write is refused the call
  ends there: the old digest is lost.
\<close>

theorem set_tag_visible:
  assumes "tags_inv R h" and "tag_segment n" and "tag_segment t" and "is_digest_format (trim d)"
    and "tag_iter R n t d k Checking h = (p, hk)" and "tag_segment n'" and "tag_segment t'"
  shows "get_tag R hk n' t' = Ok (if (n', t') \<noteq> (n, t) \<or> k \<le> 2 then tag_view R h (n', t')
      else if k = 3 then Some '''' else Some (trim d)) \<and>
    (\<forall>f e. k = 3 \<longrightarrow> refuse (hk\<lparr>fault := f\<rparr>) Op_write (tag_path R n t) = Some e \<longrightarrow>
      tag_step R n t d p (hk\<lparr>fault := f\<rparr>) = (Tagged (Err (Io e)), hk\<lparr>fault := f\<rparr>))"
proof -
  obtain h1 i h2 h3 where T: "tag_iter R n t d 1 Checking h = (Making_Dir n t, h)"
    "tag_iter R n t d 2 Checking h = (Creating (tag_path R n t), h1)" "tags_inv R h1" "tag_view R h1 = tag_view R h"
    "tag_iter R n t d 3 Checking h = (Writing (tag_path R n t) i, h2)" "owned (tags_dir R) h2" "tag_view R h2 = (tag_view R h)((n, t) \<mapsto> [])"
    "\<forall>j. tag_iter R n t d (4 + j) Checking h = (Tagged (Ok ()), h3)" "owned (tags_dir R) h3"
    "tag_view R h3 = (tag_view R h)((n, t) \<mapsto> trim d)" by (rule tag_steps [OF assms(1-4)])
  have plain_text: "is_ascii x \<and> trim x = x" if "tag_view R h (n', t') = Some x" for x
    using tag_view_digest [OF assms(1) that] by (simp add: digest_format_ascii digest_format_trim)
  have new_text: "is_ascii (trim d) \<and> trim (trim d) = trim d" using assms(4) by (simp add: digest_format_ascii digest_format_trim)
  have no_text: "is_ascii '''' \<and> trim '''' = ''''" by code_simp
  have read: "get_tag R g n' t' = Ok (((tag_view R h)((n, t) \<mapsto> bs)) (n', t'))"
    if "owned (tags_dir R) g" "tag_view R g = (tag_view R h)((n, t) \<mapsto> bs)" "is_ascii bs \<and> trim bs = bs" for g bs
  proof -
    have "is_ascii x \<and> trim x = x" if "tag_view R g (n', t') = Some x" for x
      using that \<open>tag_view R g = _\<close> \<open>is_ascii bs \<and> _\<close> plain_text by (auto split: if_splits)
    from get_tag_owned [OF that(1) assms(6,7) this] show ?thesis by (simp only: that(2))
  qed
  have "k = 0 \<or> k = 1 \<or> k = 2 \<or> k = 3 \<or> k = 4 + (k - 4)" by arith
  then consider "k = 0" | "k = 1" | "k = 2" | "k = 3" | j where "k = 4 + j" by blast
  then show ?thesis
  proof cases
    case 1
    then show ?thesis using assms(5) get_tag_view [OF assms(1,6,7)] by simp
  next
    case 2
    then show ?thesis using assms(5) T(1) get_tag_view [OF assms(1,6,7)] by simp
  next
    case 3
    then show ?thesis using assms(5) T(2,4) get_tag_view [OF T(3) assms(6,7)] by simp
  next
    case 4
    then have "hk = h2" "p = Writing (tag_path R n t) i" using assms(5) T(5) by simp_all
    then show ?thesis using 4 read [OF T(6,7) no_text] by (auto simp: write_all_def)
  next
    case 5
    then show ?thesis using assms(5) T(8) [rule_format, of j] read [OF T(9,10) new_text] by auto
  qed
qed

theorem set_tag_visible_witness:
  "let h = snd (tag_iter demo_registry ''m'' ''v'' (dg 1) 3 Checking demo_tags) in
   get_tag demo_registry demo_tags ''m'' ''v'' = Ok (Some demo_digest) \<and> get_tag demo_registry h ''m'' ''v'' = Ok (Some '''') \<and>
   resolve demo_registry h ''m:v'' = Ok (Some '''')"
proof -
  let ?h = "snd (tag_iter demo_registry ''m'' ''v'' (dg 1) 3 Checking demo_tags)"
  have seg: "tag_segment ''m''" "tag_segment ''v''" "is_digest_format (trim (dg 1))" by code_simp+
  have "get_tag demo_registry ?h ''m'' ''v'' = Ok (Some '''')"
    using set_tag_visible [OF demo_tags_inv seg surjective_pairing seg(1,2), of 3] by simp
  moreover have "resolve demo_registry ?h ''m:v'' = Ok (Some '''')" "get_tag demo_registry demo_tags ''m'' ''v'' = Ok (Some demo_digest)"
    by code_simp+
  ultimately show ?thesis by (simp only: Let_def)
qed

end
