(* ===== verification/Racing_Commits.thy ===== *)
theory Racing_Commits
  imports Pull_Safety
begin

text \<open>
  Two pulls that commit at the same time.  The second name of a blob (\<^verbatim>\<open>pull/commit_artifact.rs\<close>, step 2) is
  made by a removal, a hard link and, when the link is refused, a copy.  Taken one at a time these calls are
  not safe against the same calls of another pull of the same file: a link that is refused because the other
  pull has just made it leads to a copy of the file onto itself, which truncates it.
\<close>

section \<open>The steps of a commit\<close>

datatype commit_phase = Making_Dirs | Removing | Linking | Copying_File | Committed

text \<open>What \<open>commit_blob\<close> does next, one call of \<^verbatim>\<open>std::fs\<close> at a time.\<close>

fun commit_step :: "artifact_commit \<Rightarrow> commit_phase \<Rightarrow> host \<Rightarrow> commit_phase \<times> host" where
  "commit_step c Making_Dirs h =
     (case make_dirs_at (path_join (path_join (path_join (storage_root c) ''cas'') ''blobs'') ''sha256'') h of
        (Inl e, h1) \<Rightarrow> (Committed, h1)
      | (Inr u, h1) \<Rightarrow> (Removing, h1))"
| "commit_step c Removing h = (Linking, snd (at_path (cas_blob c) remove_file h))"
| "commit_step c Linking h =
     (case hard_link_at (cas_dest c) (cas_blob c) h of
        (Inl e, h1) \<Rightarrow> (Copying_File, h1)
      | (Inr u, h1) \<Rightarrow> (Committed, h1))"
| "commit_step c Copying_File h = (Committed, snd (copy_at (cas_dest c) (cas_blob c) h))"
| "commit_step c Committed h = (Committed, h)"

fun commit_iter :: "artifact_commit \<Rightarrow> nat \<Rightarrow> commit_phase \<Rightarrow> host \<Rightarrow> commit_phase \<times> host" where
  "commit_iter c 0 p h = (p, h)"
| "commit_iter c (Suc n) p h = (case commit_step c p h of (p', h') \<Rightarrow> commit_iter c n p' h')"

text \<open>Alone, the steps are the commit.\<close>

lemma steps_are_commit_blob: "commit_iter c 4 Making_Dirs h = (Committed, commit_blob c h)"
  by (simp add: eval_nat_numeral commit_blob_def Let_def split: prod.splits sum.splits)

text \<open>Two commits of one file; the schedule says which moves.\<close>

fun commit_race :: "artifact_commit \<Rightarrow> bool list \<Rightarrow> commit_phase \<times> commit_phase \<times> host \<Rightarrow> commit_phase \<times> commit_phase \<times> host" where
  "commit_race c [] s = s"
| "commit_race c (first # w) (p, q, h) =
     (if first then (case commit_step c p h of (p', h') \<Rightarrow> commit_race c w (p', q, h'))
      else (case commit_step c q h of (q', h') \<Rightarrow> commit_race c w (p, q', h')))"

section \<open>The calls where both paths are regular\<close>

definition committing :: "artifact_commit \<Rightarrow> nat \<Rightarrow> host \<Rightarrow> bool" where
  "committing c i h = (good_commit c \<and> fault h = (\<lambda>op p. None) \<and>
     nul_free (path_comps (cas_blob c)) \<and> nul_free (path_comps (cas_dest c)) \<and>
     lookup h (path_comps (cas_dest c)) = Some (File i) \<and> lookup h (butlast (path_comps (cas_blob c))) = Some Dir)"

lemma committing_free: "committing c i h \<Longrightarrow> nul_free p \<Longrightarrow> refuse h op p = None"
  by (simp add: committing_def refuse_def nul_free_def)

lemma committing_path:
  "committing c i h \<Longrightarrow> path_comps (cas_blob c) \<noteq> [] \<and> path_comps (cas_blob c) \<noteq> path_comps (cas_dest c) \<and>
   butlast (path_comps (cas_blob c)) \<noteq> path_comps (cas_blob c)"
  using commit_paths(2) [of c] commit_blob_paths(3) [of c] by (simp add: committing_def butlast_append)

lemma commit_at:
  assumes "committing c i h"
  shows "at_path (cas_blob c) f h' = f (path_comps (cas_blob c)) h'"
    "hard_link_at (cas_dest c) (cas_blob c) h' = hard_link (path_comps (cas_dest c)) (path_comps (cas_blob c)) h'"
    "copy_at (cas_dest c) (cas_blob c) h' = copy_file (path_comps (cas_dest c)) (path_comps (cas_blob c)) h'"
  using assms commit_paths(6,7) [of c]
  by (simp_all add: committing_def at_path_clean hard_link_at_def copy_at_def reachable_clean abs_path_clean)

lemma step_dirs: "committing c i h \<Longrightarrow> commit_step c Making_Dirs h = (Removing, h)"
  using commit_dirs_present [of c h] committing_free [of c i h] by (simp add: committing_def nul_free_butlast)

lemma step_remove:
  assumes "committing c i h" and "lookup h (path_comps (cas_blob c)) = None"
  shows "commit_step c Removing h = (Linking, h)"
  using assms committing_free [OF assms(1), of "path_comps (cas_blob c)"] by (simp add: commit_at [OF assms(1)] remove_file_def committing_def)

lemma step_link:
  assumes c: "committing c i h" and "lookup h (path_comps (cas_blob c)) = None"
  shows "commit_step c Linking h = (Committed, put_ent (path_comps (cas_blob c)) (File i) h)"
    and "committing c i (put_ent (path_comps (cas_blob c)) (File i) h)"
  using assms committing_free [OF c, of "path_comps (cas_blob c)"] committing_path [OF c]
  by (simp_all add: commit_at [OF c] hard_link_def committing_def parent_problem_def fs_simps)

lemma step_link_refused:
  assumes c: "committing c i h" and "lookup h (path_comps (cas_blob c)) = Some (File i)"
  shows "commit_step c Linking h = (Copying_File, h)"
  using assms committing_free [OF c, of "path_comps (cas_blob c)"]
  by (simp add: commit_at [OF c] hard_link_def committing_def)

text \<open>The copy of a file onto itself.\<close>

lemma step_copy_itself:
  assumes c: "committing c i h" and b: "lookup h (path_comps (cas_blob c)) = Some (File i)"
  shows "\<exists>h'. commit_step c Copying_File h = (Committed, h') \<and> content (inode h' i) = [] \<and>
    (\<forall>p. lookup h' p = lookup h p) \<and> fault h' = fault h"
proof -
  let ?b = "path_comps (cas_blob c)" and ?t = "path_comps (cas_dest c)"
  let ?h1 = "put_inode i \<lparr>content = [], mtime = now h\<rparr> h"
  have nul: "nul_free ?b" "nul_free ?t" and t: "lookup h ?t = Some (File i)" using c by (simp_all add: committing_def)
  have pl: "plain h ?b" "plain h ?t" using b t by (simp_all add: plain_def)
  have cr: "create_file ?b h = (Ok i, ?h1)"
    using b committing_free [OF c nul(1)] by (simp add: create_file_def resolve_plain [OF pl(1)])
  have op: "open_file h ?t = Ok (File i)"
    using t committing_free [OF c nul(2)] by (simp add: open_file_def stat_plain [OF pl(2)])
  have rd: "read_node ?h1 ?t (File i) = Ok []"
    using committing_free [OF c nul(2)] refuse_cong [of ?h1 h] by (simp add: read_node_def fs_simps)
  have wr: "write_all ?b i [] ?h1 = (Ok (), put_inode i \<lparr>content = [], mtime = now h\<rparr> ?h1)"
    using committing_free [OF c nul(1)] refuse_cong [of ?h1 h] by (simp add: write_all_def fs_simps)
  show ?thesis by (simp add: commit_at [OF c] copy_file_def op cr rd wr) (simp add: fs_simps)
qed

section \<open>The race\<close>

text \<open>
  C40. Two pulls of one file can empty it.  When both have renamed their download to the flat path and the
  standard path is not there yet, the schedule in which both remove, one links and then the other tries to
  link ends with an empty file under both paths of the digest, and neither pull has seen an error.
\<close>

theorem racing_commits_empty_blob:
  assumes "committing c i h" and "lookup h (path_comps (cas_blob c)) = None"
  shows "\<exists>h'. commit_race c [True, False, True, False, True, False, False] (Making_Dirs, Making_Dirs, h) = (Committed, Committed, h') \<and>
    contents h' (path_comps (cas_blob c)) = Some [] \<and> contents h' (path_comps (cas_dest c)) = Some []"
proof -
  let ?b = "path_comps (cas_blob c)" and ?t = "path_comps (cas_dest c)"
  let ?h1 = "put_ent ?b (File i) h"
  note L = step_link [OF assms]
  have b: "lookup ?h1 ?b = Some (File i)" using committing_path [OF assms(1)] by (simp add: fs_simps)
  obtain h' where cp: "commit_step c Copying_File ?h1 = (Committed, h')" and h': "content (inode h' i) = []" "\<And>p. lookup h' p = lookup ?h1 p"
    using step_copy_itself [OF L(2) b] by blast
  have t: "lookup ?h1 ?t = Some (File i)" using L(2) by (simp add: committing_def)
  have "commit_race c [True, False, True, False, True, False, False] (Making_Dirs, Making_Dirs, h) = (Committed, Committed, h')"
    by (simp add: step_dirs [OF assms(1)] step_remove [OF assms] L(1) step_link_refused [OF L(2) b] cp del: commit_step.simps)
  moreover have "contents h' ?b = Some []" "contents h' ?t = Some []" using b t h' by (simp_all add: contents_File)
  ultimately show ?thesis by blast
qed

text \<open>The store no longer holds what the digest says.\<close>

definition committing_host :: host where
  "committing_host = plain_host (([''m'', ''cas'', ''sha256-'' @ replicate 64 (CHR ''a'') @ ''.gguf''], File 0) # demo_dirs)
     [(0, \<lparr>content = ''abc'', mtime = 0\<rparr>)]"

theorem racing_commits_empty_blob_witness:
  "\<exists>h'. commit_race (demo_commit ''m'' ''q4'') [True, False, True, False, True, False, False] (Making_Dirs, Making_Dirs, committing_host) =
      (Committed, Committed, h') \<and>
    contents committing_host [''m'', ''cas'', ''sha256-'' @ replicate 64 (CHR ''a'') @ ''.gguf''] = Some ''abc'' \<and>
    contents h' [''m'', ''cas'', ''sha256-'' @ replicate 64 (CHR ''a'') @ ''.gguf''] = Some []"
proof -
  let ?c = "demo_commit ''m'' ''q4''" and ?a = "replicate 64 (CHR ''a'')"
  have b: "path_comps (cas_blob ?c) = [''m'', ''cas'', ''blobs'', ''sha256'', ?a]" by code_simp
  have t: "path_comps (cas_dest ?c) = [''m'', ''cas'', ''sha256-'' @ ?a @ ''.gguf'']" by code_simp
  have "good_commit ?c" "nul_free (path_comps (cas_blob ?c))" "nul_free (path_comps (cas_dest ?c))" by code_simp+
  then have c: "committing ?c 0 committing_host"
    by (simp add: committing_def t b lookup_def committing_host_def plain_host_def demo_dirs_def)
  have "lookup committing_host (path_comps (cas_blob ?c)) = None"
    by (simp add: b lookup_def committing_host_def plain_host_def demo_dirs_def)
  from racing_commits_empty_blob [OF c this] obtain h' where
    "commit_race ?c [True, False, True, False, True, False, False] (Making_Dirs, Making_Dirs, committing_host) = (Committed, Committed, h')"
    "contents h' (path_comps (cas_dest ?c)) = Some []" by blast
  moreover have "contents committing_host [''m'', ''cas'', ''sha256-'' @ ?a @ ''.gguf''] = Some ''abc''" by code_simp
  ultimately show ?thesis using t by auto
qed

end
