(* ===== verification/Deployment.thy ===== *)
theory Deployment
  imports Concurrent_Store Modelctl
begin

text \<open>
  The daemon and the command line program together: the transition system of the daemon extended by
  the two commands that change the store on their own, import and pull.  Each runs as a process of its
  own with its own counters; one command is one step, and a bootstrap is one pull per target.  What a
  pull sends to the daemon is a message like any other, so that the steps of the daemon account for it.
\<close>

section \<open>Steps\<close>

text \<open>Reads cut a file into non-empty pieces.\<close>

definition cuts :: "(bytes \<Rightarrow> bytes list) \<Rightarrow> bool" where
  "cuts f = (\<forall>bs. concat (f bs) = bs \<and> (\<forall>c \<in> set (f bs). c \<noteq> []))"

text \<open>
  What a pull needs: the model it resolves to has a name and a tag the registry would accept and no
  tokenizer beside it, the name of its staging file is not in use, and the kernel refuses neither to read
  nor to write an opened file under the paths of a blob.
\<close>

definition pull_ready ::
    "'h pull_env \<Rightarrow> string \<Rightarrow> string \<Rightarrow> string \<Rightarrow> string option \<Rightarrow> string option \<Rightarrow> pull_state \<Rightarrow> bool" where
  "pull_ready env dir spec format quant tag s =
     ((\<forall>reqs r. resolve_model_with_format (pe_hub env) (ps_host s) spec format quant tag = (reqs, Some (Ok r)) \<longrightarrow>
         tag_segment (rm_name r) \<and> tag_segment (rm_tag r) \<and> rm_tokenizer r = None \<and>
         lookup (ps_host s) (pull_stage env dir r s) = None) \<and>
      blob_io_ok (path_comps dir) (ps_host s))"

inductive deployment_step ::
    "'h hasher \<Rightarrow> service_context \<Rightarrow> trusted_group_config \<Rightarrow> string \<Rightarrow> daemon_state \<Rightarrow> daemon_state \<Rightarrow> bool"
  for H ctx policy dir where
  Service: "daemon_step H ctx policy s s' \<Longrightarrow> deployment_step H ctx policy dir s s'"
| Import_Command: "cuts chunks_of \<Longrightarrow> h = process p n (ds_host s) \<Longrightarrow> lookup h (stage_path (ctx_cas ctx) h) = None \<Longrightarrow>
    run_import H chunks_of dir source tag h = (r, out, h') \<Longrightarrow> deployment_step H ctx policy dir s (s\<lparr>ds_host := h'\<rparr>)"
| Pull_Command: "pe_hasher env = H \<Longrightarrow> (\<And>sock request h. snd (pe_serve env sock request h) = h) \<Longrightarrow>
    ps_host st = process p n (ds_host s) \<Longrightarrow> pull_ready env dir spec format quant tag st \<Longrightarrow>
    deployment_step H ctx policy dir s (s\<lparr>ds_host := ps_host (snd (run_pull env dir sock spec format quant tag force st))\<rparr>)"

text \<open>The parameters: those of the daemon, and a directory named without \<open>..\<close>.\<close>

definition deployment_ok :: "'h hasher \<Rightarrow> service_context \<Rightarrow> string \<Rightarrow> bool" where
  "deployment_ok H ctx dir = (system_ok H ctx (path_comps dir) \<and> clean dir)"

lemma deployment_step_inv:
  assumes ok: "deployment_ok H ctx dir" and inv: "daemon_inv H (path_comps dir) s" and step: "deployment_step H ctx policy dir s s'"
  shows "daemon_inv H (path_comps dir) s'"
proof -
  have sys: "sha256_contract H" "over_root ctx (path_comps dir)" "clean dir" using ok by (simp_all add: deployment_ok_def system_ok_def)
  have proc: "store_inv H (path_comps dir) (process p n (ds_host s))" for p n
    using inv store_inv_process(1) [of H "path_comps dir" "ds_host s"] by (simp add: process_def daemon_inv_def)
  show ?thesis
    using step
  proof cases
    case Service
    then show ?thesis using daemon_step_inv [OF sys(1,2) inv] by blast
  next
    case (Import_Command chunks_of h n p source tag r out h')
    have "store_inv H (path_comps dir) h'"
      using run_import_outcome [OF sys(1) _ _ _ Import_Command(5), unfolded abs_path_clean [OF sys(3)]] Import_Command(2-4)
        proc sys(2) by (auto simp: cuts_def over_root_def)
    then show ?thesis using inv Import_Command(1) by (simp add: daemon_inv_def)
  next
    case (Pull_Command env st p n spec format quant tag sock force)
    have "store_inv H (path_comps dir) (ps_host (snd (run_pull env dir sock spec format quant tag force st)))"
      using run_pull_keeps [of env dir st spec format quant tag sock force] Pull_Command(2-5) sys(1,3) proc [of p n]
      by (simp add: pull_ready_def serves_keep_def)
    then show ?thesis using inv Pull_Command(1) by (simp add: daemon_inv_def)
  qed
qed

interpretation deployment: invariant_system "daemon_init H ctx (path_comps dir)"
  "\<lambda>s s'. deployment_ok H ctx dir \<and> deployment_step H ctx policy dir s s'" "daemon_inv H (path_comps dir)"
  for H :: "'h hasher" and ctx dir policy
proof
  show "daemon_init H ctx (path_comps dir) s \<Longrightarrow> daemon_inv H (path_comps dir) s" for s
    by (simp add: daemon_init_def daemon_inv_def)
  show "daemon_inv H (path_comps dir) s \<Longrightarrow> deployment_ok H ctx dir \<and> deployment_step H ctx policy dir s s' \<Longrightarrow>
      daemon_inv H (path_comps dir) s'" for s s'
    using deployment_step_inv by blast
qed

section \<open>The pulls of a bootstrap\<close>

lemma resolve_listing_names:
  assumes "resolve_listing repo ''gguf'' quant (Some x) entries = Some (Ok r)"
    and "parse_tag_override [] [] (Some x) = (a, b)" and "a \<noteq> []" and "b \<noteq> []"
  shows "rm_name r = a \<and> rm_tag r = b \<and> rm_tokenizer r = None"
proof -
  have st: "\<not> eq_ignore_ascii_case ''gguf'' ''safetensors''" by code_simp
  show ?thesis
    using assms(1) st parse_tag_override_default [OF assms(2-4)]
    by (auto simp: resolve_listing_def Let_def tokenizer_of_def split: sum.splits option.splits prod.splits)
qed

text \<open>Whatever the hub lists, a planned target is stored under its planned name and tag.\<close>

lemma planned_names:
  assumes "t \<in> set (all_targets (plan_family f b))"
    and "resolve_model_with_format env h (tg_repo t) ''gguf'' (Some (tg_quant t)) (Some (tg_name t @ '':'' @ tg_tag t)) =
      (reqs, Some (Ok r))"
  shows "rm_name r = tg_name t \<and> rm_tag r = tg_tag t \<and> rm_tokenizer r = None \<and> tag_segment (tg_name t) \<and> tag_segment (tg_tag t)"
proof -
  have t: "resolvable t" using targets_named [of f b] assms(1) by (auto simp: targets_named_def list_all_iff)
  have ok: "target_ok t"
    using plan_ok_qwen [of b] plan_ok_granite [of b] plan_ok_gemma [of b] plan_ok_phi [of b] plan_ok_bitnet [of b] assms(1)
    by (cases f) (auto simp: plan_ok_def list_all_iff)
  have fmt: "to_ascii_lowercase ''gguf'' = ''gguf''" by code_simp
  have "resolve_hf_repo env h (tg_repo t) ''gguf'' (Some (tg_quant t)) (Some (tg_name t @ '':'' @ tg_tag t)) = (reqs, Some (Ok r))"
    using assms(2) t by (simp add: resolve_model_with_format_def resolvable_def fmt Let_def)
  then obtain entries where
    "resolve_listing (tg_repo t) ''gguf'' (Some (tg_quant t)) (Some (tg_name t @ '':'' @ tg_tag t)) entries = Some (Ok r)"
    by (rule resolve_hf_repo_Ok)
  from resolve_listing_names [OF this, of "tg_name t" "tg_tag t"] t ok show ?thesis
    by (simp add: resolvable_def ref_of_def target_ok_def)
qed

section \<open>Properties\<close>



text \<open>
  A bootstrap keeps the store sound.  The pull of a target of any plan keeps the invariant of the
  store whatever the hub lists and sends: the plan's names are valid, and no listing changes them.
\<close>

theorem planned_pull_keeps_store:
  assumes "sha256_contract (pe_hasher (bt_pull env))" and "store_inv (pe_hasher (bt_pull env)) (path_comps root) (ps_host s)"
    and "clean root" and "t \<in> set (all_targets (plan_family f b))"
    and "\<And>r. lookup (ps_host s) (pull_stage (bt_pull env) root r s) = None"
    and "blob_io_ok (path_comps root) (ps_host s)"
    and "serves_keep (bt_pull env) (path_comps root)"
  shows "store_inv (pe_hasher (bt_pull env)) (path_comps root) (ps_host (snd (run_target env root sock t s)))"
  unfolding run_target_def
  by (rule run_pull_keeps [OF assms(1-3) _ assms(6,7)]) (use planned_names [OF assms(4)] assms(5) in auto)

definition granite_boot :: "bytes boot_env" where
  "granite_boot = offline_boot\<lparr>bt_pull := (bt_pull offline_boot)\<lparr>pe_hub := granite_hub\<rparr>\<rparr>"

theorem planned_pull_keeps_store_witness:
  "store_inv demo_hasher [''m''] (ps_host (snd (run_target granite_boot ''/m'' ''/run/s''
     (draft (plan_family Granite (demo_budget 0 gib))) (demo_start pinned_host))))"
proof -
  have root: "path_comps ''/m'' = [''m'']" "clean ''/m''" by code_simp+
  have H: "pe_hasher (bt_pull granite_boot) = demo_hasher" by (simp add: granite_boot_def offline_boot_def)
  have h: "ps_host (demo_start pinned_host) = pinned_host" by (simp add: demo_start_def)
  have t: "draft (plan_family Granite (demo_budget 0 gib)) \<in> set (all_targets (plan_family Granite (demo_budget 0 gib)))"
    by (simp add: all_targets_def Let_def split: option.split)
  have unused: "lookup pinned_host (pull_stage (bt_pull granite_boot) ''/m'' r (demo_start pinned_host)) = None" for r
    by (simp add: pull_stage_def root lookup_def pinned_host_def plain_host_def demo_dirs_def)
  have "blob_io_ok [''m''] pinned_host" by (simp add: blob_io_ok_def pinned_host_def plain_host_def)
  moreover have "serves_keep (bt_pull granite_boot) [''m'']" by (simp add: serves_keep_def granite_boot_def offline_boot_def)
  ultimately show ?thesis
    using planned_pull_keeps_store [of granite_boot "''/m''" "demo_start pinned_host", unfolded H h root(1), OF demo_hasher_contract
        pinned_host_inv root(2) t unused] by blast
qed

end
